(* ===== verification/Prelude.thy ===== *)
theory Prelude
  imports Main "HOL-Library.Sublist"
begin

text \<open>
  Shared vocabulary of the development: Go byte strings, Go errors and results, the
  outcomes of running a piece of Go code (it returns, panics or blocks forever on a
  lock), the collections of simplification and introduction rules the component
  theories add to, and generic facts on lists and maps.

  A Go \<open>string\<close> and a Go \<open>[]byte\<close> are both sequences of bytes. HOL's \<open>char\<close> is an
  8-bit byte, so both are modelled by \<open>string\<close> (a \<open>char list\<close>) and the conversions
  \<open>string(b)\<close> and \<open>[]byte(s)\<close> are the identity.
\<close>

section \<open>Collections\<close>

named_theorems str_simps \<open>facts on the string operations\<close>
named_theorems fs_simps \<open>facts on the file system\<close>
named_theorems resp_simps \<open>facts on the response writer\<close>
named_theorems frame_simps \<open>what an operation leaves unchanged\<close>

named_theorems inv_intros \<open>introduction rules for the state invariants\<close>
named_theorems enc_simps \<open>facts on the positional encodings\<close>

section \<open>Types\<close>

type_synonym bytes = string

text \<open>A Go error value; the code only ever looks at its message.\<close>

datatype go_error = GoError (err_msg: string)

type_synonym 'a result = "go_error + 'a"

text \<open>
  What running a handler can end in: a normal return, a run-time panic (which
  \<open>net/http\<close> recovers from, dropping the connection), or waiting for a mutex that is
  never released.
\<close>

datatype 'a outcome = Done 'a | Panicked | Blocked

section \<open>Results\<close>

definition is_ok :: "'a result \<Rightarrow> bool" where
  "is_ok r = (case r of Inl _ \<Rightarrow> False | Inr _ \<Rightarrow> True)"

lemma is_ok_simps [simp]: "is_ok (Inl e) = False" "is_ok (Inr x) = True"
  by (simp_all add: is_ok_def)

lemma is_ok_iff: "is_ok r \<longleftrightarrow> (\<exists>x. r = Inr x)"
  by (cases r) simp_all

section \<open>Lists and maps\<close>

lemma takeWhile_neq_id: "c \<notin> set s \<Longrightarrow> takeWhile (\<lambda>x. x \<noteq> c) s = s"
  by (rule takeWhile_eq_all_conv [THEN iffD2]) auto

lemma dropWhile_neq_Nil: "c \<notin> set s \<Longrightarrow> dropWhile (\<lambda>x. x \<noteq> c) s = []"
  by (auto simp: dropWhile_eq_Nil_conv)

lemma takeWhile_neq_append:
  "c \<notin> set s \<Longrightarrow> takeWhile (\<lambda>x. x \<noteq> c) (s @ c # t) = s"
  by (induction s) auto

lemma dropWhile_neq_append:
  "c \<notin> set s \<Longrightarrow> dropWhile (\<lambda>x. x \<noteq> c) (s @ c # t) = c # t"
  by (induction s) auto

lemma ran_upd_subset: "ran (m(k \<mapsto> v)) \<subseteq> insert v (ran m)"
  by (auto simp: ran_def)

text \<open>A property of all entries of a map, and its preservation by updates and deletions.\<close>

definition map_all :: "('k \<Rightarrow> 'v \<Rightarrow> bool) \<Rightarrow> ('k \<rightharpoonup> 'v) \<Rightarrow> bool" where
  "map_all P m \<longleftrightarrow> (\<forall>k v. m k = Some v \<longrightarrow> P k v)"

lemma map_all_empty [simp, intro]: "map_all P Map.empty"
  by (simp add: map_all_def)

lemma map_all_upd [inv_intros]: "map_all P m \<Longrightarrow> P k v \<Longrightarrow> map_all P (m(k \<mapsto> v))"
  by (simp add: map_all_def)

lemma map_all_del [inv_intros]: "map_all P m \<Longrightarrow> map_all P (m(k := None))"
  by (simp add: map_all_def)

lemma map_all_minus [inv_intros]: "map_all P m \<Longrightarrow> map_all P (m |` A)"
  by (simp add: map_all_def restrict_map_def)

lemma map_allD: "map_all P m \<Longrightarrow> m k = Some v \<Longrightarrow> P k v"
  by (simp add: map_all_def)

end
