(* ===== verification/GoStrings.thy ===== *)
theory GoStrings
  imports Prelude
begin

text \<open>
  The operations of Go's \<open>strings\<close>, \<open>strconv\<close>, \<open>fmt\<close> and \<open>path\<close> packages that the
  program uses, on byte strings. Case conversion and white space are those of ASCII: a
  string holding bytes from 128 up is outside what these functions are meant for.
\<close>

section \<open>Prefixes, splitting and joining\<close>

text \<open>\<open>strings.HasPrefix(s, p)\<close>\<close>

fun has_prefix :: "string \<Rightarrow> string \<Rightarrow> bool" where
  "has_prefix s [] = True"
| "has_prefix [] (p # ps) = False"
| "has_prefix (c # s) (p # ps) = (c = p \<and> has_prefix s ps)"

lemma has_prefix_iff: "has_prefix s p \<longleftrightarrow> prefix p s"
  by (induction s p rule: has_prefix.induct) auto

lemma has_prefix_append [simp]: "has_prefix (p @ s) p"
  by (simp add: has_prefix_iff)

text \<open>\<open>strings.Index(s, p) != -1\<close>\<close>

fun has_substr :: "string \<Rightarrow> string \<Rightarrow> bool" where
  "has_substr [] p = (p = [])"
| "has_substr (c # s) p = (has_prefix (c # s) p \<or> has_substr s p)"

text \<open>\<open>strings.TrimPrefix(s, p)\<close>\<close>

definition trim_prefix :: "string \<Rightarrow> string \<Rightarrow> string" where
  "trim_prefix s p = (if has_prefix s p then drop (length p) s else s)"

lemma trim_prefix_append [str_simps]: "trim_prefix (p @ s) p = s"
  by (simp add: trim_prefix_def)

text \<open>\<open>strings.Split(s, c)\<close> for a separator of one byte\<close>

fun split_on :: "char \<Rightarrow> string \<Rightarrow> string list" where
  "split_on c [] = [[]]"
| "split_on c (x # xs) =
     (if x = c then [] # split_on c xs
      else (case split_on c xs of [] \<Rightarrow> [[x]] | y # ys \<Rightarrow> (x # y) # ys))"

lemma split_on_nonempty [simp]: "split_on c s \<noteq> []"
  by (induction s) (auto split: list.splits)

text \<open>\<open>strings.Join(xs, sep)\<close>\<close>

fun join :: "string \<Rightarrow> string list \<Rightarrow> string" where
  "join sep [] = []"
| "join sep [x] = x"
| "join sep (x # y # zs) = x @ sep @ join sep (y # zs)"

lemma join_Cons: "xs \<noteq> [] \<Longrightarrow> join sep (x # xs) = x @ sep @ join sep xs"
  by (cases xs) auto

lemma not_in_join:
  "c \<notin> set sep \<Longrightarrow> \<forall>x \<in> set xs. c \<notin> set x \<Longrightarrow> c \<notin> set (join sep xs)"
  by (induction sep xs rule: join.induct) auto

lemma join_split_on [str_simps]: "join [c] (split_on c s) = s"
proof (induction s)
  case (Cons x xs)
  then show ?case by (cases "split_on c xs"; cases "tl (split_on c xs)") (auto simp: join_Cons)
qed simp

lemma split_on_id: "c \<notin> set s \<Longrightarrow> split_on c s = [s]"
  by (induction s) auto

lemma split_on_append [str_simps]:
  "c \<notin> set s \<Longrightarrow> split_on c (s @ c # t) = s # split_on c t"
  by (induction s) auto

lemma split_on_join [str_simps]:
  "xs \<noteq> [] \<Longrightarrow> \<forall>x \<in> set xs. c \<notin> set x \<Longrightarrow> split_on c (join [c] xs) = xs"
proof (induction xs)
  case (Cons x xs)
  then show ?case by (cases xs) (auto simp: split_on_id split_on_append)
qed simp

lemma split_on_append_sep [str_simps]:
  "split_on c (s @ c # t) = split_on c s @ split_on c t"
  by (induction s) (auto split: list.splits)

lemma split_on_Cons_sep [str_simps]: "split_on c (c # t) = [] # split_on c t"
  by simp

lemma split_on_sep: "x \<in> set (split_on c s) \<Longrightarrow> c \<notin> set x"
  by (induction s arbitrary: x) (auto split: list.splits if_splits)

text \<open>\<open>strings.SplitN(s, c, 2)\<close> for a separator of one byte\<close>

definition splitn2 :: "char \<Rightarrow> string \<Rightarrow> string list" where
  "splitn2 c s =
     (if c \<in> set s then [takeWhile (\<lambda>x. x \<noteq> c) s, tl (dropWhile (\<lambda>x. x \<noteq> c) s)] else [s])"

lemma splitn2_append [str_simps]: "c \<notin> set s \<Longrightarrow> splitn2 c (s @ c # t) = [s, t]"
  by (simp add: splitn2_def takeWhile_neq_append dropWhile_neq_append)

lemma splitn2_id [str_simps]: "c \<notin> set s \<Longrightarrow> splitn2 c s = [s]"
  by (simp add: splitn2_def)

section \<open>Trimming and case\<close>

definition is_space :: "char \<Rightarrow> bool" where
  "is_space c = (c \<in> {CHR '' '', CHR 0x09, CHR 0x0A, CHR 0x0B, CHR 0x0C, CHR 0x0D})"

definition trim_left :: "(char \<Rightarrow> bool) \<Rightarrow> string \<Rightarrow> string" where
  "trim_left P s = dropWhile P s"

definition trim_right :: "(char \<Rightarrow> bool) \<Rightarrow> string \<Rightarrow> string" where
  "trim_right P s = rev (dropWhile P (rev s))"

text \<open>\<open>strings.TrimSpace(s)\<close>\<close>

definition trim_space :: "string \<Rightarrow> string" where
  "trim_space s = trim_right is_space (trim_left is_space s)"

definition to_upper_char :: "char \<Rightarrow> char" where
  "to_upper_char c =
     (if 97 \<le> (of_char c :: nat) \<and> (of_char c :: nat) \<le> 122 then char_of ((of_char c :: nat) - 32) else c)"

definition to_lower_char :: "char \<Rightarrow> char" where
  "to_lower_char c =
     (if 65 \<le> (of_char c :: nat) \<and> (of_char c :: nat) \<le> 90 then char_of ((of_char c :: nat) + 32) else c)"

text \<open>\<open>strings.ToUpper(s)\<close> and \<open>strings.ToLower(s)\<close>\<close>

definition to_upper :: "string \<Rightarrow> string" where
  "to_upper s = map to_upper_char s"

definition to_lower :: "string \<Rightarrow> string" where
  "to_lower s = map to_lower_char s"

lemma length_to_upper [simp]: "length (to_upper s) = length s"
  by (simp add: to_upper_def)

lemma length_to_lower [simp]: "length (to_lower s) = length s"
  by (simp add: to_lower_def)

section \<open>Decimal numbers\<close>

definition digit_char :: "nat \<Rightarrow> char" where
  "digit_char d = char_of (48 + d)"

definition is_digit :: "char \<Rightarrow> bool" where
  "is_digit c = (48 \<le> (of_char c :: nat) \<and> (of_char c :: nat) \<le> 57)"

definition digit_val :: "char \<Rightarrow> nat" where
  "digit_val c = (of_char c :: nat) - 48"

text \<open>\<open>fmt.Sprint(n)\<close> and \<open>%d\<close> for a non-negative and for any integer\<close>

fun nat_str :: "nat \<Rightarrow> string" where
  "nat_str n = (if n < 10 then [digit_char n] else nat_str (n div 10) @ [digit_char (n mod 10)])"

declare nat_str.simps [simp del]

definition int_str :: "int \<Rightarrow> string" where
  "int_str i = (if i < 0 then CHR ''-'' # nat_str (nat (- i)) else nat_str (nat i))"

definition str_nat :: "string \<Rightarrow> nat" where
  "str_nat s = foldl (\<lambda>a c. a * 10 + digit_val c) 0 s"

lemma of_char_char_of_small: "n < 256 \<Longrightarrow> (of_char (char_of n :: char) :: nat) = n"
  by (simp add: of_char_of)

lemma digit_val_char [simp]: "d < 10 \<Longrightarrow> digit_val (digit_char d) = d"
  by (simp add: digit_val_def digit_char_def)

lemma is_digit_char [simp]: "d < 10 \<Longrightarrow> is_digit (digit_char d)"
  by (simp add: is_digit_def digit_char_def)

lemma nat_str_nonempty [simp]: "nat_str n \<noteq> []"
  by (subst nat_str.simps) simp

lemma nat_str_digits: "list_all is_digit (nat_str n)"
proof (induction n rule: nat_str.induct)
  case (1 n)
  then show ?case by (cases "n < 10") (simp_all add: nat_str.simps [of n])
qed

lemma str_nat_nat_str [str_simps]: "str_nat (nat_str n) = n"
proof (induction n rule: nat_str.induct)
  case (1 n)
  show ?case
  proof (cases "n < 10")
    case True
    then show ?thesis by (simp add: nat_str.simps [of n] str_nat_def)
  next
    case False
    with 1 have "str_nat (nat_str (n div 10)) = n div 10" by simp
    with False show ?thesis by (simp add: nat_str.simps [of n] str_nat_def)
  qed
qed

lemma nat_str_inject: "nat_str m = nat_str n \<Longrightarrow> m = n"
  by (metis str_nat_nat_str)

section \<open>Paths\<close>

text \<open>
  \<open>path.Clean\<close>: purely lexical. Empty components and \<open>.\<close> are dropped, \<open>..\<close> removes the
  component before it, or is kept at the front of a path that is not rooted, or dropped
  at the root. The kept components are accumulated in reverse.
\<close>

fun clean_comps :: "bool \<Rightarrow> string list \<Rightarrow> string list \<Rightarrow> string list" where
  "clean_comps rooted acc [] = rev acc"
| "clean_comps rooted acc (c # cs) =
     (if c = '''' \<or> c = ''.'' then clean_comps rooted acc cs
      else if c = ''..'' then
        (case acc of
           [] \<Rightarrow> if rooted then clean_comps rooted [] cs else clean_comps rooted [''..''] cs
         | a # as \<Rightarrow> if a = ''..'' then clean_comps rooted (''..'' # acc) cs
                    else clean_comps rooted as cs)
      else clean_comps rooted (c # acc) cs)"

definition rooted :: "string \<Rightarrow> bool" where
  "rooted p = has_prefix p ''/''"

definition path_clean :: "string \<Rightarrow> string" where
  "path_clean p =
     (let cs = clean_comps (rooted p) [] (split_on (CHR ''/'') p) in
      if rooted p then CHR ''/'' # join ''/'' cs
      else if cs = [] then ''.'' else join ''/'' cs)"

text \<open>\<open>path.Join(elems...)\<close> and \<open>filepath.Join\<close>: empty elements are ignored.\<close>

definition path_join :: "string list \<Rightarrow> string" where
  "path_join es =
     (let es' = filter (\<lambda>e. e \<noteq> []) es in
      if es' = [] then [] else path_clean (join ''/'' es'))"

text \<open>\<open>filepath.Dir(p)\<close>: everything up to the last slash, cleaned.\<close>

definition path_dir :: "string \<Rightarrow> string" where
  "path_dir p = path_clean (rev (dropWhile (\<lambda>c. c \<noteq> CHR ''/'') (rev p)))"

text \<open>A component that cleaning keeps as it is.\<close>

definition plain_comp :: "string \<Rightarrow> bool" where
  "plain_comp c = (c \<noteq> '''' \<and> c \<noteq> ''.'' \<and> c \<noteq> ''..'' \<and> CHR ''/'' \<notin> set c)"

lemma clean_comps_plain:
  "list_all plain_comp cs \<Longrightarrow> clean_comps b acc cs = rev acc @ cs"
  by (induction cs arbitrary: acc) (auto simp: plain_comp_def)

lemma clean_comps_append:
  "clean_comps b acc (xs @ ys) = clean_comps b (rev (clean_comps b acc xs)) ys"
  by (induction b acc xs rule: clean_comps.induct) (auto split: list.splits)

lemma clean_comps_plain_append:
  "list_all plain_comp cs \<Longrightarrow> clean_comps b acc (cs @ ys) = clean_comps b (rev cs @ acc) ys"
  by (induction cs arbitrary: acc) (auto simp: plain_comp_def)

lemma clean_comps_noop:
  "set cs \<subseteq> {'''', ''.''} \<Longrightarrow> clean_comps b acc cs = rev acc"
  by (induction cs arbitrary: acc) auto

lemma clean_comps_append_plain:
  "list_all plain_comp cs \<Longrightarrow> clean_comps b acc (xs @ cs) = clean_comps b acc xs @ cs"
proof (induction b acc xs rule: clean_comps.induct)
  case (1 b acc)
  then show ?case by (simp add: clean_comps_plain)
next
  case (2 b acc c xs)
  then show ?case by (auto split: list.splits)
qed

text \<open>The components of the cleaned form of a rooted path.\<close>

definition clean_path_comps :: "string \<Rightarrow> string list" where
  "clean_path_comps p = clean_comps True [] (split_on (CHR ''/'') p)"

definition abs_path :: "string list \<Rightarrow> string" where
  "abs_path cs = CHR ''/'' # join ''/'' cs"

lemma rooted_abs_path [simp]: "rooted (abs_path cs)"
  by (simp add: rooted_def abs_path_def)

lemma abs_path_nonempty [simp]: "abs_path cs \<noteq> []"
  by (simp add: abs_path_def)

lemma clean_comps_all_plain:
  "list_all plain_comp acc \<Longrightarrow> \<forall>c \<in> set cs. CHR ''/'' \<notin> set c \<Longrightarrow>
     list_all plain_comp (clean_comps True acc cs)"
proof (induction cs arbitrary: acc)
  case (Cons c cs)
  then show ?case by (cases acc) (auto simp: plain_comp_def)
qed simp

lemma clean_path_comps_plain [simp]: "list_all plain_comp (clean_path_comps p)"
  unfolding clean_path_comps_def by (rule clean_comps_all_plain) (auto dest: split_on_sep)

lemma path_clean_rooted: "rooted p \<Longrightarrow> path_clean p = abs_path (clean_path_comps p)"
  by (simp add: path_clean_def abs_path_def clean_path_comps_def)

lemma split_abs_path:
  "list_all plain_comp cs \<Longrightarrow>
     split_on (CHR ''/'') (abs_path cs) = [] # (if cs = [] then [[]] else cs)"
  by (auto simp: abs_path_def list_all_iff plain_comp_def intro: split_on_join)

lemma clean_path_comps_abs_path:
  "list_all plain_comp cs \<Longrightarrow> clean_path_comps (abs_path cs) = cs"
  by (auto simp: clean_path_comps_def split_abs_path clean_comps_plain)

lemma rooted_append: "rooted p \<Longrightarrow> rooted (p @ q)"
  by (cases p) (auto simp: rooted_def)

text \<open>Joining a rooted path and a relative one made of plain components.\<close>

lemma path_join_plain:
  assumes "rooted loc" and "cs \<noteq> []" and "list_all plain_comp cs"
  shows "path_join [loc, join ''/'' cs] = abs_path (clean_path_comps loc @ cs)"
proof -
  from assms(1) have "loc \<noteq> []" by (auto simp: rooted_def)
  moreover from assms(2,3) have "join ''/'' cs \<noteq> []"
    by (cases cs; cases "tl cs") (auto simp: plain_comp_def)
  ultimately have "path_join [loc, join ''/'' cs] = path_clean (loc @ CHR ''/'' # join ''/'' cs)"
    by (simp add: path_join_def)
  also have "\<dots> = abs_path (clean_comps True [] (split_on (CHR ''/'') loc @ cs))"
    using assms by (simp add: path_clean_rooted rooted_append clean_path_comps_def
        split_on_append_sep split_on_join list_all_iff plain_comp_def)
  finally show ?thesis
    using assms(3) by (simp add: clean_comps_append_plain clean_path_comps_def)
qed

lemma join_snoc: "cs \<noteq> [] \<Longrightarrow> join sep (cs @ [c]) = join sep cs @ sep @ c"
proof (induction cs)
  case (Cons x xs)
  then show ?case by (cases xs) (auto simp: join_Cons)
qed simp

lemma path_dir_abs_path:
  assumes "list_all plain_comp (cs @ [c])"
  shows "path_dir (abs_path (cs @ [c])) = abs_path cs"
proof -
  let ?q = "if cs = [] then ''/'' else abs_path cs @ ''/''"
  have c: "CHR ''/'' \<notin> set (rev c)" using assms by (simp add: plain_comp_def)
  have eq: "abs_path (cs @ [c]) = ?q @ c"
    by (cases "cs = []") (auto simp: abs_path_def join_snoc)
  have "\<exists>q'. ?q = q' @ ''/''" by auto
  then obtain q' where q': "?q = q' @ ''/''" by blast
  have "rev (dropWhile (\<lambda>x. x \<noteq> CHR ''/'') (rev (abs_path (cs @ [c])))) = ?q"
    unfolding eq q' using dropWhile_neq_append [OF c, of "rev q'"] by simp
  moreover have "path_clean ?q = abs_path cs"
  proof (cases "cs = []")
    case True
    then show ?thesis by (simp add: path_clean_def rooted_def abs_path_def)
  next
    case False
    have "clean_path_comps (abs_path cs @ ''/'') = cs"
      using assms split_on_append_sep [of "CHR ''/''" "abs_path cs" "[]"] False
      by (simp add: clean_path_comps_def split_abs_path clean_comps_plain
          clean_comps_plain_append)
    with False show ?thesis by (simp add: path_clean_rooted rooted_append)
  qed
  ultimately show ?thesis by (simp add: path_dir_def)
qed

end
