(* ===== verification/Digest.thy ===== *)
theory Digest
  imports GoStrings "HOL-Library.Word"
begin

unbundle bit_operations_syntax

text \<open>
  Content digests: \<open>computeDigest\<close> of \<open>server/registry/manifest.go\<close>, which is
  \<open>"sha256:" + hex.EncodeToString(sha256.Sum256(b))\<close>, with the two standard library
  functions it calls written out (\<open>crypto/sha256\<close> on 32-bit words, \<open>encoding/hex\<close>).
\<close>

section \<open>SHA-256\<close>

type_synonym w32 = "32 word"

definition round_consts :: "w32 list" where
  "round_consts =
    [1116352408, 1899447441, 3049323471, 3921009573, 961987163, 1508970993, 2453635748, 2870763221,
     3624381080, 310598401, 607225278, 1426881987, 1925078388, 2162078206, 2614888103, 3248222580,
     3835390401, 4022224774, 264347078, 604807628, 770255983, 1249150122, 1555081692, 1996064986,
     2554220882, 2821834349, 2952996808, 3210313671, 3336571891, 3584528711, 113926993, 338241895,
     666307205, 773529912, 1294757372, 1396182291, 1695183700, 1986661051, 2177026350, 2456956037,
     2730485921, 2820302411, 3259730800, 3345764771, 3516065817, 3600352804, 4094571909, 275423344,
     430227734, 506948616, 659060556, 883997877, 958139571, 1322822218, 1537002063, 1747873779,
     1955562222, 2024104815, 2227730452, 2361852424, 2428436474, 2756734187, 3204031479, 3329325298]"

definition init_hash :: "w32 list" where
  "init_hash =
    [1779033703, 3144134277, 1013904242, 2773480762, 1359893119, 2600822924, 528734635, 1541459225]"

definition big_sigma0 :: "w32 \<Rightarrow> w32" where
  "big_sigma0 x = word_rotr 2 x XOR word_rotr 13 x XOR word_rotr 22 x"

definition big_sigma1 :: "w32 \<Rightarrow> w32" where
  "big_sigma1 x = word_rotr 6 x XOR word_rotr 11 x XOR word_rotr 25 x"

definition small_sigma0 :: "w32 \<Rightarrow> w32" where
  "small_sigma0 x = word_rotr 7 x XOR word_rotr 18 x XOR drop_bit 3 x"

definition small_sigma1 :: "w32 \<Rightarrow> w32" where
  "small_sigma1 x = word_rotr 17 x XOR word_rotr 19 x XOR drop_bit 10 x"

definition sha_ch :: "w32 \<Rightarrow> w32 \<Rightarrow> w32 \<Rightarrow> w32" where
  "sha_ch x y z = (x AND y) XOR (NOT x AND z)"

definition sha_maj :: "w32 \<Rightarrow> w32 \<Rightarrow> w32 \<Rightarrow> w32" where
  "sha_maj x y z = (x AND y) XOR (x AND z) XOR (y AND z)"

text \<open>The message schedule, most recent word first; \<open>n\<close> more words are appended.\<close>

fun extend_schedule :: "nat \<Rightarrow> w32 list \<Rightarrow> w32 list" where
  "extend_schedule 0 ws = ws"
| "extend_schedule (Suc n) ws =
     extend_schedule n ((small_sigma1 (ws ! 1) + ws ! 6 + small_sigma0 (ws ! 14) + ws ! 15) # ws)"

type_synonym hash_state = "w32 \<times> w32 \<times> w32 \<times> w32 \<times> w32 \<times> w32 \<times> w32 \<times> w32"

fun sha_round :: "hash_state \<Rightarrow> w32 \<times> w32 \<Rightarrow> hash_state" where
  "sha_round (a, b, c, d, e, f, g, h) (k, w) =
     (let t1 = h + big_sigma1 e + sha_ch e f g + k + w;
          t2 = big_sigma0 a + sha_maj a b c
      in (t1 + t2, a, b, c, d + t1, e, f, g))"

fun add_state :: "hash_state \<Rightarrow> hash_state \<Rightarrow> hash_state" where
  "add_state (a, b, c, d, e, f, g, h) (a', b', c', d', e', f', g', h') =
     (a + a', b + b', c + c', d + d', e + e', f + f', g + g', h + h')"

definition byte_val :: "char \<Rightarrow> nat" where
  "byte_val c = of_char c"

definition byte_int :: "char \<Rightarrow> int" where
  "byte_int c = of_char c"

definition byte_of :: "nat \<Rightarrow> char" where
  "byte_of n = char_of n"

fun words_of_bytes :: "bytes \<Rightarrow> w32 list" where
  "words_of_bytes (a # b # c # d # bs) =
     of_int (((byte_int a * 256 + byte_int b) * 256 + byte_int c) * 256 + byte_int d) # words_of_bytes bs"
| "words_of_bytes _ = []"

definition sha_block :: "hash_state \<Rightarrow> bytes \<Rightarrow> hash_state" where
  "sha_block st block =
     (let ws = rev (extend_schedule 48 (rev (words_of_bytes block)))
      in add_state st (foldl sha_round st (zip round_consts ws)))"

function sha_blocks :: "hash_state \<Rightarrow> bytes \<Rightarrow> hash_state" where
  "sha_blocks st bs =
     (if length bs < 64 then st else sha_blocks (sha_block st (take 64 bs)) (drop 64 bs))"
  by pat_completeness auto
termination
  by (relation "measure (\<lambda>(st, bs). length bs)") auto

declare sha_blocks.simps [simp del]

text \<open>The big-endian bytes of a number, at a fixed width.\<close>

fun be_bytes :: "nat \<Rightarrow> int \<Rightarrow> bytes" where
  "be_bytes 0 n = []"
| "be_bytes (Suc w) n = be_bytes w (n div 256) @ [char_of (n mod 256)]"

text \<open>Padding: a one bit, zeros up to eight bytes before a block's end, the length in bits.\<close>

definition sha_pad :: "bytes \<Rightarrow> bytes" where
  "sha_pad m =
     m @ [byte_of 128] @ replicate ((119 - length m mod 64) mod 64) (byte_of 0) @ be_bytes 8 (8 * int (length m))"

fun state_bytes :: "hash_state \<Rightarrow> bytes" where
  "state_bytes (a, b, c, d, e, f, g, h) = concat (map (\<lambda>w. be_bytes 4 (uint w)) [a, b, c, d, e, f, g, h])"

definition init_state :: hash_state where
  "init_state = (init_hash ! 0, init_hash ! 1, init_hash ! 2, init_hash ! 3,
                 init_hash ! 4, init_hash ! 5, init_hash ! 6, init_hash ! 7)"

text \<open>\<open>sha256.Sum256(b)\<close>\<close>

definition sha256 :: "bytes \<Rightarrow> bytes" where
  "sha256 m = state_bytes (sha_blocks init_state (sha_pad m))"

lemma length_be_bytes [simp]: "length (be_bytes w n) = w"
  by (induction w n rule: be_bytes.induct) auto

lemma length_state_bytes: "length (state_bytes st) = 32"
  by (cases st rule: state_bytes.cases) simp

lemma length_sha256 [simp]: "length (sha256 m) = 32"
  unfolding sha256_def by (rule length_state_bytes)

lemma length_sha_pad: "length (sha_pad m) mod 64 = 0"
proof -
  define r where "r = length m mod 64"
  have r: "r < 64" by (simp add: r_def)
  have "(119 - r) mod 64 = (if r \<le> 55 then 55 - r else 119 - r)"
  proof (cases "r \<le> 55")
    case True
    then have "119 - r = 64 + (55 - r)" by simp
    then have "(119 - r) mod 64 = (55 - r) mod 64" by (simp only: mod_add_self1)
    with True show ?thesis by simp
  next
    case False
    with r show ?thesis by simp
  qed
  with r have pad: "(r + (9 + (119 - r) mod 64)) mod 64 = 0" by simp
  have "length (sha_pad m) mod 64 = (length m + (9 + (119 - r) mod 64)) mod 64"
    by (simp add: sha_pad_def r_def)
  also have "\<dots> = (r + (9 + (119 - r) mod 64)) mod 64"
    by (simp only: r_def mod_add_left_eq)
  finally show ?thesis using pad by simp
qed

section \<open>Hexadecimal\<close>

definition hex_char :: "nat \<Rightarrow> char" where
  "hex_char n = (if n < 10 then char_of (48 + n) else char_of (87 + n))"

text \<open>\<open>hex.EncodeToString(b)\<close>\<close>

definition hex_encode :: "bytes \<Rightarrow> string" where
  "hex_encode bs = concat (map (\<lambda>b. [hex_char (byte_val b div 16), hex_char (byte_val b mod 16)]) bs)"

definition is_hex_char :: "char \<Rightarrow> bool" where
  "is_hex_char c = (c \<in> set ''0123456789abcdef'')"

lemma byte_val_less [simp]: "byte_val c < 256"
proof -
  have "(of_char c :: nat) = of_char c mod 256" by simp
  then show ?thesis unfolding byte_val_def by (metis mod_less_divisor zero_less_numeral)
qed

lemma is_hex_hex_char: "n < 16 \<Longrightarrow> is_hex_char (hex_char n)"
proof -
  assume "n < 16"
  then have "n \<in> set [0..<16]" by simp
  moreover have "list_all (\<lambda>n. is_hex_char (hex_char n)) [0..<16]"
    by code_simp
  ultimately show ?thesis by (simp add: list_all_iff)
qed

lemma length_hex_encode [simp]: "length (hex_encode bs) = 2 * length bs"
  by (induction bs) (auto simp: hex_encode_def)

lemma hex_encode_chars: "list_all is_hex_char (hex_encode bs)"
  by (induction bs) (auto simp: hex_encode_def list_all_iff is_hex_hex_char less_mult_imp_div_less)

text \<open>Known hashes: the one block example of FIPS 180-4, and the empty JSON object.\<close>

lemma sha256_abc: "hex_encode (sha256 ''abc'') = ''ba7816bf8f01cfea414140de5dae2223b00361a396177a9cb410ff61f20015ad''"
  by code_simp

lemma sha256_empty_object: "hex_encode (sha256 ''{}'') = ''44136fa355b3678a1146ad16f7e8649e94fb4fc21fe77e8310c060f61caaff8a''"
  by code_simp

section \<open>Digests\<close>

definition compute_digest :: "bytes \<Rightarrow> string" where
  "compute_digest b = ''sha256:'' @ hex_encode (sha256 b)"

lemma compute_digest_prefix [simp]: "has_prefix (compute_digest b) ''sha256:''"
  unfolding compute_digest_def by (rule has_prefix_append)

lemma length_compute_digest [simp]: "length (compute_digest b) = 71"
  by (simp add: compute_digest_def)

lemma compute_digest_chars: "c \<in> set (compute_digest b) \<Longrightarrow> is_hex_char c \<or> c \<in> set ''sha256:''"
  using hex_encode_chars [of "sha256 b"] by (auto simp: compute_digest_def list_all_iff)

lemma compute_digest_no_slash: "CHR ''/'' \<notin> set (compute_digest b)"
  by (auto dest!: compute_digest_chars simp: is_hex_char_def)

lemma compute_digest_nonempty [simp]: "compute_digest b \<noteq> []"
  by (simp add: compute_digest_def)

end
