(* ===== verification/BaseEnc.thy ===== *)
theory BaseEnc
  imports Digest
begin

text \<open>
  Positional encodings of byte strings: base 58 as in the vendored \<open>jbenet/go-base58\<close>
  (\<open>EncodeAlphabet\<close>, \<open>DecodeAlphabet\<close>) and base 32 as in Go's \<open>encoding/base32\<close>
  (\<open>StdEncoding\<close>, padded). The lemmas show that both decode what they encode, and what
  base 32 decoding makes of an encoding whose last character was replaced by padding.
\<close>

section \<open>Digits\<close>

text \<open>Little-endian digits without trailing zeros (\<open>big.Int\<close>'s repeated \<open>DivMod\<close>).\<close>

fun le_digits :: "nat \<Rightarrow> nat \<Rightarrow> nat list" where
  "le_digits b n = (if n = 0 \<or> b < 2 then [] else n mod b # le_digits b (n div b))"

declare le_digits.simps [simp del]

fun from_le :: "nat \<Rightarrow> nat list \<Rightarrow> nat" where
  "from_le b [] = 0"
| "from_le b (d # ds) = d + b * from_le b ds"

text \<open>Big-endian digits at a fixed width, and their value.\<close>

fun be_digits :: "nat \<Rightarrow> nat \<Rightarrow> nat \<Rightarrow> nat list" where
  "be_digits 0 b n = []"
| "be_digits (Suc w) b n = be_digits w b (n div b) @ [n mod b]"

definition from_be :: "nat \<Rightarrow> nat list \<Rightarrow> nat" where
  "from_be b ds = foldl (\<lambda>a d. a * b + d) 0 ds"

lemma le_digits_0 [simp]: "le_digits b 0 = []"
  by (simp add: le_digits.simps)

lemma from_le_digits: "2 \<le> b \<Longrightarrow> from_le b (le_digits b n) = n"
proof (induction b n rule: le_digits.induct)
  case (1 b n)
  then show ?case by (cases "n = 0") (simp_all add: le_digits.simps [of b n])
qed

lemma le_digits_less: "d \<in> set (le_digits b n) \<Longrightarrow> d < b"
proof (induction b n rule: le_digits.induct)
  case (1 b n)
  then show ?case by (cases "n = 0 \<or> b < 2") (auto simp: le_digits.simps [of b n])
qed

lemma le_digits_last: "le_digits b n \<noteq> [] \<Longrightarrow> last (le_digits b n) \<noteq> 0"
proof (induction b n rule: le_digits.induct)
  case (1 b n)
  show ?case
  proof (cases "n = 0 \<or> b < 2")
    case True
    with 1 show ?thesis by (simp add: le_digits.simps [of b n])
  next
    case False
    show ?thesis
    proof (cases "le_digits b (n div b) = []")
      case True
      with False have "n div b = 0" by (auto simp: le_digits.simps [of b "n div b"] split: if_splits)
      with False have "n < b" by (simp add: div_eq_0_iff)
      with False True show ?thesis by (simp add: le_digits.simps [of b n])
    next
      case nonempty: False
      with False "1.IH" show ?thesis by (simp add: le_digits.simps [of b n])
    qed
  qed
qed

lemma le_digits_from_le:
  "2 \<le> b \<Longrightarrow> \<forall>d \<in> set ds. d < b \<Longrightarrow> ds \<noteq> [] \<longrightarrow> last ds \<noteq> 0 \<Longrightarrow> le_digits b (from_le b ds) = ds"
proof (induction ds)
  case Nil
  then show ?case by (simp add: le_digits.simps)
next
  case (Cons d ds)
  then have IH: "le_digits b (from_le b ds) = ds" by (cases "ds = []") auto
  have "d + b * from_le b ds \<noteq> 0"
  proof (cases "ds = []")
    case True
    with Cons.prems show ?thesis by simp
  next
    case False
    then have "from_le b ds \<noteq> 0" using IH False by (metis le_digits_0)
    with Cons.prems show ?thesis by simp
  qed
  with Cons.prems IH show ?case by (simp add: le_digits.simps [of b "d + b * from_le b ds"])
qed

lemma from_le_append: "from_le b (xs @ ys) = from_le b xs + b ^ length xs * from_le b ys"
  by (induction xs) (auto simp: algebra_simps)

lemma from_le_zeros [simp]: "from_le b (replicate k 0) = 0"
  by (induction k) auto

lemma length_be_digits [simp]: "length (be_digits w b n) = w"
  by (induction w b n rule: be_digits.induct) auto

lemma be_digits_less: "0 < b \<Longrightarrow> d \<in> set (be_digits w b n) \<Longrightarrow> d < b"
  by (induction w b n rule: be_digits.induct) auto

lemma from_be_snoc [simp]: "from_be b (ds @ [d]) = from_be b ds * b + d"
  by (simp add: from_be_def)

lemma from_be_Nil [simp]: "from_be b [] = 0"
  by (simp add: from_be_def)

lemma from_be_be_digits: "0 < b \<Longrightarrow> from_be b (be_digits w b n) = n mod b ^ w"
proof (induction w b n rule: be_digits.induct)
  case (2 w b n)
  then show ?case by (simp add: mod_mult2_eq mult.commute [of _ b])
qed simp

lemma from_be_less: "\<forall>d \<in> set ds. d < b \<Longrightarrow> from_be b ds < b ^ length ds"
proof (induction ds rule: rev_induct)
  case (snoc d ds)
  then have "from_be b ds + 1 \<le> b ^ length ds" "d < b" by auto
  then have "(from_be b ds + 1) * b \<le> b ^ length ds * b" by (intro mult_right_mono) auto
  with \<open>d < b\<close> show ?case by (simp add: algebra_simps)
qed simp

lemma be_digits_from_be: "\<forall>d \<in> set ds. d < b \<Longrightarrow> be_digits (length ds) b (from_be b ds) = ds"
proof (induction ds rule: rev_induct)
  case (snoc d ds)
  then have "(from_be b ds * b + d) div b = from_be b ds" "(from_be b ds * b + d) mod b = d" by auto
  with snoc show ?case by simp
qed simp

lemma from_be_zeros: "from_be b (ds @ replicate k 0) = from_be b ds * b ^ k"
proof (induction k)
  case (Suc k)
  have "ds @ replicate (Suc k) 0 = (ds @ replicate k 0) @ [0]"
    by (simp add: replicate_append_same)
  then have "from_be b (ds @ replicate (Suc k) 0) = from_be b (ds @ replicate k 0) * b + 0"
    by (simp only: from_be_snoc)
  with Suc show ?case by (simp add: algebra_simps)
qed simp

lemma take_be_digits: "m \<le> w \<Longrightarrow> take m (be_digits w b n) = be_digits m b (n div b ^ (w - m))"
proof (induction w b n rule: be_digits.induct)
  case (2 w b n)
  show ?case
  proof (cases "m = Suc w")
    case True
    then show ?thesis by simp
  next
    case False
    with "2.prems" have m: "m \<le> w" by simp
    with "2.IH" show ?thesis by (simp add: Suc_diff_le div_mult2_eq)
  qed
qed simp

section \<open>Alphabets\<close>

fun index_of :: "string \<Rightarrow> char \<Rightarrow> nat option" where
  "index_of [] c = None"
| "index_of (a # as) c = (if a = c then Some 0 else map_option Suc (index_of as c))"

lemma index_of_nth: "distinct al \<Longrightarrow> n < length al \<Longrightarrow> index_of al (al ! n) = Some n"
  by (induction al arbitrary: n) (auto simp: nth_Cons split: nat.splits)

lemma index_of_notin: "c \<notin> set al \<Longrightarrow> index_of al c = None"
  by (induction al) auto

section \<open>Base 58\<close>

definition BTCAlphabet :: string where
  "BTCAlphabet = ''123456789ABCDEFGHJKLMNPQRSTUVWXYZabcdefghijkmnopqrstuvwxyz''"

definition bytes_nat :: "bytes \<Rightarrow> nat" where
  "bytes_nat bs = from_le 256 (rev (map byte_val bs))"

definition nat_bytes :: "nat \<Rightarrow> bytes" where
  "nat_bytes n = map byte_of (rev (le_digits 256 n))"

text \<open>The loop over the characters from the last to the first.\<close>

fun b58_loop :: "string \<Rightarrow> string \<Rightarrow> nat \<Rightarrow> nat \<Rightarrow> nat option" where
  "b58_loop al [] answer j = Some answer"
| "b58_loop al (c # cs) answer j =
     (case index_of al c of
        None \<Rightarrow> None
      | Some idx \<Rightarrow> b58_loop al cs (answer + j * idx) (j * 58))"

definition DecodeAlphabet :: "string \<Rightarrow> string \<Rightarrow> bytes" where
  "DecodeAlphabet b al =
     (case b58_loop al (rev b) 0 1 of
        None \<Rightarrow> []
      | Some answer \<Rightarrow>
          replicate (length (takeWhile (\<lambda>c. c = al ! 0) b)) (byte_of 0) @ nat_bytes answer)"

definition EncodeAlphabet :: "bytes \<Rightarrow> string \<Rightarrow> string" where
  "EncodeAlphabet b al =
     rev (map ((!) al) (le_digits 58 (bytes_nat b))
          @ replicate (length (takeWhile (\<lambda>c. c = byte_of 0) b)) (al ! 0))"

definition Decode58 :: "string \<Rightarrow> bytes" where
  "Decode58 b = DecodeAlphabet b BTCAlphabet"

definition Encode58 :: "bytes \<Rightarrow> string" where
  "Encode58 b = EncodeAlphabet b BTCAlphabet"

lemma b58_loop_digits:
  assumes "distinct al" and "length al = 58" and "\<forall>d \<in> set ds. d < 58"
  shows "b58_loop al (map ((!) al) ds @ cs) answer j =
         b58_loop al cs (answer + j * from_le 58 ds) (j * 58 ^ length ds)"
  using assms(3)
proof (induction ds arbitrary: answer j)
  case (Cons d ds)
  with assms(1,2) show ?case by (simp add: index_of_nth algebra_simps)
qed simp

lemma b58_loop_zeros:
  assumes "distinct al" and "length al = 58"
  shows "b58_loop al (replicate z (al ! 0)) answer j = Some answer"
proof (induction z arbitrary: j)
  case (Suc z)
  moreover have "index_of al (al ! 0) = Some 0" using assms by (intro index_of_nth) auto
  ultimately show ?case by simp
qed simp

lemma byte_split: "\<exists>z b'. b = replicate z x @ b' \<and> (b' = [] \<or> hd b' \<noteq> x)"
proof (intro exI conjI)
  show "b = replicate (length (takeWhile (\<lambda>c. c = x) b)) x @ dropWhile (\<lambda>c. c = x) b"
    by (induction b) auto
  show "dropWhile (\<lambda>c. c = x) b = [] \<or> hd (dropWhile (\<lambda>c. c = x) b) \<noteq> x"
    using hd_dropWhile [of "\<lambda>c. c = x" b] by blast
qed

lemma takeWhile_replicate:
  "b' = [] \<or> hd b' \<noteq> x \<Longrightarrow> takeWhile (\<lambda>c. c = x) (replicate z x @ b') = replicate z x"
  by (induction z) (cases b'; auto)+

lemma byte_val_of [simp]: "n < 256 \<Longrightarrow> byte_val (byte_of n) = n"
  by (simp add: byte_val_def byte_of_def)

lemma byte_of_val [simp]: "byte_of (byte_val c) = c"
  by (simp add: byte_val_def byte_of_def)

lemma byte_of_0_iff: "c = byte_of 0 \<longleftrightarrow> byte_val c = 0"
  by (metis byte_of_val byte_val_of zero_less_numeral)

lemma nat_bytes_nat: "b = [] \<or> hd b \<noteq> byte_of 0 \<Longrightarrow> nat_bytes (bytes_nat b) = b"
proof -
  assume b: "b = [] \<or> hd b \<noteq> byte_of 0"
  have "le_digits 256 (from_le 256 (rev (map byte_val b))) = rev (map byte_val b)"
    using b by (intro le_digits_from_le) (auto simp: last_rev hd_map byte_of_0_iff)
  then show ?thesis by (simp add: nat_bytes_def bytes_nat_def rev_map comp_def)
qed

lemma bytes_nat_zeros: "bytes_nat (replicate z (byte_of 0) @ b) = bytes_nat b"
  by (simp add: bytes_nat_def from_le_append)

lemma decode_encode_alphabet:
  assumes al: "distinct al" "length al = 58"
  shows "DecodeAlphabet (EncodeAlphabet b al) al = b"
proof -
  obtain z b' where b: "b = replicate z (byte_of 0) @ b'" "b' = [] \<or> hd b' \<noteq> byte_of 0"
    using byte_split [of b "byte_of 0"] by blast
  let ?ds = "le_digits 58 (bytes_nat b')"
  have ds: "\<forall>d \<in> set ?ds. d < 58" by (auto dest: le_digits_less)
  have enc: "EncodeAlphabet b al = replicate z (al ! 0) @ map ((!) al) (rev ?ds)"
    using b by (simp add: EncodeAlphabet_def bytes_nat_zeros takeWhile_replicate rev_map)
  have "b58_loop al (map ((!) al) ?ds @ replicate z (al ! 0)) 0 1 = Some (bytes_nat b')"
    unfolding b58_loop_digits [OF al ds] b58_loop_zeros [OF al] by (simp add: from_le_digits)
  then have loop: "b58_loop al (rev (EncodeAlphabet b al)) 0 1 = Some (bytes_nat b')"
    by (simp add: enc rev_map)
  have "rev ?ds = [] \<or> hd (map ((!) al) (rev ?ds)) \<noteq> al ! 0"
  proof (cases "?ds = []")
    case False
    then have "last ?ds \<noteq> 0" "last ?ds < 58" using le_digits_last ds by auto
    with al have "al ! last ?ds \<noteq> al ! 0" by (simp add: nth_eq_iff_index_eq)
    with False show ?thesis by (simp add: hd_map hd_rev)
  qed simp
  then have "length (takeWhile (\<lambda>c. c = al ! 0) (EncodeAlphabet b al)) = z"
    unfolding enc by (subst takeWhile_replicate) auto
  with loop b nat_bytes_nat show ?thesis by (simp add: DecodeAlphabet_def)
qed

lemma BTCAlphabet_ok: "distinct BTCAlphabet" "length BTCAlphabet = 58"
  by (simp_all add: BTCAlphabet_def)

lemma Decode58_Encode58 [simp]: "Decode58 (Encode58 b) = b"
  by (simp add: Decode58_def Encode58_def decode_encode_alphabet BTCAlphabet_ok)

lemma Encode58_inject [simp]: "Encode58 a = Encode58 b \<longleftrightarrow> a = b"
  by (metis Decode58_Encode58)

section \<open>Base 32\<close>

definition b32_alphabet :: string where
  "b32_alphabet = ''ABCDEFGHIJKLMNOPQRSTUVWXYZ234567''"

definition pad_char :: char where
  "pad_char = CHR ''=''"

text \<open>How many characters a group of \<open>k\<close> bytes takes, and how many bytes \<open>n\<close> characters give.\<close>

definition b32_chars :: "nat \<Rightarrow> nat" where
  "b32_chars k = (8 * k + 4) div 5"

definition b32_bytes :: "nat \<Rightarrow> nat" where
  "b32_bytes n = 5 * n div 8"

definition group_value :: "bytes \<Rightarrow> nat" where
  "group_value bs = from_be 256 (map byte_val bs @ replicate (5 - length bs) 0)"

definition b32_group :: "bytes \<Rightarrow> string" where
  "b32_group bs =
     map ((!) b32_alphabet) (take (b32_chars (length bs)) (be_digits 8 32 (group_value bs)))
     @ replicate (8 - b32_chars (length bs)) pad_char"

text \<open>\<open>StdEncoding.EncodeToString(b)\<close>\<close>

function b32_encode :: "bytes \<Rightarrow> string" where
  "b32_encode bs = (if bs = [] then [] else b32_group (take 5 bs) @ b32_encode (drop 5 bs))"
  by pat_completeness auto
termination
  by (relation "measure length") auto

declare b32_encode.simps [simp del]

text \<open>
  One quantum of the decoder: \<open>r\<close> more characters to read, the digits read so far, the
  input. The result is the digits, the input left, and whether padding ended the text.
\<close>

fun b32_quantum :: "nat \<Rightarrow> nat list \<Rightarrow> string \<Rightarrow> (nat list \<times> string \<times> bool) option" where
  "b32_quantum 0 dbuf src = Some (dbuf, src, False)"
| "b32_quantum (Suc r) dbuf [] = None"
| "b32_quantum (Suc r) dbuf (c # src) =
     (let j = length dbuf in
      if c = pad_char \<and> 2 \<le> j \<and> length src < 8 then
        (if length src + j < 7 then None
         else if \<not> list_all (\<lambda>x. x = pad_char) (take (7 - j) src) then None
         else if j = 1 \<or> j = 3 \<or> j = 6 then None
         else Some (dbuf, src, True))
      else
        (case index_of b32_alphabet c of
           None \<Rightarrow> None
         | Some d \<Rightarrow> b32_quantum r (dbuf @ [d]) src))"

definition b32_unpack :: "nat list \<Rightarrow> bytes" where
  "b32_unpack ds =
     map byte_of (take (b32_bytes (length ds)) (be_digits 5 256 (from_be 32 (ds @ replicate (8 - length ds) 0))))"

lemma b32_quantum_length: "b32_quantum r dbuf src = Some (ds, rest, e) \<Longrightarrow> length rest \<le> length src"
  by (induction r dbuf src rule: b32_quantum.induct)
    (fastforce simp: Let_def split: if_splits option.splits intro: le_SucI)+

lemma b32_quantum_less:
  "b32_quantum (Suc r) dbuf src = Some (ds, rest, e) \<Longrightarrow> length rest < length src"
  by (cases src) (auto simp: Let_def less_Suc_eq_le split: if_splits option.splits dest: b32_quantum_length)

function b32_decode_loop :: "string \<Rightarrow> bytes option" where
  "b32_decode_loop src =
     (if src = [] then Some []
      else (case b32_quantum 8 [] src of
              None \<Rightarrow> None
            | Some (ds, rest, ended) \<Rightarrow>
                if ended then Some (b32_unpack ds)
                else map_option ((@) (b32_unpack ds)) (b32_decode_loop rest)))"
  by pat_completeness auto
termination
  by (relation "measure length") (auto simp: eval_nat_numeral dest!: b32_quantum_less [rotated])

declare b32_decode_loop.simps [simp del]

text \<open>\<open>StdEncoding.DecodeString(s)\<close>: line breaks are dropped first; \<open>None\<close> is an error.\<close>

definition b32_decode :: "string \<Rightarrow> bytes option" where
  "b32_decode s = b32_decode_loop (filter (\<lambda>c. c \<noteq> CHR 0x0A \<and> c \<noteq> CHR 0x0D) s)"

subsection \<open>Decoding one group\<close>

lemma b32_alphabet_ok: "distinct b32_alphabet" "length b32_alphabet = 32"
  by (simp_all add: b32_alphabet_def)

lemma b32_alphabet_chars:
  "d < 32 \<Longrightarrow> b32_alphabet ! d \<noteq> pad_char \<and> b32_alphabet ! d \<noteq> CHR 0x0A \<and> b32_alphabet ! d \<noteq> CHR 0x0D"
proof -
  assume "d < 32"
  then have "b32_alphabet ! d \<in> set b32_alphabet" using b32_alphabet_ok by simp
  then show ?thesis by (auto simp: b32_alphabet_def pad_char_def)
qed

lemma b32_quantum_digits:
  "\<forall>d \<in> set ds. d < 32 \<Longrightarrow>
     b32_quantum (length ds + m) dbuf (map ((!) b32_alphabet) ds @ rest) = b32_quantum m (dbuf @ ds) rest"
proof (induction ds arbitrary: dbuf)
  case (Cons d ds)
  then show ?case
    using b32_alphabet_chars [of d] index_of_nth [OF b32_alphabet_ok(1), of d]
    by (simp add: b32_alphabet_ok(2))
qed simp

lemma b32_quantum_full:
  assumes "\<forall>d \<in> set ds. d < 32" and "length ds = 8"
  shows "b32_quantum 8 [] (map ((!) b32_alphabet) ds @ rest) = Some (ds, rest, False)"
  using b32_quantum_digits [OF assms(1), of 0 "[]"] assms(2) by simp

lemma b32_quantum_padded:
  assumes "\<forall>d \<in> set ds. d < 32" and "length ds \<in> {2, 4, 5, 7}"
  shows "\<exists>rest. b32_quantum 8 [] (map ((!) b32_alphabet) ds @ replicate (8 - length ds) pad_char)
           = Some (ds, rest, True)"
proof -
  let ?m = "7 - length ds"
  have l: "length ds + Suc ?m = 8" "8 - length ds = Suc ?m" using assms(2) by auto
  have "b32_quantum (Suc ?m) ds (replicate (Suc ?m) pad_char) = Some (ds, replicate ?m pad_char, True)"
    using assms(2) by (auto simp: Let_def list_all_iff)
  then show ?thesis
    using b32_quantum_digits [OF assms(1), of "Suc ?m" "[]" "replicate (Suc ?m) pad_char"]
    unfolding l by auto
qed

lemma byte_digits_ok: "\<forall>d \<in> set (map byte_val bs @ replicate k 0). d < 256"
  by auto

lemma group_value_less: "length bs \<le> 5 \<Longrightarrow> group_value bs < 256 ^ 5"
  using from_be_less [OF byte_digits_ok, of bs "5 - length bs"] by (simp add: group_value_def)

lemma div_mult_div: "(n div a * a) div (a * c) = n div (a * c :: nat)"
  by (cases "a = 0") (simp_all add: div_mult2_eq)

text \<open>
  Unpacking the first \<open>n\<close> digits of a group gives the bytes they determine, although the
  digits that were dropped held the rest of the group.
\<close>

lemma b32_unpack_take:
  assumes "n \<in> {2, 4, 5, 7, 8}" and "v < 256 ^ 5"
  shows "b32_unpack (take n (be_digits 8 32 v)) = map byte_of (take (b32_bytes n) (be_digits 5 256 v))"
proof -
  let ?k = "b32_bytes n"
  have n: "n \<le> 8" and k: "?k \<le> 5" using assms(1) by (auto simp: b32_bytes_def)
  have "v < 32 ^ 8" using assms(2) by simp
  then have "v div 32 ^ (8 - n) < 32 ^ n"
    using n by (intro less_mult_imp_div_less) (simp flip: power_add)
  then have "from_be 32 (take n (be_digits 8 32 v) @ replicate (8 - n) 0) = v div 32 ^ (8 - n) * 32 ^ (8 - n)"
    using n by (simp add: from_be_zeros take_be_digits from_be_be_digits)
  moreover obtain c where "256 ^ (5 - ?k) = 32 ^ (8 - n) * (c::nat)"
  proof -
    have "(32::nat) ^ (8 - n) dvd 256 ^ (5 - ?k)"
      using assms(1) by (auto simp: b32_bytes_def dvd_def)
    then show ?thesis using that by (auto elim: dvdE)
  qed
  ultimately have "from_be 32 (take n (be_digits 8 32 v) @ replicate (8 - n) 0) div 256 ^ (5 - ?k)
      = v div 256 ^ (5 - ?k)"
    by (simp add: div_mult_div)
  then show ?thesis
    using n k by (simp add: b32_unpack_def take_be_digits)
qed

lemma take_group_bytes:
  assumes "length bs \<le> 5" and "k \<le> length bs"
  shows "map byte_of (take k (be_digits 5 256 (group_value bs))) = take k bs"
proof -
  have "be_digits 5 256 (group_value bs) = map byte_val bs @ replicate (5 - length bs) 0"
    using be_digits_from_be [OF byte_digits_ok, of bs "5 - length bs"] assms(1)
    by (simp add: group_value_def)
  with assms(2) show ?thesis by (simp add: take_map comp_def)
qed

lemma group_digits_less: "\<forall>d \<in> set (take n (be_digits 8 32 v)). d < 32"
  by (auto dest!: in_set_takeD be_digits_less [rotated])

lemma b32_bytes_chars: "k \<le> 5 \<Longrightarrow> b32_bytes (b32_chars k) = k"
  by (auto simp: b32_bytes_def b32_chars_def)

lemma chars_cases: "0 < k \<Longrightarrow> k < 5 \<Longrightarrow> b32_chars k \<in> {2, 4, 5, 7}"
proof -
  assume "0 < k" and "k < 5"
  then have "k = 1 \<or> k = 2 \<or> k = 3 \<or> k = 4" by arith
  then show ?thesis by (auto simp: b32_chars_def)
qed

lemma decode_full_group:
  assumes "length bs = 5"
  shows "b32_decode_loop (b32_group bs @ rest) = map_option ((@) bs) (b32_decode_loop rest)"
proof -
  let ?ds = "be_digits 8 32 (group_value bs)"
  have g: "b32_group bs = map ((!) b32_alphabet) ?ds"
    using assms by (simp add: b32_group_def b32_chars_def)
  then have ne: "b32_group bs \<noteq> []"
    by (metis length_be_digits length_map list.size(3) zero_neq_numeral)
  have q: "b32_quantum 8 [] (b32_group bs @ rest) = Some (?ds, rest, False)"
    using group_digits_less [of 8] unfolding g by (intro b32_quantum_full) auto
  have "b32_unpack ?ds = bs"
    using b32_unpack_take [of 8] group_value_less [of bs] take_group_bytes [of bs 5] assms
    by (simp add: b32_bytes_def)
  with ne q show ?thesis by (subst b32_decode_loop.simps) simp
qed

lemma decode_padded:
  assumes "n \<in> {2, 4, 5, 7}" and "length bs \<le> 5" and "b32_bytes n \<le> length bs"
  shows "b32_decode_loop (map ((!) b32_alphabet) (take n (be_digits 8 32 (group_value bs)))
           @ replicate (8 - n) pad_char) = Some (take (b32_bytes n) bs)"
proof -
  let ?ds = "take n (be_digits 8 32 (group_value bs))"
  have l: "length ?ds = n" using assms(1) by auto
  obtain rest where q: "b32_quantum 8 [] (map ((!) b32_alphabet) ?ds @ replicate (8 - n) pad_char)
      = Some (?ds, rest, True)"
    using b32_quantum_padded [OF group_digits_less, of n "group_value bs"] assms(1) unfolding l by blast
  have u: "b32_unpack ?ds = take (b32_bytes n) bs"
    using assms b32_unpack_take [of n "group_value bs"] group_value_less [of bs] take_group_bytes [of bs "b32_bytes n"]
    by auto
  have "replicate (8 - n) pad_char \<noteq> []" using assms(1) by auto
  with q u show ?thesis by (subst b32_decode_loop.simps) simp
qed

subsection \<open>Decoding an encoding, whole or with its last character replaced\<close>

lemma b32_encode_Nil [simp]: "b32_encode [] = []"
  by (simp add: b32_encode.simps)

lemma b32_encode_step: "bs \<noteq> [] \<Longrightarrow> b32_encode bs = b32_group (take 5 bs) @ b32_encode (drop 5 bs)"
  by (simp add: b32_encode.simps [of bs])

lemma b32_decode_loop_Nil [simp]: "b32_decode_loop [] = Some []"
  by (simp add: b32_decode_loop.simps)

lemma length_b32_group: "length bs \<le> 5 \<Longrightarrow> length (b32_group bs) = 8"
  by (simp add: b32_group_def b32_chars_def)

lemma b32_group_nonempty: "length bs \<le> 5 \<Longrightarrow> b32_group bs \<noteq> []"
  using length_b32_group by fastforce

lemma b32_encode_nonempty: "bs \<noteq> [] \<Longrightarrow> b32_encode bs \<noteq> []"
  using b32_group_nonempty [of "take 5 bs"] by (simp add: b32_encode_step)

lemma butlast_replicate_Suc: "butlast (replicate (Suc k) x) @ [x] = replicate (Suc k) x"
  by (induction k) auto

lemma decode_short_group:
  assumes "0 < length bs" and "length bs < 5"
  shows "b32_decode_loop (b32_group bs) = Some bs"
proof -
  have c: "b32_chars (length bs) \<in> {2, 4, 5, 7}" using chars_cases assms by blast
  have b: "b32_bytes (b32_chars (length bs)) = length bs" using b32_bytes_chars assms by simp
  show ?thesis using decode_padded [OF c, of bs] assms unfolding b32_group_def b by simp
qed

lemma decode_encode: "b32_decode_loop (b32_encode bs) = Some bs"
proof (induction bs rule: b32_encode.induct)
  case (1 bs)
  consider "bs = []" | "0 < length bs" "length bs < 5" | "bs \<noteq> []" "5 \<le> length bs" by force
  then show ?case
  proof cases
    case 2
    then show ?thesis by (simp add: b32_encode_step decode_short_group)
  next
    case 3
    with 1 have "b32_decode_loop (b32_encode (drop 5 bs)) = Some (drop 5 bs)" by blast
    with 3 show ?thesis by (simp add: b32_encode_step decode_full_group)
  qed simp
qed

lemma butlast_group_pad:
  assumes "length bs = 5"
  shows "butlast (b32_group bs) @ [pad_char] =
     map ((!) b32_alphabet) (take 7 (be_digits 8 32 (group_value bs))) @ replicate (8 - 7) pad_char"
proof -
  have "b32_group bs = map ((!) b32_alphabet) (be_digits 8 32 (group_value bs))"
    using assms by (simp add: b32_group_def b32_chars_def)
  then show ?thesis by (simp add: butlast_conv_take take_map)
qed

text \<open>
  Replacing the last character of an encoding by a padding character: nothing changes when
  the encoding ended in padding, and the last byte is lost when it did not.
\<close>

lemma decode_encode_repadded:
  "bs \<noteq> [] \<Longrightarrow> b32_decode_loop (butlast (b32_encode bs) @ [pad_char])
     = Some (if length bs mod 5 = 0 then butlast bs else bs)"
proof (induction bs rule: b32_encode.induct)
  case (1 bs)
  consider "length bs < 5" | "length bs = 5" | "5 < length bs" by linarith
  then show ?case
  proof cases
    case 1
    with \<open>bs \<noteq> []\<close> have "b32_encode bs = b32_group bs" "0 < length bs" by (auto simp: b32_encode_step)
    moreover from this 1 have "butlast (b32_group bs) @ [pad_char] = b32_group bs"
    proof -
      have "8 - b32_chars (length bs) \<noteq> 0" using chars_cases [of "length bs"] \<open>0 < length bs\<close> 1 by auto
      then obtain k where "8 - b32_chars (length bs) = Suc k" using not0_implies_Suc by blast
      then show ?thesis
        using butlast_replicate_Suc [of k pad_char]
        by (simp add: b32_group_def butlast_append del: replicate.simps)
    qed
    ultimately show ?thesis using 1 decode_short_group by simp
  next
    case 2
    then have "b32_encode bs = b32_group bs" using \<open>bs \<noteq> []\<close> by (simp add: b32_encode_step)
    with 2 decode_padded [of 7 bs] butlast_group_pad [of bs] show ?thesis
      by (simp add: b32_bytes_def butlast_conv_take)
  next
    case 3
    then have ne: "drop 5 bs \<noteq> []" by simp
    then have "b32_encode (drop 5 bs) \<noteq> []"
      by (rule b32_encode_nonempty)
    then have "butlast (b32_encode bs) = b32_group (take 5 bs) @ butlast (b32_encode (drop 5 bs))"
      using \<open>bs \<noteq> []\<close> by (simp add: b32_encode_step butlast_append)
    then have "b32_decode_loop (butlast (b32_encode bs) @ [pad_char]) =
      map_option ((@) (take 5 bs)) (Some (if length (drop 5 bs) mod 5 = 0 then butlast (drop 5 bs) else drop 5 bs))"
      using "1.IH" [OF \<open>bs \<noteq> []\<close> ne] 3 decode_full_group [of "take 5 bs" "butlast (b32_encode (drop 5 bs)) @ [pad_char]"]
      by simp
    moreover have "length (drop 5 bs) mod 5 = length bs mod 5"
      using 3 by (simp add: le_mod_geq)
    moreover have "take 5 bs @ butlast (drop 5 bs) = butlast bs"
      using ne by (metis append_take_drop_id butlast_append)
    ultimately show ?thesis by simp
  qed
qed

subsection \<open>The characters of an encoding\<close>

definition is_b32_char :: "char \<Rightarrow> bool" where
  "is_b32_char c = (c \<in> set b32_alphabet \<or> c = pad_char)"

lemma b32_group_chars: "list_all is_b32_char (b32_group bs)"
  using group_digits_less [of "b32_chars (length bs)" "group_value bs"]
  by (auto simp: b32_group_def list_all_iff is_b32_char_def b32_alphabet_ok in_set_replicate)

lemma b32_encode_chars: "list_all is_b32_char (b32_encode bs)"
proof (induction bs rule: b32_encode.induct)
  case (1 bs)
  then show ?case
    by (cases "bs = []") (simp_all add: b32_encode_step b32_group_chars)
qed

lemma is_b32_char_case: "is_b32_char c \<Longrightarrow> to_upper_char (to_lower_char c) = c"
  by (auto simp: is_b32_char_def b32_alphabet_def pad_char_def to_upper_char_def to_lower_char_def)

lemma upper_lower_b32: "list_all is_b32_char s \<Longrightarrow> to_upper (to_lower s) = s"
  by (induction s) (auto simp: to_upper_def to_lower_def is_b32_char_case)

lemma b32_filter: "list_all is_b32_char s \<Longrightarrow> filter (\<lambda>c. c \<noteq> CHR 0x0A \<and> c \<noteq> CHR 0x0D) s = s"
  by (induction s) (auto simp: is_b32_char_def b32_alphabet_def pad_char_def)

lemma b32_decode_encode: "b32_decode (b32_encode bs) = Some bs"
  by (simp add: b32_decode_def b32_filter b32_encode_chars decode_encode)

end
