(* ===== verification/Regutil.thy ===== *)
theory Regutil
  imports BaseEnc
begin

text \<open>
  \<open>regutil/regutil.go\<close>: conversion between the base 58 form of an IPFS hash and the base 32
  form that Docker accepts as a repository name, the gateway URL of a path below a CID, and
  the two normal forms of a CID. The CID package itself (\<open>ipfs/go-cid\<close> with its multibase
  and multihash libraries) is a parameter, the record \<open>cid_lib\<close>.
\<close>

section \<open>Docker and IPFS forms of a hash\<close>

text \<open>
  \<open>re := (/ipfs/)?(.*)\<close>, last submatch: the match starts at the beginning, takes the
  prefix if it is there, and \<open>.\<close> stops at a line break.
\<close>

definition strip_ipfs :: "string \<Rightarrow> string" where
  "strip_ipfs s = takeWhile (\<lambda>c. c \<noteq> CHR 0x0A) (trim_prefix s ''/ipfs/'')"

definition DockerizeHash :: "string \<Rightarrow> string" where
  "DockerizeHash base58Hash =
     (let decodedB58 = Decode58 (strip_ipfs base58Hash);
          b32str = b32_encode decodedB58;
          end0 = length b32str;
          end1 = (if 0 < end0 then end0 - 1 else end0)
      in to_lower (take end1 b32str))"

definition IpfsifyHash :: "string \<Rightarrow> string" where
  "IpfsifyHash base32Hash =
     (case b32_decode (to_upper base32Hash @ ''='') of
        None \<Rightarrow> []
      | Some decodedB32 \<Rightarrow> Encode58 decodedB32)"

definition IpfsURL :: "string \<Rightarrow> string list \<Rightarrow> string" where
  "IpfsURL gw s = gw @ ''/ipfs/'' @ join ''/'' s"

lemma Encode58_chars: "set (Encode58 b) \<subseteq> set BTCAlphabet"
proof -
  have "(!) BTCAlphabet ` set (le_digits 58 n) \<subseteq> set BTCAlphabet" for n
    using le_digits_less [of _ 58 n] BTCAlphabet_ok by (auto intro!: nth_mem)
  moreover have "BTCAlphabet ! 0 \<in> set BTCAlphabet" using BTCAlphabet_ok by (intro nth_mem) auto
  ultimately show ?thesis by (auto simp: Encode58_def EncodeAlphabet_def in_set_replicate)
qed

lemma strip_ipfs_Encode58: "strip_ipfs (Encode58 b) = Encode58 b"
  "strip_ipfs (''/ipfs/'' @ Encode58 b) = Encode58 b"
proof -
  have nl: "CHR 0x0A \<notin> set (Encode58 b)" "CHR ''/'' \<notin> set (Encode58 b)"
    using Encode58_chars [of b] by (auto simp: BTCAlphabet_def)
  then have "\<not> has_prefix (Encode58 b) ''/ipfs/''" by (cases "Encode58 b") auto
  with nl show "strip_ipfs (Encode58 b) = Encode58 b"
    by (simp add: strip_ipfs_def trim_prefix_def takeWhile_neq_id)
  show "strip_ipfs (''/ipfs/'' @ Encode58 b) = Encode58 b"
    using nl unfolding strip_ipfs_def trim_prefix_append by (simp add: takeWhile_neq_id)
qed

lemma DockerizeHash_Encode58:
  "DockerizeHash (Encode58 b) = to_lower (butlast (b32_encode b))"
  by (simp add: DockerizeHash_def strip_ipfs_Encode58 butlast_conv_take Let_def)

lemma list_all_butlast: "list_all P xs \<Longrightarrow> list_all P (butlast xs)"
  by (auto simp: list_all_iff dest: in_set_butlastD)

lemma IpfsifyHash_DockerizeHash:
  assumes "b \<noteq> []"
  shows "IpfsifyHash (DockerizeHash (Encode58 b)) = Encode58 (if length b mod 5 = 0 then butlast b else b)"
proof -
  let ?e = "butlast (b32_encode b)"
  have "list_all is_b32_char ?e" by (intro list_all_butlast b32_encode_chars)
  then have "to_upper (DockerizeHash (Encode58 b)) @ ''='' = ?e @ [pad_char]"
    and "list_all is_b32_char (?e @ [pad_char])"
    by (simp_all add: DockerizeHash_Encode58 upper_lower_b32 pad_char_def is_b32_char_def)
  then show ?thesis
    using decode_encode_repadded [OF assms]
    by (simp only: IpfsifyHash_def b32_decode_def b32_filter option.case)
qed

text \<open>
  C40: \<open>IpfsifyHash\<close> undoes \<open>DockerizeHash\<close> on the base 58 form of a byte string exactly when
  the string's length is not a positive multiple of five; in particular on every
  \<open>sha2-256\<close> multihash, which has 34 bytes. On the other lengths the last base 32 digit,
  which \<open>DockerizeHash\<close> takes for padding, is lost and with it the last byte.
\<close>
theorem dockerize_roundtrip_iff:
  "IpfsifyHash (DockerizeHash (Encode58 b)) = Encode58 b \<longleftrightarrow> b = [] \<or> length b mod 5 \<noteq> 0"
proof (cases "b = []")
  case True
  have "IpfsifyHash (DockerizeHash (Encode58 [])) = Encode58 []"
    by (simp add: DockerizeHash_Encode58 IpfsifyHash_def to_upper_def to_lower_def)
      (simp add: b32_decode_def b32_decode_loop.simps eval_nat_numeral Let_def pad_char_def
        Encode58_def EncodeAlphabet_def bytes_nat_def b32_alphabet_def)
  with True show ?thesis by simp
next
  case False
  then have "butlast b @ [last b] = b" by simp
  then have "butlast b \<noteq> b" by (metis append_self_conv list.distinct(1))
  with False show ?thesis by (simp add: IpfsifyHash_DockerizeHash)
qed

theorem dockerize_roundtrip_iff_witness:
  "IpfsifyHash (DockerizeHash (Encode58 ''ab'')) = Encode58 ''ab'' \<and>
   IpfsifyHash (DockerizeHash (Encode58 ''abcde'')) \<noteq> Encode58 ''abcde''"
  using dockerize_roundtrip_iff [of "''ab''"] dockerize_roundtrip_iff [of "''abcde''"] by simp

lemma b58_loop_bad: "\<not> set cs \<subseteq> set al \<Longrightarrow> b58_loop al cs a j = None"
proof (induction cs arbitrary: a j)
  case (Cons c cs)
  then show ?case by (cases "c \<in> set al") (simp_all add: index_of_notin split: option.splits)
qed simp

lemma Decode58_bad: "\<not> set b \<subseteq> set BTCAlphabet \<Longrightarrow> Decode58 b = []"
  by (simp add: Decode58_def DecodeAlphabet_def b58_loop_bad)

text \<open>
  The same hash with or without the \<open>/ipfs/\<close> prefix has the same Docker form, and a
  reference with a character outside the base 58 alphabet has the empty one.
\<close>
theorem dockerize_input:
  "DockerizeHash (''/ipfs/'' @ Encode58 b) = DockerizeHash (Encode58 b) \<and>
   (\<not> set (strip_ipfs s) \<subseteq> set BTCAlphabet \<longrightarrow> DockerizeHash s = [])"
proof (intro conjI impI)
  show "DockerizeHash (''/ipfs/'' @ Encode58 b) = DockerizeHash (Encode58 b)"
    by (simp only: DockerizeHash_def strip_ipfs_Encode58)
  assume "\<not> set (strip_ipfs s) \<subseteq> set BTCAlphabet"
  then have "DockerizeHash s = to_lower (butlast (b32_encode []))"
    by (simp add: DockerizeHash_def Decode58_bad butlast_conv_take Let_def)
  then show "DockerizeHash s = []" by (simp add: to_lower_def)
qed

theorem dockerize_input_witness: "DockerizeHash ''/ipfs/ciql'' = ''''"
proof -
  have "strip_ipfs ''/ipfs/ciql'' = ''ciql''" by (simp add: strip_ipfs_def trim_prefix_def)
  moreover have "CHR ''l'' \<notin> set BTCAlphabet" by (simp add: BTCAlphabet_def)
  ultimately have "\<not> set (strip_ipfs ''/ipfs/ciql'') \<subseteq> set BTCAlphabet" by simp
  with dockerize_input [of undefined "''/ipfs/ciql''"] show ?thesis by blast
qed

section \<open>Normal forms of a CID\<close>

text \<open>
  What \<open>regutil.go\<close> uses of \<open>ipfs/go-cid\<close>: \<open>cid.Decode\<close> yields a codec and a multihash,
  \<open>cid.NewCidV1(..).StringOfBase(mbase.Base32)\<close> prints a version 1 CID of them in base 32
  (or refuses), and \<open>Hash().B58String()\<close> prints the multihash in base 58.
\<close>

record cid_lib =
  cid_decode :: "string \<Rightarrow> (nat \<times> bytes) result"
  cid_v1_b32 :: "nat \<Rightarrow> bytes \<Rightarrow> string result"
  mh_b58 :: "bytes \<Rightarrow> string"

definition ToB58 :: "cid_lib \<Rightarrow> string \<Rightarrow> string" where
  "ToB58 lib s =
     (case cid_decode lib s of
        Inl err \<Rightarrow> []
      | Inr c \<Rightarrow> mh_b58 lib (snd c))"

definition ToB32 :: "cid_lib \<Rightarrow> string \<Rightarrow> string" where
  "ToB32 lib s =
     (case cid_decode lib s of
        Inl err \<Rightarrow> []
      | Inr c \<Rightarrow>
          (case cid_v1_b32 lib (fst c) (snd c) of
             Inl err \<Rightarrow> []
           | Inr b32 \<Rightarrow> b32))"

text \<open>
  The SHA-256 multihash of a digest, and what the program relies on: a base 32 form is final, it
  keeps the hash, SHA-256 hashes are CIDs by themselves, and their Docker forms are not.
\<close>

definition sha2_hash :: "bytes \<Rightarrow> bytes" where
  "sha2_hash d = byte_of 18 # byte_of 32 # d"

locale cid_package =
  fixes lib :: cid_lib
  assumes b32_stable: "ToB32 lib s \<noteq> [] \<Longrightarrow> ToB32 lib (ToB32 lib s) = ToB32 lib s"
    and b58_of_b32: "ToB32 lib s \<noteq> [] \<Longrightarrow> ToB58 lib (ToB32 lib s) = ToB58 lib s"
    and hash_is_cid: "length d = 32 \<Longrightarrow> ToB32 lib (Encode58 (sha2_hash d)) \<noteq> []"
    and hash_b58: "length d = 32 \<Longrightarrow> ToB58 lib (Encode58 (sha2_hash d)) = Encode58 (sha2_hash d)"
    and docker_no_cid: "length d = 32 \<Longrightarrow> ToB32 lib (DockerizeHash (Encode58 (sha2_hash d))) = []"
begin

text \<open>The base 32 form of a hash leads back to it, and so does its Docker form.\<close>

lemma hash_of_b32: "length d = 32 \<Longrightarrow> ToB58 lib (ToB32 lib (Encode58 (sha2_hash d))) = Encode58 (sha2_hash d)"
  by (simp add: b58_of_b32 hash_is_cid hash_b58)

lemma hash_of_docker: "length d = 32 \<Longrightarrow> IpfsifyHash (DockerizeHash (Encode58 (sha2_hash d))) = Encode58 (sha2_hash d)"
  using IpfsifyHash_DockerizeHash [of "sha2_hash d"] by (simp add: sha2_hash_def)

end

end
