(* ===== verification/Json.thy ===== *)
theory Json
  imports Digest
begin

text \<open>
  The part of Go's \<open>encoding/json\<close> that the program uses: printing (\<open>Marshal\<close>, with its
  HTML-safe escaping) and parsing. Parsing is a lexer followed by a push-down automaton
  over the tokens, as Go's scanner is, so no recursion depth or fuel is involved. Strings
  are byte strings: bytes from 128 up are copied, which is what Go does for valid UTF-8.
  The lemmas at the end show that printing and then parsing gives back the value.
\<close>

section \<open>Values and printing\<close>

datatype json =
    JNull
  | JBool bool
  | JNum string
  | JStr string
  | JArr "json list"
  | JObj "(string \<times> json) list"

definition quote_mark :: char where
  "quote_mark = CHR 0x22"

definition backslash :: char where
  "backslash = CHR 0x5C"

definition esc_char :: "char \<Rightarrow> string" where
  "esc_char c =
     (if c = quote_mark \<or> c = backslash then [backslash, c]
      else if c = CHR 0x0A then [backslash, CHR ''n'']
      else if c = CHR 0x0D then [backslash, CHR ''r'']
      else if c = CHR 0x09 then [backslash, CHR ''t'']
      else if byte_val c < 32 \<or> c \<in> {CHR ''<'', CHR ''>'', CHR ''&''}
      then [backslash, CHR ''u'', CHR ''0'', CHR ''0'', hex_char (byte_val c div 16), hex_char (byte_val c mod 16)]
      else [c])"

definition esc_string :: "string \<Rightarrow> string" where
  "esc_string s = concat (map esc_char s)"

datatype token =
    TOpenObj | TCloseObj | TOpenArr | TCloseArr | TColon | TComma
  | TStr string | TNum string | TTrue | TFalse | TNull

fun token_text :: "token \<Rightarrow> string" where
  "token_text TOpenObj = ''{''"
| "token_text TCloseObj = ''}''"
| "token_text TOpenArr = ''[''"
| "token_text TCloseArr = '']''"
| "token_text TColon = '':''"
| "token_text TComma = '',''"
| "token_text (TStr s) = quote_mark # esc_string s @ [quote_mark]"
| "token_text (TNum s) = s"
| "token_text TTrue = ''true''"
| "token_text TFalse = ''false''"
| "token_text TNull = ''null''"

fun json_tokens :: "json \<Rightarrow> token list"
  and elem_tokens :: "json list \<Rightarrow> token list"
  and member_tokens :: "(string \<times> json) list \<Rightarrow> token list" where
  "json_tokens JNull = [TNull]"
| "json_tokens (JBool b) = [if b then TTrue else TFalse]"
| "json_tokens (JNum s) = [TNum s]"
| "json_tokens (JStr s) = [TStr s]"
| "json_tokens (JArr vs) = TOpenArr # elem_tokens vs @ [TCloseArr]"
| "json_tokens (JObj ms) = TOpenObj # member_tokens ms @ [TCloseObj]"
| "elem_tokens [] = []"
| "elem_tokens [v] = json_tokens v"
| "elem_tokens (v # w # vs) = json_tokens v @ TComma # elem_tokens (w # vs)"
| "member_tokens [] = []"
| "member_tokens [(k, v)] = TStr k # TColon # json_tokens v"
| "member_tokens ((k, v) # m # ms) = TStr k # TColon # json_tokens v @ TComma # member_tokens (m # ms)"

text \<open>\<open>json.Marshal\<close>: no white space.\<close>

definition json_print :: "json \<Rightarrow> string" where
  "json_print v = concat (map token_text (json_tokens v))"

section \<open>Lexing\<close>

definition is_json_space :: "char \<Rightarrow> bool" where
  "is_json_space c = (c \<in> {CHR '' '', CHR 0x09, CHR 0x0A, CHR 0x0D})"

definition hex_val :: "char \<Rightarrow> nat option" where
  "hex_val c =
     (let n = byte_val c in
      if 48 \<le> n \<and> n \<le> 57 then Some (n - 48)
      else if 97 \<le> n \<and> n \<le> 102 then Some (n - 87)
      else if 65 \<le> n \<and> n \<le> 70 then Some (n - 55) else None)"

fun hex4 :: "string \<Rightarrow> nat option" where
  "hex4 (a # b # c # d # _) =
     (case (hex_val a, hex_val b, hex_val c, hex_val d) of
        (Some w, Some x, Some y, Some z) \<Rightarrow> Some (((w * 16 + x) * 16 + y) * 16 + z)
      | _ \<Rightarrow> None)"
| "hex4 _ = None"

text \<open>The UTF-8 bytes of a code point, and those of the replacement character.\<close>

definition utf8 :: "nat \<Rightarrow> bytes" where
  "utf8 n =
     (if n < 128 then [byte_of n]
      else if n < 2048 then [byte_of (192 + n div 64), byte_of (128 + n mod 64)]
      else if n < 65536 then
        [byte_of (224 + n div 4096), byte_of (128 + n div 64 mod 64), byte_of (128 + n mod 64)]
      else [byte_of (240 + n div 262144), byte_of (128 + n div 4096 mod 64),
            byte_of (128 + n div 64 mod 64), byte_of (128 + n mod 64)])"

definition simple_escape :: "char \<Rightarrow> char option" where
  "simple_escape e =
     (if e = quote_mark \<or> e = backslash \<or> e = CHR ''/'' then Some e
      else if e = CHR ''b'' then Some (CHR 0x08)
      else if e = CHR ''f'' then Some (CHR 0x0C)
      else if e = CHR ''n'' then Some (CHR 0x0A)
      else if e = CHR ''r'' then Some (CHR 0x0D)
      else if e = CHR ''t'' then Some (CHR 0x09) else None)"

definition low_surrogate :: "string \<Rightarrow> nat option" where
  "low_surrogate s =
     (if has_prefix s [backslash, CHR ''u''] then
        (case hex4 (drop 2 s) of
           None \<Rightarrow> None
         | Some m \<Rightarrow> if 0xDC00 \<le> m \<and> m < 0xE000 then Some m else None)
      else None)"

text \<open>
  The escape after \<open>\u\<close>: the bytes it stands for and how much input it takes. A surrogate
  that is not half of a pair becomes the replacement character.
\<close>

definition unicode_escape :: "string \<Rightarrow> (bytes \<times> nat) option" where
  "unicode_escape r =
     (case hex4 r of
        None \<Rightarrow> None
      | Some n \<Rightarrow>
          if 0xD800 \<le> n \<and> n < 0xE000 then
            (case (if n < 0xDC00 then low_surrogate (drop 4 r) else None) of
               Some m \<Rightarrow> Some (utf8 (65536 + (n - 0xD800) * 1024 + (m - 0xDC00)), 10)
             | None \<Rightarrow> Some (utf8 0xFFFD, 4))
          else Some (utf8 n, 4))"

definition prepend :: "'a list \<Rightarrow> ('a list \<times> 'b) option \<Rightarrow> ('a list \<times> 'b) option" where
  "prepend p r = map_option (\<lambda>(t, rest). (p @ t, rest)) r"

text \<open>The rest of a string literal after its opening quote.\<close>

function lex_chars :: "string \<Rightarrow> (string \<times> string) option" where
  "lex_chars [] = None"
| "lex_chars (c # s) =
     (if c = quote_mark then Some ([], s)
      else if c = backslash then
        (case s of
           [] \<Rightarrow> None
         | e # r \<Rightarrow>
             if e = CHR ''u'' then
               (case unicode_escape r of
                  None \<Rightarrow> None
                | Some (b, n) \<Rightarrow> prepend b (lex_chars (drop n r)))
             else
               (case simple_escape e of
                  None \<Rightarrow> None
                | Some x \<Rightarrow> prepend [x] (lex_chars r)))
      else if byte_val c < 32 then None
      else prepend [c] (lex_chars s))"
  by pat_completeness auto
termination
  by (relation "measure length") auto

definition take_digits :: "string \<Rightarrow> string \<times> string" where
  "take_digits s = (takeWhile is_digit s, dropWhile is_digit s)"

text \<open>A number literal: sign, integer part without leading zeros, fraction, exponent.\<close>

definition lex_int_part :: "string \<Rightarrow> (string \<times> string) option" where
  "lex_int_part s =
     (case s of
        [] \<Rightarrow> None
      | c # r \<Rightarrow>
          if c = CHR ''0'' then Some ([c], r)
          else if is_digit c then Some (take_digits s) else None)"

definition lex_frac :: "string \<Rightarrow> (string \<times> string) option" where
  "lex_frac s =
     (case s of
        [] \<Rightarrow> Some ([], s)
      | c # r \<Rightarrow>
          if c = CHR ''.'' then
            (if fst (take_digits r) = [] then None else prepend [c] (Some (take_digits r)))
          else Some ([], s))"

definition lex_exp :: "string \<Rightarrow> (string \<times> string) option" where
  "lex_exp s =
     (case s of
        [] \<Rightarrow> Some ([], s)
      | c # r \<Rightarrow>
          if c = CHR ''e'' \<or> c = CHR ''E'' then
            (let (sg, r') = (case r of
                               [] \<Rightarrow> ([], r)
                             | x # r' \<Rightarrow> if x = CHR ''+'' \<or> x = CHR ''-'' then ([x], r') else ([], r))
             in if fst (take_digits r') = [] then None
                else prepend (c # sg) (Some (take_digits r')))
          else Some ([], s))"

definition lex_num :: "string \<Rightarrow> (string \<times> string) option" where
  "lex_num s =
     (let (sg, r) = (case s of [] \<Rightarrow> ([], s) | x # r \<Rightarrow> if x = CHR ''-'' then ([x], r) else ([], s)) in
      case lex_int_part r of
        None \<Rightarrow> None
      | Some (ip, r1) \<Rightarrow>
          (case lex_frac r1 of
             None \<Rightarrow> None
           | Some (fp, r2) \<Rightarrow>
               (case lex_exp r2 of
                  None \<Rightarrow> None
                | Some (ep, r3) \<Rightarrow> Some (sg @ ip @ fp @ ep, r3))))"

text \<open>One token, and what is left.\<close>

definition lex_token :: "char \<Rightarrow> string \<Rightarrow> (token \<times> string) option" where
  "lex_token c s =
     (if c = CHR ''{'' then Some (TOpenObj, s)
      else if c = CHR ''}'' then Some (TCloseObj, s)
      else if c = CHR ''['' then Some (TOpenArr, s)
      else if c = CHR '']'' then Some (TCloseArr, s)
      else if c = CHR '':'' then Some (TColon, s)
      else if c = CHR '','' then Some (TComma, s)
      else if c = quote_mark then map_option (\<lambda>(t, r). (TStr t, r)) (lex_chars s)
      else if c = CHR ''t'' then (if has_prefix s ''rue'' then Some (TTrue, drop 3 s) else None)
      else if c = CHR ''f'' then (if has_prefix s ''alse'' then Some (TFalse, drop 4 s) else None)
      else if c = CHR ''n'' then (if has_prefix s ''ull'' then Some (TNull, drop 3 s) else None)
      else map_option (\<lambda>(t, r). (TNum t, r)) (lex_num (c # s)))"

lemma prepend_Some: "prepend p r = Some (t, rest) \<longleftrightarrow> (\<exists>t'. r = Some (t', rest) \<and> t = p @ t')"
  by (cases r) (auto simp: prepend_def)

lemma lex_chars_length: "lex_chars s = Some (t, r) \<Longrightarrow> length r < length s"
proof (induction s arbitrary: t rule: lex_chars.induct)
  case (2 c s)
  show ?case
  proof (cases "c = quote_mark")
    case True
    with "2.prems" show ?thesis by simp
  next
    case nq: False
    show ?thesis
    proof (cases "c = backslash")
      case nb: False
      with nq "2.prems" obtain t' where "lex_chars s = Some (t', r)"
        by (auto simp: prepend_Some split: if_splits)
      with "2.IH"(3) [OF nq nb] nq nb "2.prems" show ?thesis by (fastforce split: if_splits)
    next
      case True
      with nq "2.prems" obtain e r' where s: "s = e # r'" by (cases s) auto
      show ?thesis
      proof (cases "e = CHR ''u''")
        case u: True
        with True nq s "2.prems" obtain b n t' where
          un: "unicode_escape r' = Some (b, n)" and "lex_chars (drop n r') = Some (t', r)"
          by (auto simp: prepend_Some split: option.splits)
        with "2.IH"(1) [OF nq True s u un refl] have "length r < length (drop n r')" by blast
        with s show ?thesis by simp
      next
        case nu: False
        with True nq s "2.prems" obtain x t' where
          x: "simple_escape e = Some x" and "lex_chars r' = Some (t', r)"
          by (auto simp: prepend_Some split: option.splits)
        with "2.IH"(2) [OF nq True s nu x] have "length r < length r'" by blast
        with s show ?thesis by simp
      qed
    qed
  qed
qed simp

lemma lex_int_part_length: "lex_int_part s = Some (t, r) \<Longrightarrow> length r < length s"
  by (auto simp: lex_int_part_def take_digits_def length_dropWhile_le less_Suc_eq_le
      split: list.splits if_splits)

lemma lex_frac_length: "lex_frac s = Some (t, r) \<Longrightarrow> length r \<le> length s"
  by (auto simp: lex_frac_def take_digits_def prepend_def length_dropWhile_le le_SucI
      split: list.splits if_splits)

lemma lex_exp_length: "lex_exp s = Some (t, r) \<Longrightarrow> length r \<le> length s"
  by (auto simp: lex_exp_def take_digits_def prepend_def length_dropWhile_le le_SucI Let_def
      split: list.splits if_splits)

lemma lex_num_length: "lex_num s = Some (t, r) \<Longrightarrow> length r < length s"
  by (auto simp: lex_num_def split: list.splits option.splits if_splits prod.splits
      dest!: lex_int_part_length lex_frac_length lex_exp_length)

lemma lex_token_length: "lex_token c s = Some (t, r) \<Longrightarrow> length r \<le> length s"
  by (auto simp: lex_token_def split: if_splits dest!: lex_chars_length lex_num_length)

function lex :: "string \<Rightarrow> token list option" where
  "lex [] = Some []"
| "lex (c # s) =
     (if is_json_space c then lex s
      else (case lex_token c s of
              None \<Rightarrow> None
            | Some (t, r) \<Rightarrow> map_option (Cons t) (lex r)))"
  by pat_completeness auto
termination
  by (relation "measure length") (auto dest: lex_token_length)

section \<open>Parsing\<close>

text \<open>
  What the parser is inside of: an array with the elements so far, an object with the
  members so far, or an object with a key that waits for its value (all in reverse).
\<close>

datatype frame = FArr "json list" | FObj "(string \<times> json) list" | FKey "(string \<times> json) list" string

datatype pstate = PVal | PFirst | PKey1 | PKey | PColon | PSep | PEnd json

type_synonym config = "pstate \<times> frame list"

fun push_val :: "json \<Rightarrow> frame list \<Rightarrow> config option" where
  "push_val v [] = Some (PEnd v, [])"
| "push_val v (FArr vs # st) = Some (PSep, FArr (v # vs) # st)"
| "push_val v (FKey ms k # st) = Some (PSep, FObj ((k, v) # ms) # st)"
| "push_val v (FObj ms # st) = None"

fun value_step :: "token \<Rightarrow> frame list \<Rightarrow> config option" where
  "value_step (TStr s) st = push_val (JStr s) st"
| "value_step (TNum s) st = push_val (JNum s) st"
| "value_step TTrue st = push_val (JBool True) st"
| "value_step TFalse st = push_val (JBool False) st"
| "value_step TNull st = push_val JNull st"
| "value_step TOpenArr st = Some (PFirst, FArr [] # st)"
| "value_step TOpenObj st = Some (PKey1, FObj [] # st)"
| "value_step _ st = None"

fun close_arr :: "frame list \<Rightarrow> config option" where
  "close_arr (FArr vs # st) = push_val (JArr (rev vs)) st"
| "close_arr _ = None"

fun close_obj :: "frame list \<Rightarrow> config option" where
  "close_obj (FObj ms # st) = push_val (JObj (rev ms)) st"
| "close_obj _ = None"

fun key_step :: "token \<Rightarrow> frame list \<Rightarrow> config option" where
  "key_step (TStr k) (FObj ms # st) = Some (PColon, FKey ms k # st)"
| "key_step _ _ = None"

fun sep_step :: "token \<Rightarrow> frame list \<Rightarrow> config option" where
  "sep_step TComma (FArr vs # st) = Some (PVal, FArr vs # st)"
| "sep_step TComma (FObj ms # st) = Some (PKey, FObj ms # st)"
| "sep_step TCloseArr st = close_arr st"
| "sep_step TCloseObj st = close_obj st"
| "sep_step _ _ = None"

fun pstep :: "token \<Rightarrow> config \<Rightarrow> config option" where
  "pstep t (PVal, st) = value_step t st"
| "pstep t (PFirst, st) = (if t = TCloseArr then close_arr st else value_step t st)"
| "pstep t (PKey1, st) = (if t = TCloseObj then close_obj st else key_step t st)"
| "pstep t (PKey, st) = key_step t st"
| "pstep t (PColon, st) = (if t = TColon then Some (PVal, st) else None)"
| "pstep t (PSep, st) = sep_step t st"
| "pstep t (PEnd v, st) = None"

fun prun :: "token list \<Rightarrow> config \<Rightarrow> config option" where
  "prun [] c = Some c"
| "prun (t # ts) c = (case pstep t c of None \<Rightarrow> None | Some c' \<Rightarrow> prun ts c')"

definition json_parse :: "string \<Rightarrow> json option" where
  "json_parse s =
     (case lex s of
        None \<Rightarrow> None
      | Some ts \<Rightarrow>
          (case prun ts (PVal, []) of
             Some (PEnd v, []) \<Rightarrow> Some v
           | _ \<Rightarrow> None))"

section \<open>Printing then parsing\<close>

fun int_nums :: "json \<Rightarrow> bool" where
  "int_nums (JNum s) = (\<exists>n. s = nat_str n)"
| "int_nums (JArr vs) = (\<forall>v \<in> set vs. int_nums v)"
| "int_nums (JObj ms) = (\<forall>m \<in> set ms. int_nums (snd m))"
| "int_nums _ = True"

lemma json_tokens_hd: "\<exists>t ts. json_tokens v = t # ts \<and> t \<noteq> TCloseArr"
  by (cases v) auto

lemma prun_first: "t \<noteq> TCloseArr \<Longrightarrow> prun (t # ts) (PFirst, st) = prun (t # ts) (PVal, st)"
  by simp

lemma prun_tokens:
  "push_val v st = Some c \<Longrightarrow> prun (json_tokens v @ ts) (PVal, st) = prun ts c"
  "vs \<noteq> [] \<Longrightarrow> prun (elem_tokens vs @ ts) (PVal, FArr acc # st) = prun ts (PSep, FArr (rev vs @ acc) # st)"
  "ms \<noteq> [] \<Longrightarrow> prun (member_tokens ms @ ts) (PKey, FObj macc # st) = prun ts (PSep, FObj (rev ms @ macc) # st)"
proof (induction v and vs and ms arbitrary: st c ts and st acc ts and st macc ts
    rule: json_tokens_elem_tokens_member_tokens.induct)
  case (5 vs)
  show ?case
  proof (cases "vs = []")
    case True
    with 5 show ?thesis by simp
  next
    case False
    then obtain v vs' where vs: "vs = v # vs'" by (cases vs) auto
    obtain t ts' where t: "json_tokens v = t # ts'" "t \<noteq> TCloseArr" using json_tokens_hd by blast
    have "\<exists>ts''. elem_tokens vs = t # ts''" using vs t by (cases vs') auto
    then obtain ts'' where ts'': "elem_tokens vs = t # ts''" by blast
    have "prun (json_tokens (JArr vs) @ ts) (PVal, st) = prun (elem_tokens vs @ TCloseArr # ts) (PFirst, FArr [] # st)"
      by simp
    also have "\<dots> = prun (elem_tokens vs @ TCloseArr # ts) (PVal, FArr [] # st)"
      using ts'' t(2) by simp
    also have "\<dots> = prun (TCloseArr # ts) (PSep, FArr (rev vs) # st)"
      using "5.IH" [OF False] by simp
    finally show ?thesis using "5.prems" by simp
  qed
next
  case (6 ms)
  show ?case
  proof (cases "ms = []")
    case True
    with 6 show ?thesis by simp
  next
    case False
    then obtain k v ms' where ms: "ms = (k, v) # ms'" by (cases ms) auto
    have "prun (json_tokens (JObj ms) @ ts) (PVal, st) = prun (member_tokens ms @ TCloseObj # ts) (PKey1, FObj [] # st)"
      by simp
    also have "\<dots> = prun (member_tokens ms @ TCloseObj # ts) (PKey, FObj [] # st)"
      using ms by (cases ms') auto
    also have "\<dots> = prun (TCloseObj # ts) (PSep, FObj (rev ms) # st)"
      using "6.IH" [OF False] by simp
    finally show ?thesis using "6.prems" by simp
  qed
qed auto

lemma char_of_byte_val [simp]: "byte_of (byte_val c) = c"
  by (simp add: byte_of_def byte_val_def)

lemma hex_val_hex_char: "n < 16 \<Longrightarrow> hex_val (hex_char n) = Some n"
  by (cases "n < 10") (simp_all add: hex_val_def hex_char_def byte_val_def)

lemma lex_chars_esc_char: "lex_chars (esc_char c @ r) = prepend [c] (lex_chars r)"
proof -
  have hv: "hex_val (hex_char (byte_val c div 16)) = Some (byte_val c div 16)"
    "hex_val (hex_char (byte_val c mod 16)) = Some (byte_val c mod 16)"
    by (simp_all add: hex_val_hex_char less_mult_imp_div_less)
  have h0: "hex_val (CHR ''0'') = Some 0" by code_simp
  have u: "unicode_escape (CHR ''0'' # CHR ''0'' # hex_char (byte_val c div 16) # hex_char (byte_val c mod 16) # r)
    = Some ([c], 4)" if "byte_val c < 128"
    using that by (simp add: unicode_escape_def hv h0 utf8_def)
  have small: "byte_val c < 128" if "c \<in> {CHR ''<'', CHR ''>'', CHR ''&''}"
    using that by (auto simp: byte_val_def)
  show ?thesis
    using u small by (auto simp: esc_char_def quote_mark_def backslash_def simple_escape_def byte_val_def)
qed

lemma prepend_prepend: "prepend p (prepend q r) = prepend (p @ q) r"
  by (cases r) (auto simp: prepend_def)

lemma lex_chars_esc_string: "lex_chars (esc_string s @ quote_mark # r) = Some (s, r)"
proof (induction s)
  case Nil
  then show ?case by (simp add: esc_string_def)
next
  case (Cons c s)
  have "lex_chars (esc_string (c # s) @ quote_mark # r) = lex_chars (esc_char c @ esc_string s @ quote_mark # r)"
    by (simp add: esc_string_def)
  with Cons show ?case by (simp add: lex_chars_esc_char prepend_def)
qed

text \<open>What may follow a number so that the lexer stops where it should.\<close>

definition num_end :: "string \<Rightarrow> bool" where
  "num_end r = (r = [] \<or> hd r \<in> {CHR '','', CHR '']'', CHR ''}''})"

lemma num_end_not_digit: "num_end r \<Longrightarrow> takeWhile is_digit r = [] \<and> dropWhile is_digit r = r"
  by (cases r) (auto simp: num_end_def is_digit_def)

lemma nat_str_hd_zero: "nat_str n = CHR ''0'' # r \<Longrightarrow> r = []"
proof (induction n arbitrary: r rule: nat_str.induct)
  case (1 n)
  show ?case
  proof (cases "n < 10")
    case True
    with 1 show ?thesis by (simp add: nat_str.simps [of n])
  next
    case False
    then have eq: "nat_str n = nat_str (n div 10) @ [digit_char (n mod 10)]"
      by (simp add: nat_str.simps [of n])
    with "1.prems" obtain r' where r': "nat_str (n div 10) = CHR ''0'' # r'"
      by (cases "nat_str (n div 10)") auto
    with "1.IH" [OF False] have "nat_str (n div 10) = ''0''" by simp
    then have "str_nat (nat_str (n div 10)) = 0" by (simp add: str_nat_def digit_val_def)
    with False show ?thesis by (simp add: str_nat_nat_str)
  qed
qed

lemma lex_num_nat_str:
  assumes "num_end r"
  shows "lex_num (nat_str n @ r) = Some (nat_str n, r)"
proof -
  obtain c cs where n: "nat_str n = c # cs" by (cases "nat_str n") auto
  have dig: "is_digit c" "list_all is_digit cs" using nat_str_digits [of n] n by auto
  then have "c \<noteq> CHR ''-''" by (auto simp: is_digit_def)
  have "lex_int_part (c # cs @ r) = Some (c # cs, r)"
  proof (cases "c = CHR ''0''")
    case True
    with nat_str_hd_zero [of n cs] n show ?thesis by (simp add: lex_int_part_def)
  next
    case False
    have "takeWhile is_digit (cs @ r) = cs" "dropWhile is_digit (cs @ r) = r"
      using dig(2) num_end_not_digit [OF assms] by (auto simp: list_all_iff)
    with False dig show ?thesis by (simp add: lex_int_part_def take_digits_def)
  qed
  moreover have "lex_frac r = Some ([], r)" "lex_exp r = Some ([], r)"
    using assms by (cases r; auto simp: lex_frac_def lex_exp_def num_end_def)+
  ultimately show ?thesis using \<open>c \<noteq> CHR ''-''\<close> n by (simp add: lex_num_def)
qed

text \<open>Token lists whose text lexes back: a number is followed by a comma or a closing bracket.\<close>

definition stops_num :: "token list \<Rightarrow> bool" where
  "stops_num ts = (ts = [] \<or> hd ts \<in> {TComma, TCloseArr, TCloseObj})"

fun lexable :: "token list \<Rightarrow> bool" where
  "lexable [] = True"
| "lexable (TNum s # ts) = ((\<exists>n. s = nat_str n) \<and> stops_num ts \<and> lexable ts)"
| "lexable (t # ts) = lexable ts"

lemma stops_num_text: "stops_num ts \<Longrightarrow> num_end (concat (map token_text ts))"
  by (cases ts) (auto simp: stops_num_def num_end_def)

lemma digit_not_special:
  assumes "is_digit c"
  shows "lex_token c s = map_option (\<lambda>(t, r). (TNum t, r)) (lex_num (c # s)) \<and> \<not> is_json_space c"
proof -
  have "c \<notin> {CHR ''{'', CHR ''}'', CHR ''['', CHR '']'', CHR '':'', CHR '','', quote_mark,
    CHR ''t'', CHR ''f'', CHR ''n'', CHR '' '', CHR 0x09, CHR 0x0A, CHR 0x0D}"
    using assms by (auto simp: is_digit_def quote_mark_def)
  then show ?thesis by (simp add: lex_token_def is_json_space_def)
qed

lemma lex_num_token:
  assumes "num_end r"
  shows "lex (nat_str n @ r) = map_option (Cons (TNum (nat_str n))) (lex r)"
proof -
  obtain c cs where n: "nat_str n = c # cs" by (cases "nat_str n") auto
  then have "is_digit c" using nat_str_digits [of n] by simp
  with lex_num_nat_str [OF assms, of n] digit_not_special [of c "cs @ r"] n show ?thesis
    by simp
qed

lemma lex_token_texts: "lexable ts \<Longrightarrow> lex (concat (map token_text ts)) = Some ts"
proof (induction ts rule: lexable.induct)
  case (2 s ts)
  then obtain n where "s = nat_str n" "stops_num ts" by auto
  with 2 lex_num_token [OF stops_num_text, of ts n] show ?case by simp
qed (auto simp: lex_token_def is_json_space_def quote_mark_def lex_chars_esc_string
       lex_chars_esc_string [unfolded quote_mark_def])

lemma lexable_tokens:
  "int_nums v \<Longrightarrow> stops_num ts \<Longrightarrow> lexable ts \<Longrightarrow> lexable (json_tokens v @ ts)"
  "\<forall>v \<in> set vs. int_nums v \<Longrightarrow> stops_num ts \<Longrightarrow> lexable ts \<Longrightarrow> lexable (elem_tokens vs @ ts)"
  "\<forall>m \<in> set ms. int_nums (snd m) \<Longrightarrow> stops_num ts \<Longrightarrow> lexable ts \<Longrightarrow> lexable (member_tokens ms @ ts)"
  by (induction v and vs and ms arbitrary: ts and ts and ts
      rule: json_tokens_elem_tokens_member_tokens.induct) (auto simp: stops_num_def)

text \<open>
  What is printed parses back to the value, for every value whose numbers are non-negative
  integers and whatever bytes its strings hold.
\<close>

lemma json_parse_print:
  assumes "int_nums v"
  shows "json_parse (json_print v) = Some v"
proof -
  have "lexable (json_tokens v)"
    using lexable_tokens(1) [OF assms, of "[]"] by (simp add: stops_num_def)
  then have "lex (json_print v) = Some (json_tokens v)"
    by (simp add: json_print_def lex_token_texts)
  moreover have "prun (json_tokens v) (PVal, []) = Some (PEnd v, [])"
    using prun_tokens(1) [of v "[]" "(PEnd v, [])" "[]"] by simp
  ultimately show ?thesis by (simp add: json_parse_def)
qed

end
