(* ===== verification/Image.thy ===== *)
theory Image
  imports Json
begin

text \<open>
  Image manifests, \<open>server/registry/image\<close>: the manifest structures, \<open>DecodeManifest\<close> with
  the rules \<open>json.Unmarshal\<close> follows for these structures (field names match without
  regard to case, unknown fields are skipped, \<open>null\<close> leaves a field as it is or makes a
  pointer nil, a value of the wrong type is an error), and \<open>Digests\<close>, which dereferences
  the pointers of the decoded manifest. A nil pointer is \<open>None\<close>.
\<close>

definition ManifestVersion :: int where "ManifestVersion = 2"

definition ManifestType :: string where
  "ManifestType = ''application/vnd.docker.distribution.manifest.v2+json''"

definition ConfigType :: string where
  "ConfigType = ''application/vnd.docker.container.image.v1+json''"

definition LayerType :: string where
  "LayerType = ''application/vnd.docker.image.rootfs.diff.tar.gzip''"

section \<open>The structures\<close>

text \<open>\<open>Config\<close> and \<open>Layer\<close> have the same three fields.\<close>

record descriptor =
  d_mediaType :: string
  d_size :: int
  d_digest :: string

record manifest =
  schemaVersion :: int
  mf_mediaType :: string
  mf_config :: "descriptor option"
  mf_layers :: "descriptor option list"

definition zero_descriptor :: descriptor where
  "zero_descriptor = \<lparr>d_mediaType = [], d_size = 0, d_digest = []\<rparr>"

definition zero_manifest :: manifest where
  "zero_manifest = \<lparr>schemaVersion = 0, mf_mediaType = [], mf_config = None, mf_layers = []\<rparr>"

section \<open>Decoding\<close>

definition field_is :: "string \<Rightarrow> string \<Rightarrow> bool" where
  "field_is k name = (to_lower k = to_lower name)"

definition int64_ok :: "int \<Rightarrow> bool" where
  "int64_ok i = (- (2 ^ 63) \<le> i \<and> i < 2 ^ 63)"

text \<open>\<open>strconv.ParseInt(s, 10, 64)\<close> on a JSON number literal.\<close>

definition parse_int64 :: "string \<Rightarrow> int option" where
  "parse_int64 s =
     (let neg = has_prefix s ''-''; ds = (if neg then tl s else s);
          i = (if neg then - int (str_nat ds) else int (str_nat ds))
      in if ds \<noteq> [] \<and> list_all is_digit ds \<and> int64_ok i then Some i else None)"

fun decode_int :: "json \<Rightarrow> int \<Rightarrow> int option" where
  "decode_int JNull old = Some old"
| "decode_int (JNum s) old = parse_int64 s"
| "decode_int _ old = None"

fun decode_str :: "json \<Rightarrow> string \<Rightarrow> string option" where
  "decode_str JNull old = Some old"
| "decode_str (JStr s) old = Some s"
| "decode_str _ old = None"

fun decode_desc_members :: "(string \<times> json) list \<Rightarrow> descriptor \<Rightarrow> descriptor option" where
  "decode_desc_members [] d = Some d"
| "decode_desc_members ((k, v) # ms) d =
     (if field_is k ''mediaType'' then
        (case decode_str v (d_mediaType d) of None \<Rightarrow> None
         | Some s \<Rightarrow> decode_desc_members ms (d\<lparr>d_mediaType := s\<rparr>))
      else if field_is k ''size'' then
        (case decode_int v (d_size d) of None \<Rightarrow> None
         | Some i \<Rightarrow> decode_desc_members ms (d\<lparr>d_size := i\<rparr>))
      else if field_is k ''digest'' then
        (case decode_str v (d_digest d) of None \<Rightarrow> None
         | Some s \<Rightarrow> decode_desc_members ms (d\<lparr>d_digest := s\<rparr>))
      else decode_desc_members ms d)"

text \<open>Into a pointer: \<open>null\<close> makes it nil, an object fills what it points to.\<close>

fun decode_desc :: "json \<Rightarrow> descriptor option \<Rightarrow> descriptor option option" where
  "decode_desc JNull old = Some None"
| "decode_desc (JObj ms) old =
     map_option Some (decode_desc_members ms (case old of None \<Rightarrow> zero_descriptor | Some d \<Rightarrow> d))"
| "decode_desc _ old = None"

fun decode_layers :: "json list \<Rightarrow> descriptor option list \<Rightarrow> descriptor option list option" where
  "decode_layers [] olds = Some []"
| "decode_layers (v # vs) olds =
     (case decode_desc v (case olds of [] \<Rightarrow> None | d # _ \<Rightarrow> d) of
        None \<Rightarrow> None
      | Some d \<Rightarrow> map_option (Cons d) (decode_layers vs (tl olds)))"

fun decode_layer_list :: "json \<Rightarrow> descriptor option list \<Rightarrow> descriptor option list option" where
  "decode_layer_list JNull olds = Some []"
| "decode_layer_list (JArr vs) olds = decode_layers vs olds"
| "decode_layer_list _ olds = None"

fun decode_members :: "(string \<times> json) list \<Rightarrow> manifest \<Rightarrow> manifest option" where
  "decode_members [] m = Some m"
| "decode_members ((k, v) # ms) m =
     (if field_is k ''schemaVersion'' then
        (case decode_int v (schemaVersion m) of None \<Rightarrow> None
         | Some i \<Rightarrow> decode_members ms (m\<lparr>schemaVersion := i\<rparr>))
      else if field_is k ''mediaType'' then
        (case decode_str v (mf_mediaType m) of None \<Rightarrow> None
         | Some s \<Rightarrow> decode_members ms (m\<lparr>mf_mediaType := s\<rparr>))
      else if field_is k ''config'' then
        (case decode_desc v (mf_config m) of None \<Rightarrow> None
         | Some d \<Rightarrow> decode_members ms (m\<lparr>mf_config := d\<rparr>))
      else if field_is k ''layers'' then
        (case decode_layer_list v (mf_layers m) of None \<Rightarrow> None
         | Some ls \<Rightarrow> decode_members ms (m\<lparr>mf_layers := ls\<rparr>))
      else decode_members ms m)"

definition DecodeManifest :: "bytes \<Rightarrow> manifest result" where
  "DecodeManifest b =
     (case json_parse b of
        None \<Rightarrow> Inl (GoError ''invalid JSON'')
      | Some JNull \<Rightarrow> Inr zero_manifest
      | Some (JObj ms) \<Rightarrow>
          (case decode_members ms zero_manifest of
             None \<Rightarrow> Inl (GoError ''json: cannot unmarshal'')
           | Some m \<Rightarrow> Inr m)
      | Some _ \<Rightarrow> Inl (GoError ''json: cannot unmarshal''))"

section \<open>Digests\<close>

fun layer_digests :: "descriptor option list \<Rightarrow> string list outcome" where
  "layer_digests [] = Done []"
| "layer_digests (None # ls) = Panicked"
| "layer_digests (Some l # ls) =
     (case layer_digests ls of Done ds \<Rightarrow> Done (d_digest l # ds) | Panicked \<Rightarrow> Panicked | Blocked \<Rightarrow> Blocked)"

text \<open>\<open>r.Digests()\<close>: a nil \<open>Config\<close> or a nil layer is dereferenced, which panics.\<close>

definition Digests :: "manifest \<Rightarrow> string list outcome" where
  "Digests m =
     (case mf_config m of
        None \<Rightarrow> Panicked
      | Some c \<Rightarrow>
          (case layer_digests (mf_layers m) of
             Done ds \<Rightarrow> Done (d_digest c # ds)
           | Panicked \<Rightarrow> Panicked
           | Blocked \<Rightarrow> Blocked))"

text \<open>\<open>f, _ := DecodeManifest(b)\<close> followed by \<open>f.Digests()\<close>: on an error \<open>f\<close> is nil.\<close>

definition blob_digests :: "bytes \<Rightarrow> string list outcome" where
  "blob_digests b = (case DecodeManifest b of Inl _ \<Rightarrow> Panicked | Inr m \<Rightarrow> Digests m)"

lemma layer_digests_map: "layer_digests (map Some ls) = Done (map d_digest ls)"
  by (induction ls) auto

lemma layer_digests_DoneD: "layer_digests ls = Done ds \<Longrightarrow> \<exists>ls'. ls = map Some ls' \<and> ds = map d_digest ls'"
proof (induction ls arbitrary: ds rule: layer_digests.induct)
  case (3 l ls)
  then obtain ds' where "layer_digests ls = Done ds'" "ds = d_digest l # ds'"
    by (auto split: outcome.splits)
  with 3 obtain ls' where "ls = map Some ls'" "ds' = map d_digest ls'" by blast
  with \<open>ds = d_digest l # ds'\<close> show ?case by (intro exI [of _ "l # ls'"]) simp
qed auto

lemma layer_digests_Done:
  "layer_digests ls = Done ds \<longleftrightarrow> (\<exists>ls'. ls = map Some ls' \<and> ds = map d_digest ls')"
  using layer_digests_map layer_digests_DoneD by auto

lemma layer_digests_Panicked: "layer_digests ls = Panicked \<longleftrightarrow> None \<in> set ls"
  by (induction ls rule: layer_digests.induct) (auto split: outcome.splits)

lemma layer_digests_not_Blocked: "layer_digests ls \<noteq> Blocked"
  by (induction ls rule: layer_digests.induct) (auto split: outcome.splits)

lemma Digests_not_Blocked [simp]: "Digests m \<noteq> Blocked"
  by (auto simp: Digests_def layer_digests_not_Blocked split: option.splits outcome.splits)

lemma blob_digests_not_Blocked [simp]: "blob_digests b \<noteq> Blocked"
  by (auto simp: blob_digests_def split: sum.splits)

text \<open>
  \<open>Digests\<close> lists the configuration's digest first and then the layers' in order, and it
  panics exactly when the configuration or one of the layers is a nil pointer.
\<close>
theorem digests_spec:
  "(Digests m = Done ds \<longleftrightarrow>
      (\<exists>c ls. mf_config m = Some c \<and> mf_layers m = map Some ls \<and> ds = d_digest c # map d_digest ls))
   \<and> (Digests m = Panicked \<longleftrightarrow> mf_config m = None \<or> None \<in> set (mf_layers m))"
  by (auto simp: Digests_def layer_digests_Done layer_digests_Panicked layer_digests_not_Blocked
      split: option.splits outcome.splits)

section \<open>Number literals\<close>

lemma parse_int64_int_str: 
  assumes "0 \<le> i" and "i < 2 ^ 63"
  shows "parse_int64 (int_str i) = Some i"
proof -
  obtain c cs where n: "nat_str (nat i) = c # cs" by (cases "nat_str (nat i)") auto
  with nat_str_digits [of "nat i"] have d: "is_digit c" "list_all is_digit (c # cs)" by simp_all
  then have "c \<noteq> CHR ''-''" by (auto simp: is_digit_def)
  moreover have "int (str_nat (c # cs)) = i" using n assms str_nat_nat_str [of "nat i"] by simp
  ultimately show ?thesis
    using assms d n by (simp add: parse_int64_def int_str_def int64_ok_def Let_def)
qed

section \<open>A small manifest\<close>

definition small_manifest :: bytes where
  "small_manifest = json_print (JObj [(''mediaType'', JStr ''m''), (''config'', JObj [(''digest'', JStr ''sha256:c'')]),
     (''layers'', JArr [JObj [(''digest'', JStr ''sha256:l'')]])])"

lemma small_manifest_digests: "blob_digests small_manifest = Done [''sha256:c'', ''sha256:l'']"
proof -
  have "json_parse small_manifest = Some (JObj [(''mediaType'', JStr ''m''), (''config'', JObj [(''digest'', JStr ''sha256:c'')]),
     (''layers'', JArr [JObj [(''digest'', JStr ''sha256:l'')]])])"
    unfolding small_manifest_def by (rule json_parse_print) simp
  then show ?thesis
    by (simp add: blob_digests_def DecodeManifest_def field_is_def to_lower_def to_lower_char_def Digests_def
        zero_manifest_def zero_descriptor_def)
qed

text \<open>A manifest list has no configuration.\<close>

definition small_index :: bytes where
  "small_index = json_print (JObj [(''manifests'', JArr [])])"

lemma small_index_no_config: "DecodeManifest small_index = Inr zero_manifest \<and> mf_config zero_manifest = None"
proof -
  have "json_parse small_index = Some (JObj [(''manifests'', JArr [])])"
    unfolding small_index_def by (rule json_parse_print) simp
  then show ?thesis
    by (simp add: DecodeManifest_def field_is_def to_lower_def to_lower_char_def) (simp add: zero_manifest_def)
qed

end
