(* ===== verification/Http.thy ===== *)
theory Http
  imports Json
begin

text \<open>
  The view of HTTP that a Go handler has: the parsed request, the \<open>ResponseWriter\<close>, whose
  headers are frozen by the first \<open>WriteHeader\<close>, the registry's error replies
  (\<open>server/registry/error.go\<close>), and the replies of HTTP requests the program makes itself.
\<close>

section \<open>Status codes\<close>

abbreviation StatusOK :: nat where "StatusOK \<equiv> 200"

abbreviation StatusCreated :: nat where "StatusCreated \<equiv> 201"

abbreviation StatusAccepted :: nat where "StatusAccepted \<equiv> 202"

abbreviation StatusNoContent :: nat where "StatusNoContent \<equiv> 204"

abbreviation StatusBadRequest :: nat where "StatusBadRequest \<equiv> 400"

abbreviation StatusNotFound :: nat where "StatusNotFound \<equiv> 404"

abbreviation StatusRequestedRangeNotSatisfiable :: nat where
  "StatusRequestedRangeNotSatisfiable \<equiv> 416"

abbreviation StatusInternalServerError :: nat where "StatusInternalServerError \<equiv> 500"

section \<open>Requests\<close>

record request =
  req_method :: string
  url_path :: string
  url_query :: "(string \<times> string) list"
  req_header :: "(string \<times> string) list"
  req_body :: bytes

text \<open>\<open>req.URL.Query().Get(k)\<close> and \<open>req.Header.Get(k)\<close>: the first value or the empty string.\<close>

definition first_value :: "(string \<times> string) list \<Rightarrow> string \<Rightarrow> string" where
  "first_value kvs k = (case map_of kvs k of None \<Rightarrow> [] | Some v \<Rightarrow> v)"

definition query_get :: "request \<Rightarrow> string \<Rightarrow> string" where
  "query_get req k = first_value (url_query req) k"

definition header_get :: "request \<Rightarrow> string \<Rightarrow> string" where
  "header_get req k = first_value (req_header req) k"

section \<open>Response writer\<close>

record response =
  hdr :: "string \<rightharpoonup> string"
  sent :: "(nat \<times> (string \<rightharpoonup> string)) option"
  out :: bytes

definition new_response :: response where
  "new_response = \<lparr>hdr = Map.empty, sent = None, out = []\<rparr>"

text \<open>\<open>resp.Header().Set(k, v)\<close>\<close>

definition set_header :: "string \<Rightarrow> string \<Rightarrow> response \<Rightarrow> response" where
  "set_header k v r = r\<lparr>hdr := (hdr r)(k \<mapsto> v)\<rparr>"

text \<open>\<open>resp.WriteHeader(code)\<close>: the second and later calls have no effect.\<close>

definition write_header :: "nat \<Rightarrow> response \<Rightarrow> response" where
  "write_header code r = (if sent r = None then r\<lparr>sent := Some (code, hdr r)\<rparr> else r)"

text \<open>\<open>resp.Write(b)\<close>: a body without a status implies 200.\<close>

definition write_body :: "bytes \<Rightarrow> response \<Rightarrow> response" where
  "write_body b r = (let r' = write_header StatusOK r in r'\<lparr>out := out r' @ b\<rparr>)"

text \<open>What the client gets once the handler has returned.\<close>

definition reply_status :: "response \<Rightarrow> nat" where
  "reply_status r = (case sent r of None \<Rightarrow> StatusOK | Some (c, h) \<Rightarrow> c)"

definition reply_header :: "response \<Rightarrow> string \<Rightarrow> string option" where
  "reply_header r k = (case sent r of None \<Rightarrow> hdr r k | Some (c, h) \<Rightarrow> h k)"

lemma set_header_simps [resp_simps]:
  "sent (set_header k v r) = sent r" "out (set_header k v r) = out r"
  "hdr (set_header k v r) = (hdr r)(k \<mapsto> v)"
  by (simp_all add: set_header_def)

lemma write_header_simps [resp_simps]:
  "sent r = None \<Longrightarrow> sent (write_header c r) = Some (c, hdr r)"
  "sent r = Some x \<Longrightarrow> sent (write_header c r) = Some x"
  "out (write_header c r) = out r" "hdr (write_header c r) = hdr r"
  by (simp_all add: write_header_def)

lemma write_body_simps [resp_simps]:
  "sent r = Some x \<Longrightarrow> sent (write_body b r) = Some x"
  "sent r = None \<Longrightarrow> sent (write_body b r) = Some (StatusOK, hdr r)"
  "out (write_body b r) = out r @ b" "hdr (write_body b r) = hdr r"
  by (simp_all add: write_body_def write_header_def Let_def)

lemma new_response_simps [resp_simps]:
  "sent new_response = None" "hdr new_response = Map.empty" "out new_response = []"
  by (simp_all add: new_response_def)

lemma reply_simps [resp_simps]:
  "sent r = Some (c, h) \<Longrightarrow> reply_status r = c" "sent r = None \<Longrightarrow> reply_status r = StatusOK"
  "sent r = Some (c, h) \<Longrightarrow> reply_header r k = h k" "sent r = None \<Longrightarrow> reply_header r k = hdr r k"
  by (simp_all add: reply_status_def reply_header_def)

section \<open>Registry errors\<close>

record reg_error =
  Status :: nat
  Code :: string
  Message :: string

definition error_json :: "reg_error \<Rightarrow> json" where
  "error_json e =
     JObj [(''errors'', JArr [JObj [(''code'', JStr (Code e)), (''message'', JStr (Message e))]])]"

text \<open>\<open>(r *regError) Write(resp)\<close>: the status, then the JSON body and a newline.\<close>

definition reg_error_write :: "reg_error \<Rightarrow> response \<Rightarrow> response" where
  "reg_error_write e resp =
     write_body (json_print (error_json e) @ [CHR 0x0A]) (write_header (Status e) resp)"

lemma error_json_parse: "json_parse (json_print (error_json e)) = Some (error_json e)"
  by (rule json_parse_print) (simp add: error_json_def)

text \<open>
  An error reply that is written before anything else was sent carries the error's
  status, and its body is one line of JSON that parses back to the code and the message,
  whatever characters the message holds.
\<close>
theorem error_reply_roundtrip:
  assumes "sent resp = None"
  shows "reply_status (reg_error_write e resp) = Status e \<and>
         (\<exists>body. out (reg_error_write e resp) = out resp @ body @ [CHR 0x0A] \<and>
            json_parse body = Some (JObj [(''errors'', JArr [JObj [(''code'', JStr (Code e)),
                                                              (''message'', JStr (Message e))]])]))"
  using assms error_json_parse [of e]
  by (auto simp: reg_error_write_def resp_simps error_json_def)

theorem error_reply_roundtrip_witness:
  "reply_status (reg_error_write \<lparr>Status = 404, Code = ''BLOB_UNKNOWN'', Message = ''<cid>''\<rparr> new_response) = 404"
  using error_reply_roundtrip [of new_response "\<lparr>Status = 404, Code = ''BLOB_UNKNOWN'', Message = ''<cid>''\<rparr>"]
  by (simp add: resp_simps)

section \<open>Replies to the program's own requests\<close>

text \<open>The status code, the status line, and what reading the body to its end gives.\<close>

record http_reply =
  rp_code :: nat
  rp_status :: string
  rp_body :: "bytes result"

end
