(* ===== verification/FileSys.thy ===== *)
theory FileSys
  imports GoStrings "HOL-Library.AList" "HOL-Library.List_Lexorder" "HOL-Library.Char_ord"
begin

text \<open>
  The part of the operating system's file system that the program uses through Go's \<open>os\<close>
  and \<open>io/ioutil\<close>: reading and writing whole files, \<open>os.MkdirAll\<close>, \<open>os.Mkdir\<close>,
  \<open>os.Stat\<close>, \<open>os.Rename\<close> and \<open>ioutil.ReadDir\<close>. A node is found by the absolute list of its path's
  components; a path string is walked component by component as the kernel does, so that
  \<open>..\<close> and a trailing slash mean what they mean there. Symbolic links are not modelled.
  \<open>no_read\<close> and \<open>no_write\<close> say which nodes the kernel refuses (permissions, full disk,
  names it does not take).
\<close>

section \<open>State\<close>

datatype fnode = Dir | File bytes

record file_system =
  nodes :: "(string list \<times> fnode) list"
  cwd :: "string list"
  no_read :: "string list \<Rightarrow> bool"
  no_write :: "string list \<Rightarrow> bool"

text \<open>The root directory needs no entry of its own.\<close>

definition fs_node :: "file_system \<Rightarrow> string list \<Rightarrow> fnode option" where
  "fs_node fs k = (if k = [] then Some Dir else map_of (nodes fs) k)"

definition is_dir :: "file_system \<Rightarrow> string list \<Rightarrow> bool" where
  "is_dir fs k = (fs_node fs k = Some Dir)"

definition fs_put :: "file_system \<Rightarrow> string list \<Rightarrow> fnode \<Rightarrow> file_system" where
  "fs_put fs k n = fs\<lparr>nodes := AList.update k n (nodes fs)\<rparr>"

lemma fs_node_put [fs_simps]:
  "fs_node (fs_put fs k n) k' = (if k' = [] then Some Dir else if k' = k then Some n else fs_node fs k')"
  by (auto simp: fs_node_def fs_put_def update_conv')

lemma fs_put_frame [fs_simps]:
  "cwd (fs_put fs k n) = cwd fs" "no_read (fs_put fs k n) = no_read fs"
  "no_write (fs_put fs k n) = no_write fs"
  by (simp_all add: fs_put_def)

lemma fs_node_Nil [simp]: "fs_node fs [] = Some Dir"
  by (simp add: fs_node_def)

lemma is_dir_Nil [simp]: "is_dir fs []"
  by (simp add: is_dir_def)

lemma not_dir_not_root: "\<not> is_dir fs k \<Longrightarrow> k \<noteq> []"
  by auto

section \<open>Walking a path\<close>

fun fs_walk :: "file_system \<Rightarrow> string list \<Rightarrow> string list \<Rightarrow> string list option" where
  "fs_walk fs cur [] = Some cur"
| "fs_walk fs cur (c # cs) =
     (if \<not> is_dir fs cur then None
      else if c = '''' \<or> c = ''.'' then fs_walk fs cur cs
      else if c = ''..'' then fs_walk fs (butlast cur) cs
      else fs_walk fs (cur @ [c]) cs)"

definition fs_key :: "file_system \<Rightarrow> string \<Rightarrow> string list option" where
  "fs_key fs p =
     (if p = '''' then None
      else fs_walk fs (if rooted p then [] else cwd fs) (split_on (CHR ''/'') p))"

lemma fs_walk_cong:
  "(\<And>k. is_dir fs k = is_dir fs' k) \<Longrightarrow> fs_walk fs cur cs = fs_walk fs' cur cs"
  by (induction fs cur cs rule: fs_walk.induct) auto

lemma fs_key_cong:
  "(\<And>k. is_dir fs k = is_dir fs' k) \<Longrightarrow> cwd fs = cwd fs' \<Longrightarrow> fs_key fs p = fs_key fs' p"
  by (simp add: fs_key_def fs_walk_cong [of fs fs'])

lemma fs_walk_plain:
  assumes "list_all plain_comp cs"
    and "\<And>n. n < length cs \<Longrightarrow> is_dir fs (cur @ take n cs)"
  shows "fs_walk fs cur cs = Some (cur @ cs)"
  using assms
proof (induction cs arbitrary: cur)
  case (Cons c cs)
  from Cons.prems(2) [of 0] have "is_dir fs cur" by simp
  moreover have "fs_walk fs (cur @ [c]) cs = Some ((cur @ [c]) @ cs)"
  proof (rule Cons.IH)
    show "list_all plain_comp cs" using Cons.prems(1) by simp
    show "is_dir fs ((cur @ [c]) @ take n cs)" if "n < length cs" for n
      using Cons.prems(2) [of "Suc n"] that by simp
  qed
  ultimately show ?case using Cons.prems(1) by (simp add: plain_comp_def)
qed simp

lemma fs_walk_plain_dirs:
  "fs_walk fs cur cs = Some k \<Longrightarrow> list_all plain_comp cs \<Longrightarrow>
     k = cur @ cs \<and> (\<forall>n < length cs. is_dir fs (cur @ take n cs))"
proof (induction cs arbitrary: cur)
  case (Cons c cs)
  from Cons.prems have d: "is_dir fs cur" and w: "fs_walk fs (cur @ [c]) cs = Some k"
    by (auto simp: plain_comp_def split: if_splits)
  from Cons.IH [OF w] Cons.prems(2) have
    IH: "k = (cur @ [c]) @ cs" "\<forall>n < length cs. is_dir fs ((cur @ [c]) @ take n cs)" by auto
  have "is_dir fs (cur @ take n (c # cs))" if "n < length (c # cs)" for n
    using d IH(2) that by (cases n) auto
  with IH(1) show ?case by auto
qed simp

section \<open>Files\<close>

text \<open>An \<open>os.PathError\<close>: the operation, the path and the reason.\<close>

definition path_error :: "string \<Rightarrow> string \<Rightarrow> string \<Rightarrow> go_error" where
  "path_error op p why = GoError (op @ '' '' @ p @ '': '' @ why)"

text \<open>\<open>ioutil.ReadFile(p)\<close>\<close>

definition read_file :: "file_system \<Rightarrow> string \<Rightarrow> bytes result" where
  "read_file fs p =
     (case fs_key fs p of
        None \<Rightarrow> Inl (path_error ''open'' p ''not a directory or no such file'')
      | Some k \<Rightarrow>
          if no_read fs k then Inl (path_error ''open'' p ''permission denied'')
          else (case fs_node fs k of
                  None \<Rightarrow> Inl (path_error ''open'' p ''no such file or directory'')
                | Some Dir \<Rightarrow> Inl (path_error ''read'' p ''is a directory'')
                | Some (File b) \<Rightarrow> Inr b))"

text \<open>\<open>ioutil.WriteFile(p, b, perm)\<close>: creates or truncates the file.\<close>

definition write_file :: "file_system \<Rightarrow> string \<Rightarrow> bytes \<Rightarrow> file_system result" where
  "write_file fs p b =
     (case fs_key fs p of
        None \<Rightarrow> Inl (path_error ''open'' p ''not a directory or no such file'')
      | Some k \<Rightarrow>
          if is_dir fs k then Inl (path_error ''open'' p ''is a directory'')
          else if no_write fs k then Inl (path_error ''open'' p ''permission denied'')
          else Inr (fs_put fs k (File b)))"

text \<open>\<open>os.Stat(p)\<close> reduced to what the code looks at: whether the node is there.\<close>

definition stat_exists :: "file_system \<Rightarrow> string \<Rightarrow> bool" where
  "stat_exists fs p = (case fs_key fs p of None \<Rightarrow> False | Some k \<Rightarrow> fs_node fs k \<noteq> None)"

text \<open>
  \<open>os.MkdirAll(p, perm)\<close> on the components of the cleaned path: the missing directories
  are created from the top, and those created before a failure stay.
\<close>

fun mk_dirs :: "file_system \<Rightarrow> string list \<Rightarrow> string list \<Rightarrow> file_system \<times> go_error option" where
  "mk_dirs fs cur [] = (fs, None)"
| "mk_dirs fs cur (c # cs) =
     (case fs_node fs (cur @ [c]) of
        Some Dir \<Rightarrow> mk_dirs fs (cur @ [c]) cs
      | Some (File b) \<Rightarrow> (fs, Some (GoError ''mkdir: not a directory''))
      | None \<Rightarrow>
          if no_write fs (cur @ [c]) then (fs, Some (GoError ''mkdir: permission denied''))
          else mk_dirs (fs_put fs (cur @ [c]) Dir) (cur @ [c]) cs)"

definition abs_comps :: "file_system \<Rightarrow> string \<Rightarrow> string list" where
  "abs_comps fs p =
     clean_comps True [] ((if rooted p then [] else cwd fs) @ split_on (CHR ''/'') p)"

definition mkdir_all :: "file_system \<Rightarrow> string \<Rightarrow> file_system \<times> go_error option" where
  "mkdir_all fs p =
     (if p = [] then (fs, Some (path_error ''mkdir'' [] ''no such file or directory'')) else mk_dirs fs [] (abs_comps fs p))"

text \<open>\<open>ioutil.ReadDir(p)\<close>: the entries by name, each with whether it is a regular file.\<close>

definition dir_entries :: "file_system \<Rightarrow> string list \<Rightarrow> (string \<times> bool) list" where
  "dir_entries fs k =
     map (\<lambda>c. (c, case fs_node fs (k @ [c]) of Some (File _) \<Rightarrow> True | _ \<Rightarrow> False))
       (sort (remdups (map last (filter (\<lambda>k'. k' \<noteq> [] \<and> butlast k' = k) (map fst (nodes fs))))))"

definition read_dir :: "file_system \<Rightarrow> string \<Rightarrow> (string \<times> bool) list result" where
  "read_dir fs p =
     (case fs_key fs p of
        None \<Rightarrow> Inl (path_error ''open'' p ''not a directory or no such file'')
      | Some k \<Rightarrow>
          if no_read fs k then Inl (path_error ''open'' p ''permission denied'')
          else if is_dir fs k then Inr (dir_entries fs k)
          else Inl (path_error ''readdirent'' p ''not a directory''))"

text \<open>\<open>os.Mkdir(p, perm)\<close>\<close>

definition mkdir_one :: "file_system \<Rightarrow> string \<Rightarrow> file_system result" where
  "mkdir_one fs p =
     (case fs_key fs p of
        None \<Rightarrow> Inl (path_error ''mkdir'' p ''not a directory or no such file'')
      | Some k \<Rightarrow>
          if fs_node fs k \<noteq> None then Inl (path_error ''mkdir'' p ''file exists'')
          else if no_write fs k then Inl (path_error ''mkdir'' p ''permission denied'')
          else Inr (fs_put fs k Dir))"

text \<open>\<open>os.Rename(src, dst)\<close> of a file\<close>

definition fs_del :: "file_system \<Rightarrow> string list \<Rightarrow> file_system" where
  "fs_del fs k = fs\<lparr>nodes := AList.delete k (nodes fs)\<rparr>"

definition rename_file :: "file_system \<Rightarrow> string \<Rightarrow> string \<Rightarrow> file_system result" where
  "rename_file fs src dst =
     (case (fs_key fs src, fs_key fs dst) of
        (Some k, Some k') \<Rightarrow>
          (case fs_node fs k of
             Some (File b) \<Rightarrow>
               if is_dir fs k' then Inl (path_error ''rename'' dst ''file exists'')
               else if no_write fs k \<or> no_write fs k' then Inl (path_error ''rename'' dst ''permission denied'')
               else if k = k' then Inr fs
               else Inr (fs_put (fs_del fs k) k' (File b))
           | Some Dir \<Rightarrow> Inl (path_error ''rename'' src ''is a directory'')
           | None \<Rightarrow> Inl (path_error ''rename'' src ''no such file or directory''))
      | _ \<Rightarrow> Inl (path_error ''rename'' src ''no such file or directory''))"

text \<open>
  \<open>os.OpenFile(p, os.O_CREATE|os.O_RDWR, mode)\<close> and writing \<open>b\<close> from the start: a longer
  file keeps its tail.
\<close>

definition open_and_write :: "file_system \<Rightarrow> string \<Rightarrow> bytes \<Rightarrow> file_system result" where
  "open_and_write fs p b =
     (case fs_key fs p of
        None \<Rightarrow> Inl (path_error ''open'' p ''not a directory or no such file'')
      | Some k \<Rightarrow>
          (case fs_node fs k of
             Some Dir \<Rightarrow> Inl (path_error ''open'' p ''is a directory'')
           | Some (File old) \<Rightarrow>
               if no_write fs k \<or> no_read fs k then Inl (path_error ''open'' p ''permission denied'')
               else Inr (fs_put fs k (File (b @ drop (length b) old)))
           | None \<Rightarrow>
               if no_write fs k then Inl (path_error ''open'' p ''permission denied'')
               else Inr (fs_put fs k (File b))))"

text \<open>\<open>os.Stat(p).Size()\<close> of a file; the size of a directory, which the system chooses, is 0 here.\<close>

definition file_size :: "file_system \<Rightarrow> string \<Rightarrow> nat result" where
  "file_size fs p =
     (case fs_key fs p of
        None \<Rightarrow> Inl (path_error ''stat'' p ''not a directory or no such file'')
      | Some k \<Rightarrow>
          (case fs_node fs k of
             None \<Rightarrow> Inl (path_error ''stat'' p ''no such file or directory'')
           | Some Dir \<Rightarrow> Inr 0
           | Some (File b) \<Rightarrow> Inr (length b)))"

section \<open>Facts\<close>

lemma is_dir_put_file [fs_simps]:
  "\<not> is_dir fs k \<Longrightarrow> is_dir (fs_put fs k (File b)) k' = is_dir fs k'"
  by (auto simp: is_dir_def fs_node_put)

lemma fs_key_put_file [fs_simps]:
  "\<not> is_dir fs k \<Longrightarrow> fs_key (fs_put fs k (File b)) p = fs_key fs p"
  by (rule fs_key_cong) (simp_all add: fs_simps)

lemma write_file_Inr:
  "write_file fs p b = Inr fs' \<longleftrightarrow>
     (\<exists>k. fs_key fs p = Some k \<and> \<not> is_dir fs k \<and> \<not> no_write fs k \<and> fs' = fs_put fs k (File b))"
  by (auto simp: write_file_def split: option.splits if_splits)

text \<open>A file that was written is read back, and no other file changes.\<close>

lemma read_write_same:
  assumes "write_file fs p b = Inr fs'" and "\<And>k. fs_key fs p = Some k \<Longrightarrow> \<not> no_read fs k"
  shows "read_file fs' p = Inr b"
proof -
  from assms(1) obtain k where k: "fs_key fs p = Some k" "\<not> is_dir fs k" "fs' = fs_put fs k (File b)"
    by (auto simp: write_file_Inr)
  then have "k \<noteq> []" by auto
  with k assms(2) show ?thesis
    by (simp add: read_file_def fs_simps)
qed

lemma read_write_other:
  assumes "write_file fs p b = Inr fs'" and "fs_key fs q \<noteq> fs_key fs p"
  shows "read_file fs' q = read_file fs q"
proof -
  from assms(1) obtain k where k: "fs_key fs p = Some k" "\<not> is_dir fs k" "fs' = fs_put fs k (File b)"
    by (auto simp: write_file_Inr)
  with assms(2) show ?thesis
    by (auto simp: read_file_def fs_simps split: option.splits)
qed

lemma mk_dirs_frame:
  "cwd (fst (mk_dirs fs cur cs)) = cwd fs \<and> no_read (fst (mk_dirs fs cur cs)) = no_read fs
   \<and> no_write (fst (mk_dirs fs cur cs)) = no_write fs"
  by (induction fs cur cs rule: mk_dirs.induct)
    (auto simp: fs_simps split: option.splits fnode.splits)

lemma mk_dirs_mono: "is_dir fs k \<Longrightarrow> is_dir (fst (mk_dirs fs cur cs)) k"
proof (induction fs cur cs rule: mk_dirs.induct)
  case (2 fs cur c cs)
  then show ?case
    by (auto simp: is_dir_def fs_simps split: option.splits fnode.splits)
qed simp

text \<open>Files are neither created nor changed by making directories.\<close>

lemma mk_dirs_files: "fs_node (fst (mk_dirs fs cur cs)) k = Some (File b) \<longleftrightarrow> fs_node fs k = Some (File b)"
proof (induction fs cur cs rule: mk_dirs.induct)
  case (2 fs cur c cs)
  then show ?case
    by (auto simp: fs_simps split: option.splits fnode.splits)
qed simp

text \<open>When it succeeds, every directory on the way is there.\<close>

lemma mk_dirs_dirs:
  "snd (mk_dirs fs cur cs) = None \<Longrightarrow> is_dir fs cur \<Longrightarrow> n \<le> length cs \<Longrightarrow>
     is_dir (fst (mk_dirs fs cur cs)) (cur @ take n cs)"
proof (induction fs cur cs arbitrary: n rule: mk_dirs.induct)
  case (1 fs cur)
  then show ?case by simp
next
  case (2 fs cur c cs)
  show ?case
  proof (cases n)
    case 0
    from "2.prems"(2) have "is_dir (fst (mk_dirs fs cur (c # cs))) cur" by (rule mk_dirs_mono)
    with 0 show ?thesis by simp
  next
    case (Suc m)
    show ?thesis
    proof (cases "fs_node fs (cur @ [c])")
      case None
      with "2.prems" have nw: "\<not> no_write fs (cur @ [c])" by (auto split: if_splits)
      have "is_dir (fst (mk_dirs (fs_put fs (cur @ [c]) Dir) (cur @ [c]) cs)) ((cur @ [c]) @ take m cs)"
        using "2.IH"(1) [OF None nw] "2.prems" None nw Suc by (simp add: is_dir_def fs_simps)
      with None nw Suc show ?thesis by simp
    next
      case (Some nd)
      with "2.prems" have nd: "nd = Dir" by (cases nd) simp_all
      have "is_dir (fst (mk_dirs fs (cur @ [c]) cs)) ((cur @ [c]) @ take m cs)"
        using "2.IH"(2) [OF Some nd] "2.prems" Some nd Suc by (simp add: is_dir_def)
      with Some nd Suc show ?thesis by simp
    qed
  qed
qed

lemma fs_node_del [fs_simps]:
  "fs_node (fs_del fs k) k' = (if k' = [] then Some Dir else if k' = k then None else fs_node fs k')"
  by (auto simp: fs_node_def fs_del_def delete_conv')

lemma fs_del_frame [fs_simps]: "cwd (fs_del fs k) = cwd fs" "no_read (fs_del fs k) = no_read fs"
  "no_write (fs_del fs k) = no_write fs"
  by (simp_all add: fs_del_def)

lemma is_dir_del_file [fs_simps]: "\<not> is_dir fs k \<Longrightarrow> is_dir (fs_del fs k) k' = is_dir fs k'"
  by (auto simp: is_dir_def fs_node_del)

lemma fs_key_del_file [fs_simps]: "\<not> is_dir fs k \<Longrightarrow> fs_key (fs_del fs k) p = fs_key fs p"
  by (rule fs_key_cong) (simp_all add: fs_simps)

lemma write_file_frame:
  assumes "write_file fs p b = Inr fs'"
  shows "cwd fs' = cwd fs" and "no_read fs' = no_read fs" and "no_write fs' = no_write fs"
    and "is_dir fs' k = is_dir fs k" and "fs_key fs' q = fs_key fs q"
  using assms by (auto simp: write_file_Inr fs_simps)

text \<open>Writing the same bytes again does no harm.\<close>

lemma read_write_keep:
  assumes "write_file fs p b = Inr fs'" and "read_file fs q = Inr b"
  shows "read_file fs' q = Inr b"
proof (cases "fs_key fs q = fs_key fs p")
  case True
  from assms(1) obtain k where k: "fs_key fs p = Some k" "\<not> is_dir fs k" "fs' = fs_put fs k (File b)"
    by (auto simp: write_file_Inr)
  then have "k \<noteq> []" by auto
  with k True assms(2) show ?thesis
    by (auto simp: read_file_def fs_simps split: if_splits)
next
  case False
  with read_write_other [OF assms(1) False] assms(2) show ?thesis by simp
qed

subsection \<open>Children of a directory\<close>

lemma fs_walk_append:
  "fs_walk fs cur (xs @ ys) = (case fs_walk fs cur xs of None \<Rightarrow> None | Some k \<Rightarrow> fs_walk fs k ys)"
  by (induction fs cur xs rule: fs_walk.induct) auto

text \<open>The directory that a path leads to when a slash and a name follow.\<close>

definition dir_of :: "file_system \<Rightarrow> string \<Rightarrow> string list option" where
  "dir_of fs p = fs_walk fs (if p = [] \<or> rooted p then [] else cwd fs) (split_on (CHR ''/'') p)"

lemma dir_of_cong: "(\<And>k. is_dir fs k = is_dir fs' k) \<Longrightarrow> cwd fs = cwd fs' \<Longrightarrow> dir_of fs p = dir_of fs' p"
  by (simp add: dir_of_def fs_walk_cong [of fs fs'])

lemma rooted_child: "rooted (p @ CHR ''/'' # c) \<longleftrightarrow> p = [] \<or> rooted p"
  by (cases p) (auto simp: rooted_def)

lemma fs_key_child:
  assumes "plain_comp c"
  shows "fs_key fs (p @ ''/'' @ c) =
    (case dir_of fs p of None \<Rightarrow> None | Some k \<Rightarrow> if is_dir fs k then Some (k @ [c]) else None)"
  using assms
  by (auto simp: fs_key_def dir_of_def rooted_child split_on_append_sep split_on_id fs_walk_append plain_comp_def
      split: option.splits)

lemma dir_of_child:
  assumes "plain_comp c"
  shows "dir_of fs (p @ ''/'' @ c) =
    (case dir_of fs p of None \<Rightarrow> None | Some k \<Rightarrow> if is_dir fs k then Some (k @ [c]) else None)"
  using assms
  by (auto simp: dir_of_def rooted_child split_on_append_sep split_on_id fs_walk_append plain_comp_def
      split: option.splits)

lemma sibling_key:
  assumes "plain_comp c" and "plain_comp c'" and "c \<noteq> c'" and "fs_key fs (p @ ''/'' @ c) = Some k"
  shows "fs_key fs (p @ ''/'' @ c') \<noteq> Some k"
  using assms by (auto simp: fs_key_child simp del: append_Cons split: option.splits if_splits)

lemma cousin_key:
  assumes "plain_comp d" and "plain_comp d'" and "d \<noteq> d'" and "plain_comp c" and "plain_comp c'"
    and "fs_key fs ((p @ ''/'' @ d) @ ''/'' @ c) = Some k"
  shows "fs_key fs ((p @ ''/'' @ d') @ ''/'' @ c') \<noteq> Some k"
  using assms(3,6) unfolding fs_key_child [OF assms(4)] fs_key_child [OF assms(5)] dir_of_child [OF assms(1)] dir_of_child [OF assms(2)]
  by (cases "dir_of fs p") (auto split: if_splits)

text \<open>Renaming a file moves its content and leaves the other files as they are.\<close>

lemma rename_file_InrE:
  assumes "rename_file fs src dst = Inr fs'"
  obtains k k' b where "fs_key fs src = Some k" "fs_key fs dst = Some k'" "fs_node fs k = Some (File b)" "\<not> is_dir fs k'"
    "fs' = (if k = k' then fs else fs_put (fs_del fs k) k' (File b))"
proof -
  from assms obtain k k' where k: "fs_key fs src = Some k" "fs_key fs dst = Some k'"
    by (cases "fs_key fs src"; cases "fs_key fs dst") (simp_all add: rename_file_def)
  with assms obtain b where b: "fs_node fs k = Some (File b)"
    by (cases "fs_node fs k"; cases "the (fs_node fs k)") (simp_all add: rename_file_def)
  with assms k that [OF k b] show ?thesis
    by (simp add: rename_file_def split: if_splits)
qed

lemma rename_file_frame:
  assumes "rename_file fs src dst = Inr fs'"
  shows "cwd fs' = cwd fs" and "no_read fs' = no_read fs" and "no_write fs' = no_write fs"
    and "is_dir fs' d = is_dir fs d" and "fs_key fs' q = fs_key fs q"
proof -
  obtain k k' b where r: "fs_key fs src = Some k" "fs_key fs dst = Some k'" "fs_node fs k = Some (File b)" "\<not> is_dir fs k'"
    "fs' = (if k = k' then fs else fs_put (fs_del fs k) k' (File b))"
    using assms by (rule rename_file_InrE)
  then have nd: "\<not> is_dir fs k" by (simp add: is_dir_def)
  then have nd': "\<not> is_dir (fs_del fs k) k'" using r(4) by (simp add: fs_simps)
  show "cwd fs' = cwd fs" "no_read fs' = no_read fs" "no_write fs' = no_write fs"
    "is_dir fs' d = is_dir fs d" "fs_key fs' q = fs_key fs q"
    using r(5) nd nd' by (simp_all add: fs_simps)
qed

lemma read_rename:
  assumes "rename_file fs src dst = Inr fs'" and "\<And>k. \<not> no_read fs k"
  shows "read_file fs' dst = read_file fs src"
    and "fs_key fs q \<noteq> fs_key fs src \<Longrightarrow> fs_key fs q \<noteq> fs_key fs dst \<Longrightarrow> read_file fs' q = read_file fs q"
proof -
  obtain k k' b where r: "fs_key fs src = Some k" "fs_key fs dst = Some k'" "fs_node fs k = Some (File b)" "\<not> is_dir fs k'"
    "fs' = (if k = k' then fs else fs_put (fs_del fs k) k' (File b))"
    using assms(1) by (rule rename_file_InrE)
  have "k' \<noteq> []" "k \<noteq> []" using r(3,4) by auto
  then have n: "fs_node fs' x = (if x = k' then Some (File b) else if x = k then None else fs_node fs x)" if "x \<noteq> []" for x
    using r(3,5) that by (auto simp: fs_simps)
  have f: "no_read fs' = no_read fs" "fs_key fs' p = fs_key fs p" for p
    using rename_file_frame [OF assms(1)] by auto
  show "read_file fs' dst = read_file fs src"
    using r(1-3) n [OF \<open>k' \<noteq> []\<close>] assms(2) by (simp add: read_file_def f)
  show "read_file fs' q = read_file fs q" if q: "fs_key fs q \<noteq> fs_key fs src" "fs_key fs q \<noteq> fs_key fs dst"
  proof (cases "fs_key fs q")
    case (Some x)
    have "fs_node fs' x = fs_node fs x"
      using n [of x] q r(1,2) Some by (cases "x = []") simp_all
    with Some show ?thesis by (simp add: read_file_def f)
  qed (simp add: read_file_def f)
qed

end
