(* ===== verification/Ipfs.thy ===== *)
theory Ipfs
  imports Regutil Image Http FileSys
begin

text \<open>
  The world outside the server and the IPFS client, \<open>ipfs/ipfs.go\<close>. The HTTP client, the
  IPFS daemon behind \<open>go-ipfs-api\<close>, DNS, the random source, the names of
  temporary directories, external commands and the CID
  package are the fields of \<open>services\<close>: functions of a world state of type \<open>'w\<close> that
  return the next world, so that two equal questions may have different answers.
\<close>

section \<open>Services\<close>

text \<open>
  A node of a tree that is sent to \<open>ipfs add\<close> (\<open>files.NewBytesFile\<close>,
  \<open>files.NewMapDirectory\<close>, \<open>files.NewSliceDirectory\<close>).
\<close>

datatype ftree = FFile bytes | FDir "string \<rightharpoonup> ftree"

text \<open>
  What \<open>Send\<close> of an API request gives: an error of the transport, an error reply, or an
  output whose decoder yields JSON values until the end of input or a first error.
\<close>

datatype api_reply =
    SendFailed go_error
  | ReplyError go_error
  | ReplyOutput "json list" "go_error option"

text \<open>The reply to a \<open>POST\<close> whose body is read by a JSON decoder: status, values, first error.\<close>

record json_reply =
  jr_code :: nat
  jr_status :: string
  jr_values :: "json list"
  jr_error :: "go_error option"

record 'w services =
  http_get :: "'w \<Rightarrow> string \<Rightarrow> 'w \<times> http_reply result"
  http_head :: "'w \<Rightarrow> string \<Rightarrow> 'w \<times> http_reply result"
  http_post :: "'w \<Rightarrow> string \<Rightarrow> 'w \<times> json_reply result"
  api_add :: "'w \<Rightarrow> string \<Rightarrow> ftree \<Rightarrow> 'w \<times> api_reply"
  api_ls :: "'w \<Rightarrow> string \<Rightarrow> string \<Rightarrow> 'w \<times> string list result"
  api_cat :: "'w \<Rightarrow> string \<Rightarrow> string \<Rightarrow> 'w \<times> bytes result result"
  api_refs :: "'w \<Rightarrow> string \<Rightarrow> string \<Rightarrow> bool \<Rightarrow> 'w \<times> string list result"
  api_get :: "'w \<Rightarrow> file_system \<Rightarrow> string \<Rightarrow> string \<Rightarrow> string \<Rightarrow> ('w \<times> file_system) \<times> go_error option"
  lookup_txt :: "'w \<Rightarrow> string \<Rightarrow> 'w \<times> string list result"
  rand_int63 :: "'w \<Rightarrow> 'w \<times> nat"
  tmp_name :: "'w \<Rightarrow> 'w \<times> string"
  exec_output :: "'w \<Rightarrow> string list \<Rightarrow> 'w \<times> bytes result"
  cid_pkg :: cid_lib

text \<open>\<open>http.Head(uri)\<close>: whatever the server sends, the body of the reply reads as empty.\<close>

definition http_Head :: "'w services \<Rightarrow> 'w \<Rightarrow> string \<Rightarrow> 'w \<times> http_reply result" where
  "http_Head sv w uri =
     (case http_head sv w uri of
        (w', Inl e) \<Rightarrow> (w', Inl e)
      | (w', Inr r) \<Rightarrow> (w', Inr (r\<lparr>rp_body := Inr []\<rparr>)))"

section \<open>The client\<close>

text \<open>\<open>client\<close> is the API shell, given by the URL it was made for.\<close>

record ipfs_client =
  shell_url :: string
  isRemote :: bool
  host :: string
  gatewayURL :: string

text \<open>\<open>getIpfsAPIURL\<close> and \<open>getIpfsGatewayPort\<close> ask the installed \<open>ipfs\<close> program.\<close>

definition getIpfsAPIURL :: "'w services \<Rightarrow> 'w \<Rightarrow> 'w \<times> string result" where
  "getIpfsAPIURL sv w =
     (case exec_output sv w [''ipfs'', ''config'', ''Addresses.API''] of
        (w', Inl e) \<Rightarrow> (w', Inl e)
      | (w', Inr o') \<Rightarrow> (w', Inr (trim_space o')))"

definition getIpfsGatewayPort :: "'w services \<Rightarrow> 'w \<Rightarrow> 'w \<times> string result" where
  "getIpfsGatewayPort sv w =
     (case exec_output sv w [''ipfs'', ''config'', ''Addresses.Gateway''] of
        (w', Inl e) \<Rightarrow> (w', Inl e)
      | (w', Inr o') \<Rightarrow> (w', Inr (last (split_on (CHR ''/'') (trim_space o')))))"

definition HostGatewayURL :: "'w services \<Rightarrow> 'w \<Rightarrow> 'w \<times> string result" where
  "HostGatewayURL sv w =
     (case getIpfsGatewayPort sv w of
        (w', Inl e) \<Rightarrow> (w', Inl e)
      | (w', Inr port) \<Rightarrow> (w', Inr (''http://127.0.0.1:'' @ port)))"

text \<open>
  \<open>NewRemoteClient\<close>: without a configured host the daemon's address is asked for (and the
  program ends, \<open>log.Fatal\<close>, if there is none), but the shell is made for the empty URL.
\<close>

definition NewRemoteClient :: "'w services \<Rightarrow> 'w \<Rightarrow> string \<Rightarrow> string \<Rightarrow> 'w \<times> ipfs_client outcome" where
  "NewRemoteClient sv w cfg_host cfg_gateway =
     (if cfg_host = []
      then (case getIpfsAPIURL sv w of
              (w', Inl e) \<Rightarrow> (w', Panicked)
            | (w', Inr h) \<Rightarrow>
                (w', Done \<lparr>shell_url = cfg_host, isRemote = True, host = h, gatewayURL = cfg_gateway\<rparr>))
      else (w, Done \<lparr>shell_url = cfg_host, isRemote = True, host = cfg_host, gatewayURL = cfg_gateway\<rparr>))"

text \<open>\<open>Cat\<close> with the reader drained by the caller, and the link names of \<open>List\<close>.\<close>

definition Cat :: "'w services \<Rightarrow> 'w \<Rightarrow> ipfs_client \<Rightarrow> string \<Rightarrow> 'w \<times> bytes result result" where
  "Cat sv w cl p = api_cat sv w (shell_url cl) p"

definition List_links :: "'w services \<Rightarrow> 'w \<Rightarrow> ipfs_client \<Rightarrow> string \<Rightarrow> 'w \<times> string list result" where
  "List_links sv w cl p = api_ls sv w (shell_url cl) p"

subsection \<open>Adding an image\<close>

text \<open>The member \<open>Hash\<close> of a decoded \<open>object\<close>; \<open>None\<close> is a type error of the decoder.\<close>

fun object_members :: "(string \<times> json) list \<Rightarrow> string \<Rightarrow> string option" where
  "object_members [] h = Some h"
| "object_members ((k, v) # ms) h =
     (if field_is k ''Hash''
      then (case decode_str v h of None \<Rightarrow> None | Some h' \<Rightarrow> object_members ms h')
      else object_members ms h)"

fun decode_object :: "json \<Rightarrow> string option" where
  "decode_object JNull = Some []"
| "decode_object (JObj ms) = object_members ms []"
| "decode_object _ = None"

text \<open>The loop over the decoder: the hash of the last object, or the first error.\<close>

fun final_hash :: "json list \<Rightarrow> go_error option \<Rightarrow> string \<Rightarrow> string result" where
  "final_hash [] None final = Inr final"
| "final_hash [] (Some e) final = Inl e"
| "final_hash (j # js) e final =
     (case decode_object j of
        None \<Rightarrow> Inl (GoError ''json: cannot unmarshal into Go struct field object.Hash of type string'')
      | Some h \<Rightarrow> final_hash js e h)"

text \<open>The tree of an image: \<open>image/manifests\<close> and \<open>image/blobs\<close>.\<close>

definition image_tree :: "(string \<rightharpoonup> bytes) \<Rightarrow> (string \<rightharpoonup> bytes) \<Rightarrow> ftree" where
  "image_tree mfs lys =
     FDir [''image'' \<mapsto>
       FDir [''blobs'' \<mapsto> FDir (map_option FFile \<circ> lys),
             ''manifests'' \<mapsto> FDir (map_option FFile \<circ> mfs)]]"

text \<open>A transport error is answered by \<open>return "", nil\<close>.\<close>

definition AddImage :: "'w services \<Rightarrow> 'w \<Rightarrow> ipfs_client \<Rightarrow> (string \<rightharpoonup> bytes) \<Rightarrow> (string \<rightharpoonup> bytes) \<Rightarrow>
    'w \<times> string result" where
  "AddImage sv w cl mfs lys =
     (case api_add sv w (shell_url cl) (image_tree mfs lys) of
        (w', SendFailed e) \<Rightarrow> (w', Inr [])
      | (w', ReplyError e) \<Rightarrow> (w', Inl e)
      | (w', ReplyOutput js e) \<Rightarrow>
          (case final_hash js e [] of
             Inl e' \<Rightarrow> (w', Inl e')
           | Inr final \<Rightarrow>
               (w', if final = [] then Inl (GoError ''no results received'') else Inr final)))"

lemma AddImage_empty_iff:
  "AddImage sv w cl mfs lys = (w', Inr []) \<longleftrightarrow>
     (\<exists>e. api_add sv w (shell_url cl) (image_tree mfs lys) = (w', SendFailed e))"
  by (auto simp: AddImage_def split: prod.splits api_reply.splits sum.splits)

lemma final_hash_append:
  "final_hash (js @ [JObj [(''Name'', n), (''Hash'', JStr h)]]) None f =
     (case final_hash js None f of Inl e \<Rightarrow> Inl e | Inr _ \<Rightarrow> Inr h)"
  by (induction js arbitrary: f) (auto simp: field_is_def to_lower_def to_lower_char_def split: option.splits)

section \<open>Content of a CID\<close>

text \<open>\<open>getContent\<close> of \<open>server/registry/util.go\<close>: what the gateway serves below a CID.\<close>

definition getContent :: "'w services \<Rightarrow> 'w \<Rightarrow> string \<Rightarrow> string \<Rightarrow> string list \<Rightarrow> 'w \<times> bytes result" where
  "getContent sv w gw cid s =
     (case http_get sv w (IpfsURL gw (cid # s)) of
        (w', Inl e) \<Rightarrow> (w', Inl e)
      | (w', Inr resp) \<Rightarrow>
          (w', if rp_code resp \<noteq> StatusOK
               then Inl (GoError (''cid: '' @ cid @ '' '' @ rp_status resp))
               else rp_body resp))"

text \<open>\<open>Dig\<close> of \<open>regutil/regutil.go\<close>: the client side of \<open>/dig\<close> (for a
  status line without a percent sign, which \<open>Errorf\<close> takes as its format).\<close>

definition bool_str :: "bool \<Rightarrow> string" where
  "bool_str b = (if b then ''true'' else ''false'')"

definition Dig :: "'w services \<Rightarrow> 'w \<Rightarrow> string \<Rightarrow> bool \<Rightarrow> string \<Rightarrow> 'w \<times> string result" where
  "Dig sv w gw short name =
     (case http_get sv w (''http://'' @ gw @ ''/dig?q='' @ name @ ''&short='' @ bool_str short) of
        (w', Inl e) \<Rightarrow> (w', Inl e)
      | (w', Inr resp) \<Rightarrow>
          (w', if rp_code resp \<noteq> StatusOK then Inl (GoError (rp_status resp)) else rp_body resp))"

section \<open>A machine without a network\<close>

text \<open>Every request fails and every string is an invalid CID.\<close>

definition no_cids :: cid_lib where
  "no_cids = \<lparr>cid_decode = (\<lambda>s. Inl (GoError ''invalid cid'')),
     cid_v1_b32 = (\<lambda>c h. Inl (GoError ''invalid cid'')), mh_b58 = Encode58\<rparr>"

definition offline :: "'w services" where
  "offline =
     \<lparr>http_get = (\<lambda>w u. (w, Inl (GoError ''no route''))), http_head = (\<lambda>w u. (w, Inl (GoError ''no route''))),
      http_post = (\<lambda>w u. (w, Inl (GoError ''no route''))),
      api_add = (\<lambda>w u t. (w, SendFailed (GoError ''no route''))),
      api_ls = (\<lambda>w u p. (w, Inl (GoError ''no route''))), api_cat = (\<lambda>w u p. (w, Inl (GoError ''no route''))),
      api_refs = (\<lambda>w u h r. (w, Inl (GoError ''no route''))),
      api_get = (\<lambda>w fs u h p. ((w, fs), Some (GoError ''no route''))),
      lookup_txt = (\<lambda>w d. (w, Inl (GoError ''no such host''))), rand_int63 = (\<lambda>w. (w, 7)),
      tmp_name = (\<lambda>w. (w, ''/tmp/x'')),
      exec_output = (\<lambda>w a. (w, Inl (GoError ''not found''))), cid_pkg = no_cids\<rparr>"

end
