(* ===== verification/CidStore.thy ===== *)
theory CidStore
  imports FileSys
begin

text \<open>
  The store of known content IDs, \<open>server/registry/cids.go\<close>: a map from
  \<open>repo:reference\<close> to a CID, backed by one file per name and tag below a directory. The
  read-write lock around both operations is released on every path, so each operation is
  one atomic step.

  The interface the rest of the server relies on is the locale \<open>cid_index\<close>: what was
  added under a repository and reference is what a later lookup returns.
\<close>

section \<open>The interface\<close>

locale cid_index =
  fixes add :: "'s \<Rightarrow> string \<Rightarrow> string \<Rightarrow> string \<Rightarrow> 's"
    and get :: "'s \<Rightarrow> string \<Rightarrow> string \<Rightarrow> string option"
    and held :: "'s \<Rightarrow> string \<Rightarrow> string \<Rightarrow> string option"
    and slot :: "string \<Rightarrow> string \<Rightarrow> 'k"
  assumes get_held: "held s r t = Some c \<Longrightarrow> get s r t = Some c"
    and held_add: "held (add s r t c) r' t' = (if slot r' t' = slot r t then Some c else held s r' t')"
begin

lemma get_add_same: "get (add s r t c) r t = Some c"
  by (rule get_held) (simp add: held_add)

lemma get_add_other:
  "held s r' t' = Some c' \<Longrightarrow> slot r' t' \<noteq> slot r t \<Longrightarrow> get (add s r t c) r' t' = Some c'"
  by (rule get_held) (simp add: held_add)

text \<open>Adding the same CID under each of a list of references of one repository.\<close>

lemma held_add_all_keep:
  "held s r t = Some c \<Longrightarrow> held (foldl (\<lambda>s t. add s r t c) s ts) r t = Some c"
  by (induction ts arbitrary: s) (auto simp: held_add)

lemma held_add_all: "t \<in> set ts \<Longrightarrow> held (foldl (\<lambda>s t. add s r t c) s ts) r t = Some c"
  by (induction ts arbitrary: s) (auto simp: held_add held_add_all_keep)

lemma get_add_all: "t \<in> set ts \<Longrightarrow> get (foldl (\<lambda>s t. add s r t c) s ts) r t = Some c"
  by (rule get_held) (rule held_add_all)

lemma held_add_all_other:
  "\<forall>t \<in> set ts. slot r' t' \<noteq> slot r t \<Longrightarrow>
     held (foldl (\<lambda>s t. add s r t c) s ts) r' t' = held s r' t'"
  by (induction ts arbitrary: s) (auto simp: held_add)

end

section \<open>The code\<close>

record cid_store =
  cids :: "string \<rightharpoonup> string"
  location :: string

definition new_cid_store :: "string \<Rightarrow> cid_store" where
  "new_cid_store loc = \<lparr>cids = Map.empty, location = loc\<rparr>"

definition key :: "string \<Rightarrow> string \<Rightarrow> string" where
  "key repo ref = repo @ '':'' @ ref"

text \<open>The file of a key: \<open>pc := SplitN(key, ":", 2)\<close>, \<open>p := Join(location, Join(pc, "/"))\<close>.\<close>

definition cid_path :: "string \<Rightarrow> string \<Rightarrow> string" where
  "cid_path loc k = path_join [loc, join ''/'' (splitn2 (CHR '':'') k)]"

definition read_cid :: "cid_store \<Rightarrow> file_system \<Rightarrow> string \<Rightarrow> string result" where
  "read_cid st fs k = read_file fs (cid_path (location st) k)"

definition write_cid :: "cid_store \<Rightarrow> file_system \<Rightarrow> string \<Rightarrow> string \<Rightarrow> file_system \<times> go_error option" where
  "write_cid st fs k val =
     (let p = cid_path (location st) k in
      case mkdir_all fs (path_dir p) of
        (fs', Some e) \<Rightarrow> (fs', Some e)
      | (fs', None) \<Rightarrow>
          (case write_file fs' p val of
             Inl e \<Rightarrow> (fs', Some e)
           | Inr fs'' \<Rightarrow> (fs'', None)))"

text \<open>\<open>Add\<close>: the error of \<open>writeCID\<close> is dropped, as in the code.\<close>

definition store_add :: "cid_store \<times> file_system \<Rightarrow> string \<Rightarrow> string \<Rightarrow> string \<Rightarrow> cid_store \<times> file_system" where
  "store_add s repo ref cid =
     (let k = key repo ref;
          st' = (fst s)\<lparr>cids := (cids (fst s))(k \<mapsto> cid)\<rparr>
      in if repo \<noteq> cid \<and> \<not> has_prefix ref ''sha256:''
         then (st', fst (write_cid st' (snd s) k cid))
         else (st', snd s))"

definition store_get :: "cid_store \<times> file_system \<Rightarrow> string \<Rightarrow> string \<Rightarrow> string option" where
  "store_get s repo ref =
     (let k = key repo ref in
      case cids (fst s) k of
        Some v \<Rightarrow> Some v
      | None \<Rightarrow> (case read_cid (fst s) (snd s) k of Inl e \<Rightarrow> None | Inr v \<Rightarrow> Some v))"

definition store_held :: "cid_store \<times> file_system \<Rightarrow> string \<Rightarrow> string \<Rightarrow> string option" where
  "store_held s repo ref = cids (fst s) (key repo ref)"

interpretation ci: cid_index store_add store_get store_held key
  by unfold_locales (auto simp: store_get_def store_held_def store_add_def Let_def)

section \<open>Keys\<close>

lemma key_eq_iff:
  assumes "CHR '':'' \<notin> set r" and "CHR '':'' \<notin> set r'"
  shows "key r t = key r' t' \<longleftrightarrow> r = r' \<and> t = t'"
proof
  assume "key r t = key r' t'"
  then have "splitn2 (CHR '':'') (r @ CHR '':'' # t) = splitn2 (CHR '':'') (r' @ CHR '':'' # t')"
    by (simp add: key_def)
  then show "r = r' \<and> t = t'" using assms by (simp add: splitn2_append)
qed simp

lemma store_add_location [simp]: "location (fst (store_add s r t c)) = location (fst s)"
  by (simp add: store_add_def Let_def)

section \<open>The file of a well-formed name\<close>

definition name_comps :: "string \<Rightarrow> string list" where
  "name_comps repo = split_on (CHR ''/'') repo"

text \<open>A repository name as the registry API has it: non-empty components, no colon.\<close>

definition wf_name :: "string \<Rightarrow> bool" where
  "wf_name repo = (list_all plain_comp (name_comps repo) \<and> CHR '':'' \<notin> set repo)"

lemma join_name: "join ''/'' [repo, ref] = join ''/'' (name_comps repo @ [ref])"
  using join_split_on [of "CHR ''/''" repo] by (simp add: join_snoc name_comps_def)

lemma cid_path_wf:
  assumes "rooted loc" and "wf_name repo" and "plain_comp ref"
  shows "cid_path loc (key repo ref) = abs_path (clean_path_comps loc @ name_comps repo @ [ref])"
proof -
  have "splitn2 (CHR '':'') (key repo ref) = [repo, ref]"
    using assms(2) by (simp add: key_def wf_name_def splitn2_append)
  then have "cid_path loc (key repo ref) = path_join [loc, join ''/'' (name_comps repo @ [ref])]"
    by (simp add: cid_path_def join_name del: join.simps)
  also have "\<dots> = abs_path (clean_path_comps loc @ name_comps repo @ [ref])"
    using assms by (intro path_join_plain) (auto simp: wf_name_def)
  finally show ?thesis .
qed

lemma fs_key_abs_path:
  assumes "list_all plain_comp cs" and "\<And>n. n < length cs \<Longrightarrow> is_dir fs (take n cs)"
  shows "fs_key fs (abs_path cs) = Some cs"
  using assms fs_walk_plain [of cs fs "[]"]
  by (auto simp: fs_key_def split_abs_path)

lemma fs_key_abs_path_SomeD:
  assumes "fs_key fs (abs_path cs) = Some k" and "list_all plain_comp cs"
  shows "k = cs"
  using assms fs_walk_plain_dirs [of fs "[]" cs k]
  by (auto simp: fs_key_def split_abs_path split: if_splits)

lemma abs_comps_abs_path: "list_all plain_comp cs \<Longrightarrow> abs_comps fs (abs_path cs) = cs"
  by (auto simp: abs_comps_def split_abs_path clean_comps_plain)

text \<open>
  Making the directories on the way to a file, provided no plain file is in the way and
  the kernel lets us.
\<close>

lemma mk_dirs_ok:
  assumes "\<And>n b. n \<le> length cs \<Longrightarrow> fs_node fs (cur @ take n cs) \<noteq> Some (File b)"
    and "\<And>k. \<not> no_write fs k"
  shows "snd (mk_dirs fs cur cs) = None"
  using assms
proof (induction fs cur cs rule: mk_dirs.induct)
  case (2 fs cur c cs)
  have nf: "fs_node fs ((cur @ [c]) @ take n cs) \<noteq> Some (File b)" if "n \<le> length cs" for n b
    using "2.prems"(1) [of "Suc n"] that by simp
  show ?case
  proof (cases "fs_node fs (cur @ [c])")
    case None
    have "snd (mk_dirs (fs_put fs (cur @ [c]) Dir) (cur @ [c]) cs) = None"
      by (rule "2.IH"(1) [OF None]) (use "2.prems"(2) nf in \<open>auto simp: fs_simps\<close>)
    with None "2.prems"(2) show ?thesis by simp
  next
    case (Some nd)
    with nf [of 0] have nd: "nd = Dir" by (cases nd) auto
    have "snd (mk_dirs fs (cur @ [c]) cs) = None"
      by (rule "2.IH"(2) [OF Some nd]) (use "2.prems"(2) nf in auto)
    with Some nd show ?thesis by simp
  qed
qed simp

text \<open>What the disk must allow for the mapping of one name and tag to be written below \<open>loc\<close>.\<close>

definition disk_ready :: "file_system \<Rightarrow> string list \<Rightarrow> bool" where
  "disk_ready fs cs =
     ((\<forall>n < length cs. \<forall>b. fs_node fs (take n cs) \<noteq> Some (File b)) \<and> \<not> is_dir fs cs
      \<and> (\<forall>k. \<not> no_write fs k) \<and> (\<forall>k. \<not> no_read fs k))"

text \<open>The only directories it adds are the ones on the way.\<close>

lemma mk_dirs_only:
  "is_dir (fst (mk_dirs fs cur cs)) k \<Longrightarrow> is_dir fs k \<or> (\<exists>n \<le> length cs. k = cur @ take n cs)"
proof (induction fs cur cs rule: mk_dirs.induct)
  case (2 fs cur c cs)
  have step: "\<exists>n \<le> length (c # cs). k = cur @ take n (c # cs)"
    if "\<exists>n \<le> length cs. k = (cur @ [c]) @ take n cs"
  proof -
    from that obtain n where "n \<le> length cs" "k = (cur @ [c]) @ take n cs" by blast
    then show ?thesis by (intro exI [of _ "Suc n"]) simp
  qed
  show ?case
  proof (cases "fs_node fs (cur @ [c])")
    case None
    show ?thesis
    proof (cases "no_write fs (cur @ [c])")
      case True
      with None "2.prems" show ?thesis by simp
    next
      case False
      with None "2.prems" "2.IH"(1) [OF None False]
      have "is_dir (fs_put fs (cur @ [c]) Dir) k \<or> (\<exists>n \<le> length cs. k = (cur @ [c]) @ take n cs)"
        by simp
      moreover have "k = (cur @ [c]) @ take 0 cs" if "is_dir (fs_put fs (cur @ [c]) Dir) k" "\<not> is_dir fs k"
        using that by (auto simp: is_dir_def fs_simps split: if_splits)
      ultimately show ?thesis using step by blast
    qed
  next
    case (Some nd)
    show ?thesis
    proof (cases nd)
      case Dir
      with Some "2.prems" "2.IH"(2) [OF Some Dir] step show ?thesis by auto
    next
      case (File b)
      with Some "2.prems" show ?thesis by simp
    qed
  qed
qed simp

lemma write_cid_stored:
  assumes "list_all plain_comp (cs @ [c])" and "cid_path (location st) k = abs_path (cs @ [c])"
    and "disk_ready fs (cs @ [c])"
  shows "snd (write_cid st fs k v) = None \<and>
         read_file (fst (write_cid st fs k v)) (abs_path (cs @ [c])) = Inr v"
proof -
  let ?fs' = "fst (mk_dirs fs [] cs)"
  have "fs_node fs (take n cs) \<noteq> Some (File b)" if "n \<le> length cs" for n b
    using assms(3) that unfolding disk_ready_def by (auto dest!: spec [of _ n])
  then have ok: "snd (mk_dirs fs [] cs) = None"
    using assms(3) by (intro mk_dirs_ok) (auto simp: disk_ready_def)
  then have mk: "mkdir_all fs (path_dir (abs_path (cs @ [c]))) = (?fs', None)"
    using assms(1) by (simp add: mkdir_all_def path_dir_abs_path abs_comps_abs_path prod_eq_iff)
  have frame: "no_write ?fs' = no_write fs" "no_read ?fs' = no_read fs"
    using mk_dirs_frame [of fs "[]" cs] by simp_all
  have "is_dir ?fs' (take n (cs @ [c]))" if "n < length (cs @ [c])" for n
    using mk_dirs_dirs [OF ok, of n] that by simp
  then have k: "fs_key ?fs' (abs_path (cs @ [c])) = Some (cs @ [c])"
    by (intro fs_key_abs_path) (use assms(1) in auto)
  show ?thesis
  proof (cases "is_dir ?fs' (cs @ [c])")
    case True
    with mk_dirs_only [of fs "[]" cs "cs @ [c]"] assms(3) show ?thesis
      by (auto simp: disk_ready_def dest: arg_cong [of _ _ length])
  next
    case False
    then obtain fs'' where w: "write_file ?fs' (abs_path (cs @ [c])) v = Inr fs''"
      using k assms(3) frame by (simp add: write_file_def disk_ready_def)
    moreover have "read_file fs'' (abs_path (cs @ [c])) = Inr v"
      by (rule read_write_same [OF w]) (use assms(3) frame in \<open>simp add: disk_ready_def\<close>)
    ultimately show ?thesis
      using mk assms(2) by (simp add: write_cid_def)
  qed
qed

section \<open>Persistence\<close>

lemma store_add_read:
  assumes "rooted (location (fst s))" and "wf_name repo" and "plain_comp ref"
    and "\<not> has_prefix ref ''sha256:''" and "repo \<noteq> cid"
    and "disk_ready (snd s) (clean_path_comps (location (fst s)) @ name_comps repo @ [ref])"
  shows "read_file (snd (store_add s repo ref cid))
           (abs_path (clean_path_comps (location (fst s)) @ name_comps repo @ [ref])) = Inr cid"
proof -
  let ?cs = "clean_path_comps (location (fst s)) @ name_comps repo"
  let ?st = "(fst s)\<lparr>cids := (cids (fst s))(key repo ref \<mapsto> cid)\<rparr>"
  have "read_file (fst (write_cid ?st (snd s) (key repo ref) cid)) (abs_path (?cs @ [ref])) = Inr cid"
    using assms cid_path_wf [OF assms(1-3)]
    by (intro write_cid_stored [THEN conjunct2]) (auto simp: wf_name_def)
  then show ?thesis using assms(4,5) by (simp add: store_add_def Let_def)
qed

text \<open>
  A name and tag that were added survive a restart of the server. If the name and the
  tag are well formed and the disk lets the store write below its directory, then a new
  store over the disk that \<open>Add\<close> left answers \<open>Get\<close> with the CID that was added.
\<close>
theorem added_tag_survives_restart:
  assumes "rooted (location (fst s))" and "wf_name repo" and "plain_comp ref"
    and "\<not> has_prefix ref ''sha256:''" and "repo \<noteq> cid"
    and "disk_ready (snd s) (clean_path_comps (location (fst s)) @ name_comps repo @ [ref])"
  shows "store_get (new_cid_store (location (fst s)), snd (store_add s repo ref cid)) repo ref = Some cid"
  using store_add_read [OF assms]
  by (simp add: store_get_def new_cid_store_def read_cid_def cid_path_wf [OF assms(1-3)])

definition empty_disk :: file_system where
  "empty_disk = \<lparr>nodes = [], cwd = [], no_read = (\<lambda>_. False), no_write = (\<lambda>_. False)\<rparr>"

lemma fs_node_empty_disk: "fs_node empty_disk k = (if k = [] then Some Dir else None)"
  by (simp add: fs_node_def empty_disk_def)

lemma disk_ready_empty: "cs \<noteq> [] \<Longrightarrow> disk_ready empty_disk cs"
  by (simp add: disk_ready_def fs_node_empty_disk is_dir_def) (simp add: empty_disk_def)

theorem added_tag_survives_restart_witness:
  "store_get (new_cid_store ''/c'', snd (store_add (new_cid_store ''/c'', empty_disk) ''lib/hello'' ''v1'' ''bafy''))
     ''lib/hello'' ''v1'' = Some ''bafy''"
proof -
  have "location (fst (new_cid_store ''/c'', empty_disk)) = ''/c''" by (simp add: new_cid_store_def)
  then show ?thesis
    using added_tag_survives_restart [of "(new_cid_store ''/c'', empty_disk)" "''lib/hello''" "''v1''" "''bafy''"]
    by (simp add: rooted_def wf_name_def name_comps_def plain_comp_def disk_ready_empty)
qed

text \<open>
  Only names and tags go to disk. A reference that is a digest, or a CID used as its
  own repository name, leaves the disk as it was, and \<open>Get\<close> still returns it from memory.
\<close>
theorem digest_reference_stays_in_memory:
  assumes "has_prefix ref ''sha256:'' \<or> repo = cid"
  shows "snd (store_add s repo ref cid) = snd s \<and> store_get (store_add s repo ref cid) repo ref = Some cid"
  using assms ci.get_add_same by (auto simp: store_add_def Let_def)

theorem digest_reference_stays_in_memory_witness:
  "snd (store_add (new_cid_store ''/c'', empty_disk) ''a'' ''sha256:00'' ''bafy'') = empty_disk"
  using digest_reference_stays_in_memory [of "''sha256:00''" "''a''" "''bafy''" "(new_cid_store ''/c'', empty_disk)"]
  by simp

section \<open>Confinement\<close>

text \<open>
  A lookup of a well-formed name and tag can only read the one file below the store's
  directory that belongs to it.
\<close>
theorem wf_lookup_confined:
  assumes "rooted loc" and "wf_name repo" and "plain_comp ref"
    and "fs_key fs (cid_path loc (key repo ref)) = Some k"
  shows "k = clean_path_comps loc @ name_comps repo @ [ref]"
  using assms by (auto simp: cid_path_wf wf_name_def intro!: fs_key_abs_path_SomeD)

theorem wf_lookup_confined_witness:
  "fs_key (fs_put empty_disk [''c''] Dir) (cid_path ''/c'' (key ''a'' ''t'')) = None \<or>
   fs_key (fs_put empty_disk [''c''] Dir) (cid_path ''/c'' (key ''a'' ''t'')) = Some [''c'', ''a'', ''t'']"
  using wf_lookup_confined [of "''/c''" "''a''" "''t''" "fs_put empty_disk [''c''] Dir"]
  by (cases "fs_key (fs_put empty_disk [''c''] Dir) (cid_path ''/c'' (key ''a'' ''t''))")
     (simp_all add: rooted_def wf_name_def name_comps_def plain_comp_def clean_path_comps_def)

lemma clean_comps_up:
  "list_all plain_comp acc \<Longrightarrow> length acc \<le> m \<Longrightarrow>
     clean_comps True acc (replicate m ''..'' @ cs) = clean_comps True [] cs"
proof (induction m arbitrary: acc)
  case (Suc m)
  then show ?case by (cases acc) (auto simp: plain_comp_def)
qed simp

definition escape_name :: "string \<Rightarrow> string list \<Rightarrow> string" where
  "escape_name loc cs = join ''/'' (replicate (Suc (length (clean_path_comps loc))) ''..'' @ cs)"

lemma escape_name_facts:
  assumes "\<forall>x \<in> set cs. CHR '':'' \<notin> set x"
  shows "CHR '':'' \<notin> set (escape_name loc cs)" and "escape_name loc cs \<noteq> []"
proof -
  show "CHR '':'' \<notin> set (escape_name loc cs)"
    unfolding escape_name_def using assms by (intro not_in_join) auto
  show "escape_name loc cs \<noteq> []"
    by (cases "replicate (length (clean_path_comps loc)) ''..'' @ cs") (auto simp: escape_name_def)
qed

lemma cid_path_escape:
  assumes "rooted loc" and "list_all plain_comp (cs @ [c])" and "\<forall>x \<in> set cs. CHR '':'' \<notin> set x"
  shows "cid_path loc (key (escape_name loc cs) c) = abs_path (cs @ [c])"
proof -
  let ?up = "replicate (Suc (length (clean_path_comps loc))) ''..''"
  let ?xs = "?up @ cs @ [c]"
  note nc = escape_name_facts(1) [OF assms(3), of loc] and ne = escape_name_facts(2) [OF assms(3), of loc]
  have "join ''/'' [escape_name loc cs, c] = join ''/'' ?xs"
    using join_snoc [of "?up @ cs" "''/''" c] by (simp add: escape_name_def)
  moreover have "splitn2 (CHR '':'') (key (escape_name loc cs) c) = [escape_name loc cs, c]"
    using nc by (simp add: key_def splitn2_append)
  ultimately have "cid_path loc (key (escape_name loc cs) c) = path_join [loc, join ''/'' ?xs]"
    by (simp add: cid_path_def del: join.simps)
  also have "\<dots> = path_clean (loc @ CHR ''/'' # join ''/'' ?xs)"
  proof -
    have "join ''/'' ?xs \<noteq> []" "loc \<noteq> []"
      using assms(1) by (cases "replicate (length (clean_path_comps loc)) ''..'' @ cs @ [c]";
        auto simp: rooted_def)+
    then show ?thesis by (simp add: path_join_def del: replicate.simps)
  qed
  also have "\<dots> = abs_path (clean_comps True [] (split_on (CHR ''/'') loc @ ?xs))"
    using assms(1,2) split_on_join [of ?xs "CHR ''/''"]
    by (auto simp: path_clean_rooted rooted_append clean_path_comps_def split_on_append_sep
        list_all_iff plain_comp_def simp del: replicate.simps join.simps)
  also have "clean_comps True [] (split_on (CHR ''/'') loc @ ?xs) = cs @ [c]"
    using assms(2) clean_comps_up [of "rev (clean_path_comps loc)" "Suc (length (clean_path_comps loc))" "cs @ [c]"]
    by (simp add: clean_comps_append [of _ _ "split_on (CHR ''/'') loc"] clean_comps_plain
        flip: clean_path_comps_def del: replicate.simps)
  finally show ?thesis .
qed

text \<open>
  A name made of \<open>..\<close> components escapes the store: whatever the store's directory is,
  \<open>Get\<close> returns the content of any file that the process can read.
\<close>

lemma store_get_escape:
  assumes "rooted (location (fst s))" and "list_all plain_comp (cs @ [c])" and "\<forall>x \<in> set cs. CHR '':'' \<notin> set x"
    and "\<forall>n \<le> length cs. is_dir (snd s) (take n cs)" and "fs_node (snd s) (cs @ [c]) = Some (File content)"
    and "\<not> no_read (snd s) (cs @ [c])" and "store_held s (escape_name (location (fst s)) cs) c = None"
  shows "store_get s (escape_name (location (fst s)) cs) c = Some content"
proof -
  have "fs_key (snd s) (abs_path (cs @ [c])) = Some (cs @ [c])"
    using assms(2,4) by (intro fs_key_abs_path) auto
  with assms show ?thesis
    by (simp add: store_get_def store_held_def read_cid_def cid_path_escape read_file_def)
qed

definition secret_disk :: file_system where
  "secret_disk = fs_put (fs_put empty_disk [''etc''] Dir) [''etc'', ''shadow''] (File ''root'')"

lemma secret_disk_simps:
  "\<forall>n \<le> length [''etc'']. is_dir secret_disk (take n [''etc''])"
  "fs_node secret_disk [''etc'', ''shadow''] = Some (File ''root'')" "\<not> no_read secret_disk k"
  by (simp_all add: secret_disk_def le_Suc_eq is_dir_def fs_simps) (simp add: empty_disk_def)

lemma escape_name_etc: "escape_name ''/var/cids'' [''etc''] = ''../../../etc''"
  by (simp add: escape_name_def clean_path_comps_def)

end
