(* ===== verification/ImagePrep.thy ===== *)
theory ImagePrep
  imports Ipfs CidStore
begin

text \<open>
  The push client's work on files, \<open>registry/registry.go\<close>: unpacking the archive that
  \<open>docker save\<close> writes (\<open>untar\<close>) and laying it out as a registry directory (\<open>ipfsPrep\<close>,
  \<open>prepareV2Manifest\<close>, \<open>compressLayer\<close> and their helpers). The compressor is a parameter
  \<open>gz\<close>. The modes of files are not modelled.
\<close>

section \<open>Small helpers\<close>

text \<open>\<open>mktmp\<close>: \<open>ioutil.TempDir\<close> makes a new directory; its name comes from the world.\<close>

definition mktmp :: "'w services \<Rightarrow> file_system \<Rightarrow> 'w \<Rightarrow> (file_system \<times> 'w) \<times> string result" where
  "mktmp s fs w =
     (case tmp_name s w of
        (w', p) \<Rightarrow>
          (case mkdir_one fs p of Inl e \<Rightarrow> ((fs, w'), Inl e) | Inr fs' \<Rightarrow> ((fs', w'), Inr p)))"

definition mkdir :: "file_system \<Rightarrow> string \<Rightarrow> file_system" where
  "mkdir fs p =
     (if stat_exists fs p then fs else (case mkdir_one fs p of Inl e \<Rightarrow> fs | Inr fs' \<Rightarrow> fs'))"

definition copyFile :: "file_system \<Rightarrow> string \<Rightarrow> string \<Rightarrow> file_system result" where
  "copyFile fs src dst = (case read_file fs src of Inl e \<Rightarrow> Inl e | Inr data \<Rightarrow> write_file fs dst data)"

definition writeJSON :: "file_system \<Rightarrow> json \<Rightarrow> string \<Rightarrow> file_system result" where
  "writeJSON fs v p = write_file fs p (json_print v)"

definition gzipFile :: "(bytes \<Rightarrow> bytes) \<Rightarrow> file_system \<Rightarrow> string \<Rightarrow> string \<Rightarrow> file_system result" where
  "gzipFile gz fs src dst =
     (let data = (case read_file fs src of Inl e \<Rightarrow> [] | Inr d \<Rightarrow> d) in write_file fs dst (gz data))"

definition sha256File :: "file_system \<Rightarrow> string \<Rightarrow> string result" where
  "sha256File fs p = (case read_file fs p of Inl e \<Rightarrow> Inl e | Inr b \<Rightarrow> Inr (hex_encode (sha256 b)))"

text \<open>The body is nil when the file cannot be read, and nil is not JSON.\<close>

definition file_body :: "file_system \<Rightarrow> string \<Rightarrow> bytes" where
  "file_body fs p = (case read_file fs p of Inl e \<Rightarrow> [] | Inr b \<Rightarrow> b)"

definition json_error :: go_error where
  "json_error = GoError ''invalid JSON input''"

fun string_map :: "(string \<times> json) list \<Rightarrow> (string \<times> string) list \<Rightarrow> (string \<times> string) list option" where
  "string_map [] m = Some m"
| "string_map ((k, JStr s) # ms) m = string_map ms (AList.update k s m)"
| "string_map ((k, JNull) # ms) m = string_map ms (AList.update k [] m)"
| "string_map ((k, _) # ms) m = None"

fun repo_map :: "(string \<times> json) list \<Rightarrow> (string \<times> (string \<times> string) list) list \<Rightarrow>
    (string \<times> (string \<times> string) list) list option" where
  "repo_map [] m = Some m"
| "repo_map ((k, JObj vs) # ms) m =
     (case string_map vs [] of None \<Rightarrow> None | Some t \<Rightarrow> repo_map ms (AList.update k t m))"
| "repo_map ((k, JNull) # ms) m = repo_map ms (AList.update k [] m)"
| "repo_map ((k, _) # ms) m = None"

definition readJSON :: "file_system \<Rightarrow> string \<Rightarrow> (string \<times> (string \<times> string) list) list result" where
  "readJSON fs p =
     (case json_parse (file_body fs p) of
        Some JNull \<Rightarrow> Inr []
      | Some (JObj ms) \<Rightarrow> (case repo_map ms [] of None \<Rightarrow> Inl json_error | Some m \<Rightarrow> Inr m)
      | _ \<Rightarrow> Inl json_error)"

fun object_list :: "json list \<Rightarrow> (string \<times> json) list list option" where
  "object_list [] = Some []"
| "object_list (JObj ms # vs) = map_option (Cons ms) (object_list vs)"
| "object_list (JNull # vs) = map_option (Cons []) (object_list vs)"
| "object_list (_ # vs) = None"

definition readJSONArray :: "file_system \<Rightarrow> string \<Rightarrow> (string \<times> json) list list result" where
  "readJSONArray fs p =
     (case json_parse (file_body fs p) of
        Some JNull \<Rightarrow> Inr []
      | Some (JArr vs) \<Rightarrow> (case object_list vs of None \<Rightarrow> Inl json_error | Some os \<Rightarrow> Inr os)
      | _ \<Rightarrow> Inl json_error)"

text \<open>The entry of a decoded map: the last member with that key.\<close>

definition member :: "(string \<times> json) list \<Rightarrow> string \<Rightarrow> json option" where
  "member ms k = map_of (rev ms) k"

definition normalizeImageName :: "string \<Rightarrow> string" where
  "normalizeImageName name = name"

section \<open>Unpacking\<close>

datatype tar_type = TypeDir | TypeReg | TypeOther

text \<open>An entry, with the error that ends the reading of its content, if there is one.\<close>

record tar_entry =
  te_name :: string
  te_type :: tar_type
  te_body :: bytes
  te_error :: "go_error option"

text \<open>An archive is its entries and what follows them: the end (\<open>None\<close>) or a read error.\<close>

fun untar :: "file_system \<Rightarrow> tar_entry list \<Rightarrow> go_error option \<Rightarrow> string \<Rightarrow> file_system \<times> go_error option" where
  "untar fs [] err dst = (fs, err)"
| "untar fs (e # es) err dst =
     (case te_type e of
        TypeDir \<Rightarrow>
          if stat_exists fs (path_join [dst, te_name e]) then untar fs es err dst
          else (case mkdir_all fs (path_join [dst, te_name e]) of
                  (fs', Some x) \<Rightarrow> (fs', Some x)
                | (fs', None) \<Rightarrow> untar fs' es err dst)
      | TypeReg \<Rightarrow>
          (case open_and_write fs (path_join [dst, te_name e]) (te_body e) of
             Inl x \<Rightarrow> (fs, Some x)
           | Inr fs' \<Rightarrow> (case te_error e of Some x \<Rightarrow> (fs', Some x) | None \<Rightarrow> untar fs' es err dst))
      | TypeOther \<Rightarrow> untar fs es err dst)"

section \<open>Layers\<close>

definition compressLayer :: "(bytes \<Rightarrow> bytes) \<Rightarrow> file_system \<Rightarrow> string \<Rightarrow> string \<Rightarrow> file_system \<times> (nat \<times> string) result" where
  "compressLayer gz fs p blobDir =
     (let tmp = blobDir @ ''/layer.tmp.tgz'' in
      case gzipFile gz fs p tmp of
        Inl e \<Rightarrow> (fs, Inl e)
      | Inr fs1 \<Rightarrow>
          (case sha256File fs1 tmp of
             Inl e \<Rightarrow> (fs1, Inl e)
           | Inr dg \<Rightarrow>
               (case file_size fs1 tmp of
                  Inl e \<Rightarrow> (fs1, Inl e)
                | Inr sz \<Rightarrow>
                    (case rename_file fs1 tmp (blobDir @ ''/sha256:'' @ dg) of
                       Inl e \<Rightarrow> (fs1, Inl e)
                     | Inr fs2 \<Rightarrow> (fs2, Inr (sz, dg))))))"

text \<open>
  \<open>json.Marshal\<close> sorts the keys of a map, so the objects are written with sorted keys.
\<close>

definition layer_obj :: "nat \<Rightarrow> string \<Rightarrow> json" where
  "layer_obj sz dg =
     JObj [(''digest'', JStr (''sha256:'' @ dg)), (''mediaType'', JStr LayerType), (''size'', JNum (nat_str sz))]"

fun prepare_layers :: "(bytes \<Rightarrow> bytes) \<Rightarrow> file_system \<Rightarrow> json list \<Rightarrow> string \<Rightarrow> string \<Rightarrow> file_system \<times> json list result" where
  "prepare_layers gz fs [] tmp blobDir = (fs, Inr [])"
| "prepare_layers gz fs (JStr layer # ls) tmp blobDir =
     (case compressLayer gz fs (tmp @ ''/'' @ layer) blobDir of
        (fs1, Inl e) \<Rightarrow> (fs1, Inl e)
      | (fs1, Inr (sz, dg)) \<Rightarrow>
          (case prepare_layers gz fs1 ls tmp blobDir of
             (fs2, Inl e) \<Rightarrow> (fs2, Inl e)
           | (fs2, Inr objs) \<Rightarrow> (fs2, Inr (layer_obj sz dg # objs))))"
| "prepare_layers gz fs (_ # ls) tmp blobDir = (fs, Inl (GoError ''expected string''))"

text \<open>A list of layers that was never appended to is the nil slice, printed as \<open>null\<close>.\<close>

definition layers_json :: "json list \<Rightarrow> json" where
  "layers_json objs = (if objs = [] then JNull else JArr objs)"

text \<open>
  A map with string keys, as the list of its entries in the order of their keys, in which
  \<open>json.Marshal\<close> prints them.
\<close>

fun map_put :: "string \<Rightarrow> json \<Rightarrow> (string \<times> json) list \<Rightarrow> (string \<times> json) list" where
  "map_put k v [] = [(k, v)]"
| "map_put k v ((k', v') # m) =
     (if k = k' then (k, v) # m else if k < k' then (k, v) # (k', v') # m else (k', v') # map_put k v m)"

definition mergemap :: "(string \<times> json) list \<Rightarrow> (string \<times> json) list \<Rightarrow> (string \<times> json) list" where
  "mergemap a b = foldl (\<lambda>a (k, v). map_put k v a) a b"

definition prepared_map :: "json list \<Rightarrow> (string \<times> json) list" where
  "prepared_map objs =
     map_put ''layers'' (layers_json objs)
       (map_put ''config'' (JObj [])
         (map_put ''mediaType'' (JStr ManifestType) (map_put ''schemaVersion'' (JNum (nat_str 2)) [])))"

definition prepareV2Manifest :: "(bytes \<Rightarrow> bytes) \<Rightarrow> file_system \<Rightarrow> (string \<times> json) list \<Rightarrow> string \<Rightarrow> string \<Rightarrow>
    file_system \<times> (string \<times> json) list result" where
  "prepareV2Manifest gz fs mf tmp blobDir =
     (case member mf ''Layers'' of
        Some (JArr ls) \<Rightarrow>
          (case prepare_layers gz fs ls tmp blobDir of
             (fs1, Inl e) \<Rightarrow> (fs1, Inl e)
           | (fs1, Inr objs) \<Rightarrow> (fs1, Inr (prepared_map objs)))
      | _ \<Rightarrow> (fs, Inl (GoError ''expected layers'')))"

definition blob_dir :: "string \<Rightarrow> string" where
  "blob_dir workdir = workdir @ ''/blobs''"

definition config_map :: "string \<Rightarrow> nat \<Rightarrow> (string \<times> json) list" where
  "config_map configDigest sz =
     map_put ''mediaType'' (JStr ConfigType) (map_put ''size'' (JNum (nat_str sz)) (map_put ''digest'' (JStr configDigest) []))"

definition makeV2Manifest :: "(bytes \<Rightarrow> bytes) \<Rightarrow> file_system \<Rightarrow> (string \<times> json) list \<Rightarrow> string \<Rightarrow> string \<Rightarrow> string \<Rightarrow> string \<Rightarrow>
    file_system \<times> json result" where
  "makeV2Manifest gz fs mf configDigest configDest tmp workdir =
     (case prepareV2Manifest gz fs mf tmp (blob_dir workdir) of
        (fs1, Inl e) \<Rightarrow> (fs1, Inl e)
      | (fs1, Inr v2manifest) \<Rightarrow>
          (case file_size fs1 configDest of
             Inl e \<Rightarrow> (fs1, Inl e)
           | Inr sz \<Rightarrow>
               (case member v2manifest ''config'' of
                  Some (JObj conf) \<Rightarrow>
                    (fs1, Inr (JObj (map_put ''config'' (JObj (mergemap conf (config_map configDigest sz))) v2manifest)))
                | _ \<Rightarrow> (fs1, Inl (GoError ''not ok'')))))"

text \<open>The object that this comes to, with its keys in order.\<close>

definition v2_json :: "string \<Rightarrow> nat \<Rightarrow> json list \<Rightarrow> json" where
  "v2_json configDigest sz objs =
     JObj [(''config'', JObj [(''digest'', JStr configDigest), (''mediaType'', JStr ConfigType), (''size'', JNum (nat_str sz))]),
           (''layers'', layers_json objs), (''mediaType'', JStr ManifestType), (''schemaVersion'', JNum (nat_str 2))]"

lemma v2_json_merged:
  "member (prepared_map objs) ''config'' = Some (JObj []) \<and>
   JObj (map_put ''config'' (JObj (mergemap [] (config_map configDigest sz))) (prepared_map objs)) = v2_json configDigest sz objs"
  unfolding prepared_map_def config_map_def mergemap_def v2_json_def by code_simp

lemma makeV2Manifest_eq:
  "makeV2Manifest gz fs mf configDigest configDest tmp workdir =
     (case member mf ''Layers'' of
        Some (JArr ls) \<Rightarrow>
          (case prepare_layers gz fs ls tmp (blob_dir workdir) of
             (fs1, Inl e) \<Rightarrow> (fs1, Inl e)
           | (fs1, Inr objs) \<Rightarrow>
               (case file_size fs1 configDest of
                  Inl e \<Rightarrow> (fs1, Inl e)
                | Inr sz \<Rightarrow> (fs1, Inr (v2_json configDigest sz objs))))
      | _ \<Rightarrow> (fs, Inl (GoError ''expected layers'')))"
  by (auto simp: makeV2Manifest_def prepareV2Manifest_def v2_json_merged split: option.splits json.splits prod.splits sum.splits)

section \<open>The image directory\<close>

text \<open>
  The name of the image, read from \<open>repositories\<close>; whether the file is there is looked up
  under \<open>tmp + "repositories"\<close>, without a slash.
\<close>

definition image_name :: "file_system \<Rightarrow> string \<Rightarrow> string result" where
  "image_name fs tmp =
     (if stat_exists fs (tmp @ ''repositories'')
      then (case readJSON fs (tmp @ ''/repositories'') of
              Inl e \<Rightarrow> Inl e
            | Inr [(imageName, tags)] \<Rightarrow>
                if length tags = 1 then Inr (normalizeImageName imageName)
                else Inl (GoError (''only one tag expected for '' @ imageName))
            | Inr _ \<Rightarrow> Inl (GoError ''only one repository expected in input file''))
      else Inr ''default'')"

text \<open>The tag under which the manifest is written.\<close>

definition image_ref :: "string \<Rightarrow> string" where
  "image_ref s =
     (if has_substr s ''sha256:'' then ''latest''
      else (let ss = splitn2 (CHR '':'') s in if length ss = 2 then ss ! 1 else ''latest''))"

definition manifest_file :: "string \<Rightarrow> string \<Rightarrow> string" where
  "manifest_file workdir t = workdir @ ''/manifests/'' @ t"

definition writeManifest :: "file_system \<Rightarrow> json \<Rightarrow> string \<Rightarrow> string \<Rightarrow> file_system \<times> go_error option" where
  "writeManifest fs mf workdir imageID =
     (let tag = image_ref imageID
      in case (if tag \<noteq> ''latest'' then writeJSON fs mf (manifest_file workdir ''latest'') else Inr fs) of
           Inl e \<Rightarrow> (fs, Some e)
         | Inr fs1 \<Rightarrow>
             (case writeJSON fs1 mf (manifest_file workdir tag) of
                Inl e \<Rightarrow> (fs1, Some e)
              | Inr fs2 \<Rightarrow>
                  (case writeJSON fs2 mf (manifest_file workdir (compute_digest (json_print mf))) of
                     Inl e \<Rightarrow> (fs2, Some e)
                   | Inr fs3 \<Rightarrow> (fs3, None))))"

text \<open>\<open>configFile[:len(configFile)-5]\<close> panics on a shorter name.\<close>

definition strip_json :: "string \<Rightarrow> string option" where
  "strip_json configFile =
     (if length configFile < 5 then None else Some (take (length configFile - 5) configFile))"

text \<open>The steps from the decoded manifest of the archive to the files below \<open>workdir\<close>.\<close>

definition prep_image :: "(bytes \<Rightarrow> bytes) \<Rightarrow> file_system \<Rightarrow> (string \<times> json) list \<Rightarrow> string \<Rightarrow> string \<Rightarrow> string \<Rightarrow>
    string \<Rightarrow> string \<Rightarrow> file_system \<times> go_error option" where
  "prep_image gz fs mf configFile dg tmp workdir imageID =
     (let configDigest = ''sha256:'' @ dg;
          configDest = blob_dir workdir @ ''/'' @ configDigest
      in case copyFile fs (tmp @ ''/'' @ configFile) configDest of
           Inl e \<Rightarrow> (fs, Some e)
         | Inr fs1 \<Rightarrow>
             (case makeV2Manifest gz fs1 mf configDigest configDest tmp workdir of
                (fs2, Inl e) \<Rightarrow> (fs2, Some e)
              | (fs2, Inr v2) \<Rightarrow> writeManifest fs2 v2 workdir imageID))"

text \<open>\<open>ipfsPrep\<close> in a root directory that was just made.\<close>

definition prep_in :: "(bytes \<Rightarrow> bytes) \<Rightarrow> file_system \<Rightarrow> string \<Rightarrow> string \<Rightarrow> string \<Rightarrow> file_system \<times> go_error option outcome" where
  "prep_in gz fs tmp imageID rootdir =
     (case image_name fs tmp of
        Inl e \<Rightarrow> (fs, Done (Some e))
      | Inr name \<Rightarrow>
          (let workdir = rootdir @ ''/'' @ name;
               fs1 = mkdir (mkdir (mkdir fs workdir) (workdir @ ''/manifests'')) (blob_dir workdir)
           in case readJSONArray fs1 (tmp @ ''/manifest.json'') of
                Inl e \<Rightarrow> (fs1, Done (Some e))
              | Inr [] \<Rightarrow> (fs1, Done (Some (GoError ''expected manifest to contain data'')))
              | Inr (mf # _) \<Rightarrow>
                  (case member mf ''Config'' of
                     Some (JStr configFile) \<Rightarrow>
                       (case strip_json configFile of
                          None \<Rightarrow> (fs1, Panicked)
                        | Some dg \<Rightarrow>
                            (case prep_image gz fs1 mf configFile dg tmp workdir imageID of
                               (fs2, x) \<Rightarrow> (fs2, Done x)))
                   | _ \<Rightarrow> (fs1, Done (Some (GoError ''image archive must be produced by docker > 1.10''))))))"

definition ipfsPrep :: "'w services \<Rightarrow> (bytes \<Rightarrow> bytes) \<Rightarrow> file_system \<Rightarrow> 'w \<Rightarrow> string \<Rightarrow> string \<Rightarrow>
    (file_system \<times> 'w) \<times> string result outcome" where
  "ipfsPrep s gz fs w tmp imageID =
     (case mktmp s fs w of
        (st, Inl e) \<Rightarrow> (st, Done (Inl e))
      | ((fs1, w1), Inr rootdir) \<Rightarrow>
          (case prep_in gz fs1 tmp imageID rootdir of
             (fs2, Done None) \<Rightarrow> ((fs2, w1), Done (Inr rootdir))
           | (fs2, Done (Some e)) \<Rightarrow> ((fs2, w1), Done (Inl e))
           | (fs2, Panicked) \<Rightarrow> ((fs2, w1), Panicked)
           | (fs2, Blocked) \<Rightarrow> ((fs2, w1), Blocked)))"

section \<open>Layers on disk\<close>

lemma compute_digest_plain [simp]: "plain_comp (compute_digest b)"
proof -
  have "compute_digest b \<noteq> s" if "length s < 71" for s
    using that length_compute_digest [of b] by auto
  from this [of "''.''"] this [of "''..''"] show ?thesis
    using compute_digest_no_slash [of b] by (simp add: plain_comp_def)
qed

definition tmp_layer :: string where
  "tmp_layer = ''layer.tmp.tgz''"

lemma tmp_layer_plain [simp]: "plain_comp tmp_layer" "compute_digest b \<noteq> tmp_layer" "tmp_layer \<noteq> compute_digest b"
proof -
  show "plain_comp tmp_layer" by (simp add: plain_comp_def tmp_layer_def)
  have "length (compute_digest b) \<noteq> length tmp_layer" by (simp add: tmp_layer_def)
  then show "compute_digest b \<noteq> tmp_layer" "tmp_layer \<noteq> compute_digest b" by metis+
qed

lemma digest_path: "p @ ''/sha256:'' @ hex_encode (sha256 b) = p @ ''/'' @ compute_digest b"
  by (simp add: compute_digest_def)

lemma tmp_path: "p @ ''/layer.tmp.tgz'' = p @ ''/'' @ tmp_layer"
  by (simp add: tmp_layer_def)

text \<open>What no operation of the preparation changes.\<close>

definition same_dirs :: "file_system \<Rightarrow> file_system \<Rightarrow> bool" where
  "same_dirs fs fs' \<longleftrightarrow> cwd fs' = cwd fs \<and> no_read fs' = no_read fs \<and> no_write fs' = no_write fs \<and>
     (\<forall>k. is_dir fs' k = is_dir fs k)"

lemma same_dirs_refl [simp]: "same_dirs fs fs"
  by (simp add: same_dirs_def)

lemma same_dirs_trans: "same_dirs fs fs1 \<Longrightarrow> same_dirs fs1 fs2 \<Longrightarrow> same_dirs fs fs2"
  by (simp add: same_dirs_def)

lemma same_dirs_key: "same_dirs fs fs' \<Longrightarrow> fs_key fs' p = fs_key fs p"
  by (rule fs_key_cong) (simp_all add: same_dirs_def)

lemma same_dirs_write: "write_file fs p b = Inr fs' \<Longrightarrow> same_dirs fs fs'"
  by (simp add: same_dirs_def write_file_frame)

definition readable :: "file_system \<Rightarrow> bool" where
  "readable fs \<longleftrightarrow> (\<forall>k. \<not> no_read fs k)"

lemma same_dirs_readable: "same_dirs fs fs' \<Longrightarrow> readable fs \<Longrightarrow> readable fs'"
  by (simp add: same_dirs_def readable_def)

lemma compressLayer_ok:
  assumes "compressLayer gz fs p bd = (fs', Inr (sz, dg))" and "readable fs"
  shows "\<exists>z. z = gz (file_body fs p) \<and> sz = length z \<and> ''sha256:'' @ dg = compute_digest z \<and> same_dirs fs fs' \<and>
    read_file fs' (bd @ ''/'' @ compute_digest z) = Inr z \<and>
    fs_key fs (bd @ ''/'' @ tmp_layer) \<noteq> None \<and> fs_key fs (bd @ ''/'' @ compute_digest z) \<noteq> None \<and>
    (\<forall>q. fs_key fs q \<noteq> fs_key fs (bd @ ''/'' @ tmp_layer) \<longrightarrow> fs_key fs q \<noteq> fs_key fs (bd @ ''/'' @ compute_digest z) \<longrightarrow>
       read_file fs' q = read_file fs q)"
proof -
  let ?z = "gz (file_body fs p)" and ?t = "bd @ ''/'' @ tmp_layer"
  obtain fs1 where w: "write_file fs ?t ?z = Inr fs1"
    using assms(1) unfolding compressLayer_def tmp_path gzipFile_def file_body_def
    by (auto simp: Let_def split: sum.splits)
  have g: "gzipFile gz fs p ?t = Inr fs1" using w by (simp add: gzipFile_def file_body_def Let_def)
  have rt: "read_file fs1 ?t = Inr ?z"
    by (rule read_write_same [OF w]) (use assms(2) in \<open>simp add: readable_def\<close>)
  then have sz: "file_size fs1 ?t = Inr (length ?z)"
    by (auto simp: read_file_def file_size_def split: option.splits fnode.splits if_splits)
  from rt have h: "sha256File fs1 ?t = Inr (hex_encode (sha256 ?z))" by (simp add: sha256File_def)
  from assms(1) g h sz have dg: "dg = hex_encode (sha256 ?z)" and s: "sz = length ?z"
    and r': "rename_file fs1 ?t (bd @ ''/sha256:'' @ dg) = Inr fs'"
    unfolding compressLayer_def tmp_path Let_def by (simp_all split: sum.splits)
  note r = r' [unfolded dg digest_path]
  have s1: "same_dirs fs fs1" by (rule same_dirs_write [OF w])
  have s2: "same_dirs fs1 fs'" using rename_file_frame [OF r] by (simp add: same_dirs_def)
  have n1: "\<not> no_read fs1 k" for k using s1 assms(2) by (simp add: same_dirs_def readable_def)
  have key: "fs_key fs1 q = fs_key fs q" for q by (rule same_dirs_key [OF s1])
  have "read_file fs' (bd @ ''/'' @ compute_digest ?z) = Inr ?z"
    using read_rename(1) [OF r n1] rt by simp
  moreover have "read_file fs' q = read_file fs q"
    if "fs_key fs q \<noteq> fs_key fs ?t" "fs_key fs q \<noteq> fs_key fs (bd @ ''/'' @ compute_digest ?z)" for q
    using read_rename(2) [OF r n1, of q] read_write_other [OF w that(1)] that by (simp add: key)
  moreover have "fs_key fs ?t \<noteq> None" using w by (auto simp: write_file_Inr)
  moreover have "fs_key fs (bd @ ''/'' @ compute_digest ?z) \<noteq> None"
    using rename_file_InrE [OF r] key by (metis option.distinct(1))
  moreover have "''sha256:'' @ dg = compute_digest ?z" by (simp add: dg compute_digest_def)
  moreover have "same_dirs fs fs'" using s1 s2 by (rule same_dirs_trans)
  ultimately show ?thesis using s by blast
qed

text \<open>
  Each of the contents \<open>zs\<close> has its file in the blob directory, under its digest. (Of two
  contents with one digest the file holds one.)
\<close>

definition blobs_on_disk :: "file_system \<Rightarrow> string \<Rightarrow> bytes set \<Rightarrow> bool" where
  "blobs_on_disk fs bd zs \<longleftrightarrow>
     (\<forall>z \<in> zs. \<exists>b \<in> zs. read_file fs (bd @ ''/'' @ compute_digest z) = Inr b \<and> compute_digest b = compute_digest z)"

lemma compressLayer_blobs:
  assumes "compressLayer gz fs p bd = (fs', Inr x)" and "readable fs" and "blobs_on_disk fs bd zs"
  shows "blobs_on_disk fs' bd (insert (gz (file_body fs p)) zs)"
proof -
  let ?z = "gz (file_body fs p)"
  obtain sz dg where x: "x = (sz, dg)" by (rule prod.exhaust)
  from compressLayer_ok [OF assms(1) [unfolded x] assms(2)] have
    new: "read_file fs' (bd @ ''/'' @ compute_digest ?z) = Inr ?z" and
    kt: "fs_key fs (bd @ ''/'' @ tmp_layer) \<noteq> None" and kz: "fs_key fs (bd @ ''/'' @ compute_digest ?z) \<noteq> None" and
    keep: "\<And>q. fs_key fs q \<noteq> fs_key fs (bd @ ''/'' @ tmp_layer) \<Longrightarrow> fs_key fs q \<noteq> fs_key fs (bd @ ''/'' @ compute_digest ?z) \<Longrightarrow>
       read_file fs' q = read_file fs q"
    by blast+
  have "\<exists>b \<in> insert ?z zs. read_file fs' (bd @ ''/'' @ compute_digest z) = Inr b \<and> compute_digest b = compute_digest z"
    if "z \<in> insert ?z zs" for z
  proof (cases "compute_digest z = compute_digest ?z")
    case True
    with new show ?thesis by (metis insertI1)
  next
    case False
    with that assms(3) obtain b where b: "b \<in> zs" "read_file fs (bd @ ''/'' @ compute_digest z) = Inr b" "compute_digest b = compute_digest z"
      unfolding blobs_on_disk_def by blast
    obtain k k' where "fs_key fs (bd @ ''/'' @ tmp_layer) = Some k" "fs_key fs (bd @ ''/'' @ compute_digest ?z) = Some k'"
      using kt kz by blast
    then have "read_file fs' (bd @ ''/'' @ compute_digest z) = read_file fs (bd @ ''/'' @ compute_digest z)"
      using sibling_key [of tmp_layer "compute_digest z" fs bd k] sibling_key [of "compute_digest ?z" "compute_digest z" fs bd k'] False
      by (intro keep) auto
    with b show ?thesis by auto
  qed
  then show ?thesis unfolding blobs_on_disk_def by blast
qed

text \<open>The entries of the manifest that the layers give: size and hexadecimal digest.\<close>

type_synonym layer_entry = "nat \<times> string"

abbreviation entry_obj :: "layer_entry \<Rightarrow> json" where
  "entry_obj x \<equiv> layer_obj (fst x) (snd x)"

definition entry_digest :: "layer_entry \<Rightarrow> string" where
  "entry_digest x = ''sha256:'' @ snd x"

text \<open>A file that is none of the files \<open>bd/name\<close>.\<close>

definition apart :: "file_system \<Rightarrow> string \<Rightarrow> string \<Rightarrow> bool" where
  "apart fs p bd \<longleftrightarrow> (\<forall>t. plain_comp t \<longrightarrow> fs_key fs p \<noteq> fs_key fs (bd @ ''/'' @ t))"

lemma apart_same_dirs: "same_dirs fs fs' \<Longrightarrow> apart fs p bd \<Longrightarrow> apart fs' p bd"
  by (simp add: apart_def same_dirs_key)

text \<open>The entry of the layer file \<open>p\<close>: size and digest of its compressed content.\<close>

definition entry_of :: "(bytes \<Rightarrow> bytes) \<Rightarrow> file_system \<Rightarrow> string \<Rightarrow> layer_entry" where
  "entry_of gz fs p = (let z = gz (file_body fs p) in (length z, hex_encode (sha256 z)))"

lemma entry_of_digest: "entry_digest (entry_of gz fs p) = compute_digest (gz (file_body fs p))"
  by (simp add: entry_digest_def entry_of_def Let_def compute_digest_def)

lemma compressLayer_entry:
  assumes "compressLayer gz fs p bd = (fs', Inr x)" and "readable fs"
  shows "x = entry_of gz fs p" "same_dirs fs fs'"
    "apart fs q bd \<Longrightarrow> read_file fs' q = read_file fs q"
    "plain_comp d \<Longrightarrow> d \<noteq> tmp_layer \<Longrightarrow> d \<noteq> entry_digest x \<Longrightarrow> read_file fs' (bd @ ''/'' @ d) = read_file fs (bd @ ''/'' @ d)"
proof -
  obtain sz dg where x: "x = (sz, dg)" by (rule prod.exhaust)
  note ok = compressLayer_ok [OF assms(1) [unfolded x] assms(2)]
  then have dg: "''sha256:'' @ dg = compute_digest (gz (file_body fs p))" and sz: "sz = length (gz (file_body fs p))"
    and sd: "same_dirs fs fs'" and kt: "fs_key fs (bd @ ''/'' @ tmp_layer) \<noteq> None"
    and kz: "fs_key fs (bd @ ''/'' @ compute_digest (gz (file_body fs p))) \<noteq> None"
    and keep: "\<And>q. fs_key fs q \<noteq> fs_key fs (bd @ ''/'' @ tmp_layer) \<Longrightarrow>
      fs_key fs q \<noteq> fs_key fs (bd @ ''/'' @ compute_digest (gz (file_body fs p))) \<Longrightarrow> read_file fs' q = read_file fs q"
    by blast+
  show "x = entry_of gz fs p" using dg sz by (simp add: x entry_of_def Let_def compute_digest_def)
  show "same_dirs fs fs'" by (rule sd)
  show "read_file fs' q = read_file fs q" if "apart fs q bd"
    using that by (intro keep) (simp_all add: apart_def)
  show "read_file fs' (bd @ ''/'' @ d) = read_file fs (bd @ ''/'' @ d)"
    if d: "plain_comp d" "d \<noteq> tmp_layer" "d \<noteq> entry_digest x"
  proof (rule keep)
    let ?z = "compute_digest (gz (file_body fs p))"
    have z: "d \<noteq> ?z" using d(3) dg by (simp only: x entry_digest_def snd_conv) simp
    obtain k k' where k: "fs_key fs (bd @ ''/'' @ tmp_layer) = Some k" "fs_key fs (bd @ ''/'' @ ?z) = Some k'" using kt kz by blast
    show "fs_key fs (bd @ ''/'' @ d) \<noteq> fs_key fs (bd @ ''/'' @ tmp_layer)"
      unfolding k(1) by (rule sibling_key [OF _ d(1) _ k(1)]) (use d(2) in simp_all)
    show "fs_key fs (bd @ ''/'' @ d) \<noteq> fs_key fs (bd @ ''/'' @ ?z)"
      unfolding k(2) by (rule sibling_key [OF _ d(1) _ k(2)]) (use z in simp_all)
  qed
qed

lemma file_body_cong: "read_file fs' p = read_file fs p \<Longrightarrow> file_body fs' p = file_body fs p"
  by (simp add: file_body_def)

lemma entry_of_cong: "read_file fs' p = read_file fs p \<Longrightarrow> entry_of gz fs' p = entry_of gz fs p"
  unfolding entry_of_def file_body_cong [of fs' p fs] by (simp only: file_body_def)

lemma prepare_layers_entries:
  "prepare_layers gz fs (map JStr ls) tmp bd = (fs', Inr objs) \<Longrightarrow> readable fs \<Longrightarrow>
   \<forall>l \<in> set ls. apart fs (tmp @ ''/'' @ l) bd \<Longrightarrow>
   objs = map (\<lambda>l. entry_obj (entry_of gz fs (tmp @ ''/'' @ l))) ls \<and> same_dirs fs fs' \<and>
   (blobs_on_disk fs bd zs \<longrightarrow> blobs_on_disk fs' bd ((\<lambda>l. gz (file_body fs (tmp @ ''/'' @ l))) ` set ls \<union> zs)) \<and>
   (\<forall>d. plain_comp d \<longrightarrow> d \<noteq> tmp_layer \<longrightarrow> d \<notin> (\<lambda>l. entry_digest (entry_of gz fs (tmp @ ''/'' @ l))) ` set ls \<longrightarrow>
      read_file fs' (bd @ ''/'' @ d) = read_file fs (bd @ ''/'' @ d))"
proof (induction ls arbitrary: fs objs zs)
  case Nil
  then show ?case by simp
next
  case (Cons l ls)
  obtain fs1 x where c: "compressLayer gz fs (tmp @ ''/'' @ l) bd = (fs1, Inr x)"
    using Cons.prems(1) by (cases "compressLayer gz fs (tmp @ ''/'' @ l) bd") (auto split: sum.splits)
  with Cons.prems(1) obtain objs' where p: "prepare_layers gz fs1 (map JStr ls) tmp bd = (fs', Inr objs')"
    and objs: "objs = entry_obj x # objs'"
    by (auto split: prod.splits sum.splits)
  note e = compressLayer_entry [OF c Cons.prems(2)]
  have ap: "\<forall>l' \<in> set ls. apart fs1 (tmp @ ''/'' @ l') bd"
    using Cons.prems(3) apart_same_dirs [OF e(2)] by simp
  have same: "entry_of gz fs1 (tmp @ ''/'' @ l') = entry_of gz fs (tmp @ ''/'' @ l')" if "l' \<in> set ls" for l'
    using Cons.prems(3) that by (intro entry_of_cong e(3)) simp
  note ih = Cons.IH [OF p same_dirs_readable [OF e(2) Cons.prems(2)] ap, of "insert (gz (file_body fs (tmp @ ''/'' @ l))) zs"]
  have "file_body fs1 (tmp @ ''/'' @ l') = file_body fs (tmp @ ''/'' @ l')" if "l' \<in> set ls" for l'
    using Cons.prems(3) that by (intro file_body_cong e(3)) simp
  then have "(\<lambda>l. gz (file_body fs1 (tmp @ ''/'' @ l))) ` set ls = (\<lambda>l. gz (file_body fs (tmp @ ''/'' @ l))) ` set ls"
    by (intro image_cong) simp_all
  with ih compressLayer_blobs [OF c Cons.prems(2)]
  have bl: "blobs_on_disk fs bd zs \<longrightarrow> blobs_on_disk fs' bd ((\<lambda>l. gz (file_body fs (tmp @ ''/'' @ l))) ` set (l # ls) \<union> zs)"
    by (simp only: list.set(2) image_insert Un_insert_left Un_insert_right) blast
  have sd: "same_dirs fs fs'" using ih same_dirs_trans [OF e(2)] by blast
  have "objs = map (\<lambda>l. entry_obj (entry_of gz fs (tmp @ ''/'' @ l))) (l # ls)"
    using objs ih same by (simp add: e(1))
  moreover have "read_file fs' (bd @ ''/'' @ d) = read_file fs (bd @ ''/'' @ d)"
    if "plain_comp d" "d \<noteq> tmp_layer" "d \<notin> (\<lambda>l. entry_digest (entry_of gz fs (tmp @ ''/'' @ l))) ` set (l # ls)" for d
  proof -
    have "(\<lambda>l. entry_digest (entry_of gz fs1 (tmp @ ''/'' @ l))) ` set ls = (\<lambda>l. entry_digest (entry_of gz fs (tmp @ ''/'' @ l))) ` set ls"
      by (rule image_cong [OF refl]) (simp only: same)
    then have "d \<notin> (\<lambda>l. entry_digest (entry_of gz fs1 (tmp @ ''/'' @ l))) ` set ls"
      using that(3) by (simp only: list.set(2) image_insert insert_iff de_Morgan_disj simp_thms)
    with ih that(1,2) have "read_file fs' (bd @ ''/'' @ d) = read_file fs1 (bd @ ''/'' @ d)" by blast
    also have "\<dots> = read_file fs (bd @ ''/'' @ d)"
      using that(3) by (intro e(4) that(1,2)) (simp only: e(1) list.set(2) image_insert insert_iff de_Morgan_disj simp_thms)
    finally show ?thesis .
  qed
  ultimately show ?case using bl sd by blast
qed

section \<open>The manifest\<close>

lemma decode_layer_objs:
  "\<forall>x \<in> set xs. fst x < 2 ^ 63 \<Longrightarrow>
   decode_layers (map entry_obj xs) [] =
     Some (map (\<lambda>x. Some \<lparr>d_mediaType = LayerType, d_size = int (fst x), d_digest = entry_digest x\<rparr>) xs)"
proof (induction xs)
  case (Cons x xs)
  have "parse_int64 (nat_str (fst x)) = Some (int (fst x))"
    using parse_int64_int_str [of "int (fst x)"] Cons.prems by (simp add: int_str_def)
  then show ?case
    using Cons by (simp add: entry_digest_def layer_obj_def field_is_def to_lower_def to_lower_char_def zero_descriptor_def)
qed simp

definition entry_manifest :: "string \<Rightarrow> nat \<Rightarrow> layer_entry list \<Rightarrow> manifest" where
  "entry_manifest configDigest sz xs =
     \<lparr>schemaVersion = ManifestVersion, mf_mediaType = ManifestType,
      mf_config = Some \<lparr>d_mediaType = ConfigType, d_size = int sz, d_digest = configDigest\<rparr>,
      mf_layers = map (\<lambda>x. Some \<lparr>d_mediaType = LayerType, d_size = int (fst x), d_digest = entry_digest x\<rparr>) xs\<rparr>"

lemma decode_v2:
  assumes "sz < 2 ^ 63" and "\<forall>x \<in> set xs. fst x < 2 ^ 63"
  shows "DecodeManifest (json_print (v2_json cd sz (map entry_obj xs))) = Inr (entry_manifest cd sz xs)"
proof -
  have "json_parse (json_print (v2_json cd sz (map entry_obj xs))) = Some (v2_json cd sz (map entry_obj xs))"
    by (rule json_parse_print) (auto simp: v2_json_def layers_json_def layer_obj_def)
  moreover have "parse_int64 (nat_str sz) = Some (int sz)"
    using parse_int64_int_str [of "int sz"] assms(1) by (simp add: int_str_def)
  moreover have "parse_int64 (nat_str 2) = Some 2"
    using parse_int64_int_str [of 2] by (simp add: int_str_def)
  moreover have "decode_layer_list (layers_json (map entry_obj xs)) [] = Some (mf_layers (entry_manifest cd sz xs))"
    using decode_layer_objs [OF assms(2)] by (simp add: layers_json_def entry_manifest_def)
  ultimately show ?thesis
    by (simp add: DecodeManifest_def v2_json_def field_is_def to_lower_def to_lower_char_def zero_manifest_def zero_descriptor_def)
      (simp add: entry_manifest_def ManifestVersion_def)
qed

lemma entry_manifest_digests:
  "Digests (entry_manifest cd sz xs) = Done (cd # map entry_digest xs)"
  using layer_digests_map [of "map (\<lambda>x. \<lparr>d_mediaType = LayerType, d_size = int (fst x), d_digest = entry_digest x\<rparr>) xs"]
  by (simp add: Digests_def entry_manifest_def comp_def)

section \<open>The directory that is uploaded\<close>

lemma manifest_file_child: "manifest_file wd t = (wd @ ''/manifests'') @ ''/'' @ t"
  by (simp add: manifest_file_def)

text \<open>Writing below \<open>manifests\<close> leaves the blobs alone.\<close>

lemma write_manifest_keeps:
  assumes "write_file fs (manifest_file wd t) b = Inr fs'" and "plain_comp t" and "plain_comp d"
  shows "read_file fs' (blob_dir wd @ ''/'' @ d) = read_file fs (blob_dir wd @ ''/'' @ d)"
proof -
  from assms(1) obtain k where k: "fs_key fs (manifest_file wd t) = Some k" by (auto simp: write_file_Inr)
  have pl: "plain_comp ''manifests''" "plain_comp ''blobs''" "''manifests'' \<noteq> ''blobs''" by (simp_all add: plain_comp_def)
  have m: "manifest_file wd t = (wd @ ''/'' @ ''manifests'') @ ''/'' @ t" by (simp add: manifest_file_def)
  have bd: "blob_dir wd = wd @ ''/'' @ ''blobs''" by (simp add: blob_dir_def)
  show ?thesis
    using cousin_key [OF pl assms(2,3) k [unfolded m]] k unfolding bd
    by (intro read_write_other [OF assms(1)]) metis
qed

lemma write_manifest_blobs:
  assumes "write_file fs (manifest_file wd t) b = Inr fs'" and "plain_comp t"
    and "blobs_on_disk fs (blob_dir wd) ds"
  shows "blobs_on_disk fs' (blob_dir wd) ds"
  using assms(3) write_manifest_keeps [OF assms(1,2)] unfolding blobs_on_disk_def by (metis compute_digest_plain)

lemma writeManifest_NoneE:
  assumes "writeManifest fs v2 wd imageID = (fs', None)"
  obtains fs1 fs2 where
    "(if image_ref imageID \<noteq> ''latest'' then write_file fs (manifest_file wd ''latest'') (json_print v2) else Inr fs) = Inr fs1"
    "write_file fs1 (manifest_file wd (image_ref imageID)) (json_print v2) = Inr fs2"
    "write_file fs2 (manifest_file wd (compute_digest (json_print v2))) (json_print v2) = Inr fs'"
proof -
  let ?f = "if image_ref imageID \<noteq> ''latest'' then write_file fs (manifest_file wd ''latest'') (json_print v2) else Inr fs"
  have "(case ?f of Inl e \<Rightarrow> (fs, Some e) | Inr fs1 \<Rightarrow>
      (case write_file fs1 (manifest_file wd (image_ref imageID)) (json_print v2) of Inl e \<Rightarrow> (fs1, Some e) | Inr fs2 \<Rightarrow>
        (case write_file fs2 (manifest_file wd (compute_digest (json_print v2))) (json_print v2) of
           Inl e \<Rightarrow> (fs2, Some e) | Inr fs3 \<Rightarrow> (fs3, None)))) = (fs', None)"
    using assms by (simp only: writeManifest_def writeJSON_def Let_def)
  moreover obtain fs1 where 1: "?f = Inr fs1" using calculation by (cases ?f) simp_all
  ultimately show ?thesis using that [OF 1] by (auto split: sum.splits)
qed

lemma writeManifest_keeps:
  assumes "writeManifest fs v2 wd imageID = (fs', None)" and "plain_comp (image_ref imageID)" and "plain_comp d"
  shows "read_file fs' (blob_dir wd @ ''/'' @ d) = read_file fs (blob_dir wd @ ''/'' @ d)"
proof -
  obtain fs1 fs2 where
    1: "(if image_ref imageID \<noteq> ''latest'' then write_file fs (manifest_file wd ''latest'') (json_print v2) else Inr fs) = Inr fs1"
    and 2: "write_file fs1 (manifest_file wd (image_ref imageID)) (json_print v2) = Inr fs2"
    and 3: "write_file fs2 (manifest_file wd (compute_digest (json_print v2))) (json_print v2) = Inr fs'"
    using assms(1) by (rule writeManifest_NoneE)
  have "plain_comp ''latest''" by (simp add: plain_comp_def)
  with 1 have "read_file fs1 (blob_dir wd @ ''/'' @ d) = read_file fs (blob_dir wd @ ''/'' @ d)"
    using write_manifest_keeps assms(3) by (cases "image_ref imageID = ''latest''") (metis Inr_inject)+
  with write_manifest_keeps [OF 2 assms(2,3)] write_manifest_keeps [OF 3 compute_digest_plain assms(3)] show ?thesis by simp
qed

lemma writeManifest_ok:
  assumes "writeManifest fs v2 wd imageID = (fs', None)" and "readable fs" and "plain_comp (image_ref imageID)"
    and "blobs_on_disk fs (blob_dir wd) ds"
  shows "(\<forall>t \<in> {''latest'', image_ref imageID, compute_digest (json_print v2)}.
      read_file fs' (manifest_file wd t) = Inr (json_print v2)) \<and> blobs_on_disk fs' (blob_dir wd) ds"
proof -
  let ?b = "json_print v2" and ?tag = "image_ref imageID"
  obtain fs1 fs2 where
    1: "(if ?tag \<noteq> ''latest'' then write_file fs (manifest_file wd ''latest'') ?b else Inr fs) = Inr fs1"
    and 2: "write_file fs1 (manifest_file wd ?tag) ?b = Inr fs2"
    and 3: "write_file fs2 (manifest_file wd (compute_digest ?b)) ?b = Inr fs'"
    using assms(1) by (rule writeManifest_NoneE)
  have lp: "plain_comp ''latest''" by (simp add: plain_comp_def)
  have s1: "same_dirs fs fs1" using 1 same_dirs_write by (auto split: if_splits)
  have s2: "same_dirs fs1 fs2" by (rule same_dirs_write [OF 2])
  have rd: "\<not> no_read fs k" "\<not> no_read fs1 k" "\<not> no_read fs2 k" for k
    using assms(2) s1 s2 by (auto simp: readable_def same_dirs_def)
  have b1: "blobs_on_disk fs1 (blob_dir wd) ds"
    using 1 write_manifest_blobs [OF _ lp assms(4)] assms(4) by (auto split: if_splits)
  have b3: "blobs_on_disk fs' (blob_dir wd) ds"
    by (rule write_manifest_blobs [OF 3 compute_digest_plain write_manifest_blobs [OF 2 assms(3) b1]])
  have r2: "read_file fs2 (manifest_file wd ?tag) = Inr ?b" by (rule read_write_same [OF 2]) (rule rd)
  have "read_file fs1 (manifest_file wd ''latest'') = Inr ?b" if "?tag \<noteq> ''latest''"
    using 1 that rd read_write_same [of fs "manifest_file wd ''latest''" ?b fs1] by simp
  then have l2: "read_file fs2 (manifest_file wd ''latest'') = Inr ?b"
    using r2 read_write_keep [OF 2] by (cases "?tag = ''latest''") auto
  have "read_file fs' (manifest_file wd (compute_digest ?b)) = Inr ?b" by (rule read_write_same [OF 3]) (rule rd)
  with read_write_keep [OF 3] r2 l2 b3 show ?thesis by auto
qed

lemma prep_image_NoneE:
  assumes "prep_image gz fs mf configFile dg tmp wd imageID = (fs', None)"
  obtains fs1 fs2 v2 where "copyFile fs (tmp @ ''/'' @ configFile) (blob_dir wd @ ''/'' @ (''sha256:'' @ dg)) = Inr fs1"
    "makeV2Manifest gz fs1 mf (''sha256:'' @ dg) (blob_dir wd @ ''/'' @ (''sha256:'' @ dg)) tmp wd = (fs2, Inr v2)"
    "writeManifest fs2 v2 wd imageID = (fs', None)"
proof (cases "copyFile fs (tmp @ ''/'' @ configFile) (blob_dir wd @ ''/'' @ (''sha256:'' @ dg))")
  case (Inl e)
  with assms show ?thesis by (simp only: prep_image_def Let_def sum.case prod.inject) simp
next
  case (Inr fs1)
  obtain fs2 x where m: "makeV2Manifest gz fs1 mf (''sha256:'' @ dg) (blob_dir wd @ ''/'' @ (''sha256:'' @ dg)) tmp wd = (fs2, x)"
    by (rule prod.exhaust)
  have "(case x of Inl e \<Rightarrow> (fs2, Some e) | Inr v2 \<Rightarrow> writeManifest fs2 v2 wd imageID) = (fs', None)"
    using assms by (simp only: prep_image_def Let_def Inr m sum.case prod.case)
  then obtain v2 where "x = Inr v2" "writeManifest fs2 v2 wd imageID = (fs', None)"
    by (cases x) simp_all
  with Inr m that show ?thesis by blast
qed

end
