(* ===== verification/ImageDir.thy ===== *)
theory ImageDir
  imports ImagePrep Image
begin

text \<open>
  What \<open>ipfsPrep\<close> leaves on the disk: for a readable archive the preparation succeeds, and
  the directory it makes holds the manifest, the configuration and the compressed layers
  under the names by which the server asks for them.
\<close>

section \<open>The preparation succeeds\<close>

definition writable :: "file_system \<Rightarrow> bool" where
  "writable fs \<longleftrightarrow> (\<forall>k. \<not> no_write fs k)"

lemma same_dirs_writable: "same_dirs fs fs' \<Longrightarrow> writable fs \<Longrightarrow> writable fs'"
  by (simp add: same_dirs_def writable_def)

text \<open>A directory without subdirectories.\<close>

definition flat_dir :: "file_system \<Rightarrow> string \<Rightarrow> bool" where
  "flat_dir fs p \<longleftrightarrow> (\<exists>k. dir_of fs p = Some k \<and> is_dir fs k \<and> (\<forall>c. \<not> is_dir fs (k @ [c])))"

lemma same_dirs_flat: "same_dirs fs fs' \<Longrightarrow> flat_dir fs p \<Longrightarrow> flat_dir fs' p"
  using dir_of_cong [of fs fs' p] by (auto simp: flat_dir_def same_dirs_def)

lemma flat_dir_child:
  assumes "flat_dir fs p" and "plain_comp c"
  obtains k where "fs_key fs (p @ ''/'' @ c) = Some k" "\<not> is_dir fs k"
  using assms by (auto simp: flat_dir_def fs_key_child simp del: append_Cons)

lemma write_flat:
  assumes "flat_dir fs p" and "writable fs" and "plain_comp c"
  obtains fs' where "write_file fs (p @ ''/'' @ c) b = Inr fs'" "same_dirs fs fs'"
proof -
  obtain k where "fs_key fs (p @ ''/'' @ c) = Some k" "\<not> is_dir fs k"
    using flat_dir_child [OF assms(1,3)] by blast
  with assms(2) have "write_file fs (p @ ''/'' @ c) b = Inr (fs_put fs k (File b))"
    by (simp add: write_file_def writable_def)
  then show ?thesis using same_dirs_write that by blast
qed

lemma compressLayer_succeeds:
  assumes "flat_dir fs bd" and "writable fs" and "readable fs"
  obtains fs' x where "compressLayer gz fs p bd = (fs', Inr x)"
proof -
  let ?z = "gz (file_body fs p)" and ?t = "bd @ ''/'' @ tmp_layer"
  obtain fs1 where w: "write_file fs ?t ?z = Inr fs1" and s1: "same_dirs fs fs1"
    using write_flat [OF assms(1,2) tmp_layer_plain(1)] by blast
  have g: "gzipFile gz fs p ?t = Inr fs1" using w by (simp add: gzipFile_def file_body_def Let_def)
  have rt: "read_file fs1 ?t = Inr ?z"
    by (rule read_write_same [OF w]) (use assms(3) in \<open>simp add: readable_def\<close>)
  obtain k where k: "fs_key fs1 ?t = Some k" "fs_node fs1 k = Some (File ?z)"
    using rt by (auto simp: read_file_def split: option.splits fnode.splits if_splits)
  obtain k' where k': "fs_key fs1 (bd @ ''/'' @ compute_digest ?z) = Some k'" "\<not> is_dir fs1 k'"
    using flat_dir_child [OF same_dirs_flat [OF s1 assms(1)] compute_digest_plain] by blast
  obtain fs' where r: "rename_file fs1 ?t (bd @ ''/'' @ compute_digest ?z) = Inr fs'"
    using k k' same_dirs_writable [OF s1 assms(2)] by (cases "k = k'") (simp_all add: rename_file_def writable_def)
  have "sha256File fs1 ?t = Inr (hex_encode (sha256 ?z))" using rt by (simp add: sha256File_def)
  moreover have "file_size fs1 ?t = Inr (length ?z)" using k by (simp add: file_size_def)
  ultimately have "compressLayer gz fs p bd = (fs', Inr (length ?z, hex_encode (sha256 ?z)))"
    unfolding compressLayer_def tmp_path Let_def g by (simp only: sum.case digest_path r)
  then show ?thesis by (rule that)
qed

lemma prepare_layers_succeeds:
  "flat_dir fs bd \<Longrightarrow> writable fs \<Longrightarrow> readable fs \<Longrightarrow>
   \<exists>fs' objs. prepare_layers gz fs (map JStr ls) tmp bd = (fs', Inr objs)"
proof (induction ls arbitrary: fs)
  case (Cons l ls)
  obtain fs1 x where c: "compressLayer gz fs (tmp @ ''/'' @ l) bd = (fs1, Inr x)"
    using compressLayer_succeeds [OF Cons.prems] by blast
  note sd = compressLayer_entry(2) [OF c Cons.prems(3)]
  obtain fs2 objs where "prepare_layers gz fs1 (map JStr ls) tmp bd = (fs2, Inr objs)"
    using Cons.IH [OF same_dirs_flat [OF sd Cons.prems(1)] same_dirs_writable [OF sd Cons.prems(2)]
        same_dirs_readable [OF sd Cons.prems(3)]] by blast
  with c show ?case by (cases x) simp
qed simp

lemma writeManifest_succeeds:
  assumes "flat_dir fs (wd @ ''/manifests'')" and "writable fs" and "plain_comp (image_ref imageID)"
  obtains fs' where "writeManifest fs v2 wd imageID = (fs', None)"
proof -
  let ?b = "json_print v2"
  have lp: "plain_comp ''latest''" by (simp add: plain_comp_def)
  note wr = write_flat [where p = "wd @ ''/manifests''", folded manifest_file_child]
  obtain fs1 where 1: "(if image_ref imageID \<noteq> ''latest'' then write_file fs (manifest_file wd ''latest'') ?b else Inr fs) = Inr fs1"
    and s1: "same_dirs fs fs1"
  proof (cases "image_ref imageID = ''latest''")
    case True
    with that [of fs] show ?thesis by simp
  next
    case False
    obtain fs1 where "write_file fs (manifest_file wd ''latest'') ?b = Inr fs1" "same_dirs fs fs1"
      using wr [OF assms(1,2) lp] by blast
    with False that [of fs1] show ?thesis by simp
  qed
  obtain fs2 where 2: "write_file fs1 (manifest_file wd (image_ref imageID)) ?b = Inr fs2" and s2: "same_dirs fs1 fs2"
    using wr [OF same_dirs_flat [OF s1 assms(1)] same_dirs_writable [OF s1 assms(2)] assms(3)] by blast
  note s12 = same_dirs_trans [OF s1 s2]
  obtain fs3 where 3: "write_file fs2 (manifest_file wd (compute_digest ?b)) ?b = Inr fs3"
    using wr [OF same_dirs_flat [OF s12 assms(1)] same_dirs_writable [OF s12 assms(2)] compute_digest_plain] by blast
  have "writeManifest fs v2 wd imageID = (fs3, None)"
    unfolding writeManifest_def writeJSON_def Let_def 1 sum.case 2 3 by (rule refl)
  then show ?thesis by (rule that)
qed

section \<open>The files of an image\<close>

text \<open>
  The directory \<open>wd\<close> serves an image with the configuration \<open>conf\<close> under the digest \<open>cd\<close>
  and the compressed layers \<open>zs\<close>: one manifest, found as \<open>latest\<close>, as \<open>tag\<close> and by digest,
  which lists them in order, and for each a file of \<open>blobs\<close> whose content has that digest.
\<close>

definition blob_entry :: "bytes \<Rightarrow> layer_entry" where
  "blob_entry z = (length z, hex_encode (sha256 z))"

definition image_served :: "file_system \<Rightarrow> string \<Rightarrow> string \<Rightarrow> string \<Rightarrow> bytes \<Rightarrow> bytes list \<Rightarrow> bool" where
  "image_served fs wd tag cd conf zs \<longleftrightarrow>
     (\<exists>b. (\<forall>t \<in> {''latest'', tag, compute_digest b}. read_file fs (manifest_file wd t) = Inr b) \<and>
          DecodeManifest b = Inr (entry_manifest cd (length conf) (map blob_entry zs)) \<and>
          blob_digests b = Done (cd # map compute_digest zs)) \<and>
     read_file fs (blob_dir wd @ ''/'' @ cd) = Inr conf \<and>
     blobs_on_disk fs (blob_dir wd) (set zs)"

lemma entry_of_blob: "entry_of gz fs p = blob_entry (gz (file_body fs p))"
  by (simp add: entry_of_def blob_entry_def Let_def)

lemma blob_entry_digest: "entry_digest (blob_entry z) = compute_digest z"
  by (simp add: entry_digest_def blob_entry_def compute_digest_def)

lemma entry_objs_digests: "map entry_obj xs = map entry_obj ys \<Longrightarrow> map entry_digest xs = map entry_digest ys"
proof (induction xs arbitrary: ys)
  case (Cons x xs)
  then obtain y ys' where ys: "ys = y # ys'" by (cases ys) simp_all
  have "entry_obj x = entry_obj y" and t: "map entry_obj xs = map entry_obj ys'"
    using Cons.prems unfolding ys by (simp_all only: list.map list.inject)
  then have "snd x = snd y" by (simp add: layer_obj_def)
  with Cons.IH [OF t] show ?case by (simp only: ys list.map entry_digest_def)
qed simp

lemma read_file_size: "read_file fs p = Inr b \<Longrightarrow> file_size fs p = Inr (length b)"
  by (auto simp: read_file_def file_size_def split: option.splits fnode.splits if_splits)

lemma decode_blobs:
  assumes "b = json_print (v2_json cd (length conf) (map entry_obj (map blob_entry zs)))"
    and "length conf < 2 ^ 63" and "\<forall>z \<in> set zs. length z < 2 ^ 63"
  shows "DecodeManifest b = Inr (entry_manifest cd (length conf) (map blob_entry zs))"
    and "blob_digests b = Done (cd # map compute_digest zs)"
proof -
  show d: "DecodeManifest b = Inr (entry_manifest cd (length conf) (map blob_entry zs))"
    unfolding assms(1) by (rule decode_v2) (use assms(2,3) in \<open>auto simp: blob_entry_def\<close>)
  show "blob_digests b = Done (cd # map compute_digest zs)"
    unfolding blob_digests_def d by (simp add: entry_manifest_digests blob_entry_digest)
qed

abbreviation layer_bytes :: "(bytes \<Rightarrow> bytes) \<Rightarrow> file_system \<Rightarrow> string \<Rightarrow> string \<Rightarrow> bytes" where
  "layer_bytes gz fs tmp l \<equiv> gz (file_body fs (tmp @ ''/'' @ l))"

text \<open>The layers: the files written, and the objects of the manifest.\<close>

lemma layers_written:
  assumes "flat_dir fs bd" "writable fs" "readable fs" "\<forall>l \<in> set ls. apart fs (tmp @ ''/'' @ l) bd"
    and zs_def: "zs = map (layer_bytes gz fs tmp) ls"
  obtains fs' where "prepare_layers gz fs (map JStr ls) tmp bd = (fs', Inr (map entry_obj (map blob_entry zs)))"
    "same_dirs fs fs'" "blobs_on_disk fs' bd (set zs)"
    "\<And>d. plain_comp d \<Longrightarrow> d \<noteq> tmp_layer \<Longrightarrow> d \<notin> compute_digest ` set zs \<Longrightarrow>
      read_file fs' (bd @ ''/'' @ d) = read_file fs (bd @ ''/'' @ d)"
proof -
  obtain fs' objs where p: "prepare_layers gz fs (map JStr ls) tmp bd = (fs', Inr objs)"
    using prepare_layers_succeeds [OF assms(1-3)] by blast
  note en = prepare_layers_entries [OF p assms(3,4), of "{}"]
  have objs: "objs = map entry_obj (map blob_entry zs)"
    unfolding en [THEN conjunct1] zs_def by (simp only: map_map comp_def entry_of_blob)
  have "blobs_on_disk fs bd {}" by (simp add: blobs_on_disk_def)
  with en have bl: "blobs_on_disk fs' bd (set zs)" unfolding zs_def set_map by (simp only: Un_empty_right simp_thms)
  have "(\<lambda>l. entry_digest (entry_of gz fs (tmp @ ''/'' @ l))) ` set ls = compute_digest ` set zs"
    by (simp only: zs_def set_map image_image entry_of_digest)
  with en have "\<And>d. plain_comp d \<Longrightarrow> d \<noteq> tmp_layer \<Longrightarrow> d \<notin> compute_digest ` set zs \<Longrightarrow>
      read_file fs' (bd @ ''/'' @ d) = read_file fs (bd @ ''/'' @ d)" by metis
  from that [OF p [unfolded objs] conjunct1 [OF conjunct2 [OF en]] bl this] show ?thesis .
qed

text \<open>
  What is on the disk when the manifest \<open>v2\<close> is about to be written: the configuration and the
  layers, listed by the manifest.
\<close>

definition blobs_ready :: "file_system \<Rightarrow> string \<Rightarrow> json \<Rightarrow> string \<Rightarrow> bytes \<Rightarrow> bytes list \<Rightarrow> bool" where
  "blobs_ready fs wd v2 cd conf zs \<longleftrightarrow>
     writable fs \<and> readable fs \<and> flat_dir fs (wd @ ''/manifests'') \<and>
     read_file fs (blob_dir wd @ ''/'' @ cd) = Inr conf \<and> blobs_on_disk fs (blob_dir wd) (set zs) \<and>
     DecodeManifest (json_print v2) = Inr (entry_manifest cd (length conf) (map blob_entry zs)) \<and>
     blob_digests (json_print v2) = Done (cd # map compute_digest zs)"

lemma prep_image_steps:
  assumes conf: "read_file fs (tmp @ ''/'' @ configFile) = Inr conf" "length conf < 2 ^ 63"
    and dirs: "flat_dir fs (blob_dir wd)" "flat_dir fs (wd @ ''/manifests'')" "writable fs" "readable fs"
    and ls: "member mf ''Layers'' = Some (JArr (map JStr ls))" "\<forall>l \<in> set ls. apart fs (tmp @ ''/'' @ l) (blob_dir wd)"
    and gz: "\<forall>b. length (gz b) < 2 ^ 63"
    and nm: "plain_comp (''sha256:'' @ dg)"
    and cd: "''sha256:'' @ dg \<notin> (\<lambda>l. compute_digest (layer_bytes gz fs tmp l)) ` set ls"
  obtains fs2 v2 where "\<And>imageID. prep_image gz fs mf configFile dg tmp wd imageID = writeManifest fs2 v2 wd imageID"
    "blobs_ready fs2 wd v2 (''sha256:'' @ dg) conf (map (layer_bytes gz fs tmp) ls)"
proof -
  define cdg where "cdg = ''sha256:'' @ dg"
  define zs where "zs = map (layer_bytes gz fs tmp) ls"
  let ?dest = "blob_dir wd @ ''/'' @ cdg" and ?v2 = "v2_json cdg (length conf) (map entry_obj (map blob_entry zs))"
  note pc = nm [folded cdg_def]
  have nt: "cdg \<noteq> tmp_layer" by (simp add: cdg_def tmp_layer_def)
  obtain fs1 where w: "write_file fs ?dest conf = Inr fs1" and s1: "same_dirs fs fs1"
    using write_flat [OF dirs(1,3) pc] by blast
  have c: "copyFile fs (tmp @ ''/'' @ configFile) ?dest = Inr fs1" unfolding copyFile_def conf(1) sum.case by (rule w)
  note r1 = same_dirs_readable [OF s1 dirs(4)]
  have d1: "read_file fs1 ?dest = Inr conf" by (rule read_write_same [OF w]) (use dirs(4) in \<open>simp add: readable_def\<close>)
  have zs1: "map (layer_bytes gz fs1 tmp) ls = zs"
    unfolding zs_def using ls(2) pc
    by (intro map_cong refl arg_cong [of _ _ gz] file_body_cong read_write_other [OF w]) (simp add: apart_def)
  have ap: "\<forall>l \<in> set ls. apart fs1 (tmp @ ''/'' @ l) (blob_dir wd)" using ls(2) apart_same_dirs [OF s1] by blast
  obtain fs2 where p: "prepare_layers gz fs1 (map JStr ls) tmp (blob_dir wd) = (fs2, Inr (map entry_obj (map blob_entry zs)))"
    and s2: "same_dirs fs1 fs2" and bl: "blobs_on_disk fs2 (blob_dir wd) (set zs)"
    and keep: "\<And>d. plain_comp d \<Longrightarrow> d \<noteq> tmp_layer \<Longrightarrow> d \<notin> compute_digest ` set zs \<Longrightarrow>
      read_file fs2 (blob_dir wd @ ''/'' @ d) = read_file fs1 (blob_dir wd @ ''/'' @ d)"
    using layers_written [OF same_dirs_flat [OF s1 dirs(1)] same_dirs_writable [OF s1 dirs(3)] r1 ap zs1 [symmetric]] by blast
  have "cdg \<notin> compute_digest ` set zs"
    using cd unfolding cdg_def [symmetric] zs_def by (simp only: set_map image_image) simp
  then have d2: "read_file fs2 ?dest = Inr conf" using keep [OF pc nt] d1 by simp
  have m: "makeV2Manifest gz fs1 mf cdg ?dest tmp wd = (fs2, Inr ?v2)"
    unfolding makeV2Manifest_eq ls(1) option.case json.case p prod.case sum.case
      read_file_size [OF d2] by (rule refl)
  note s12 = same_dirs_trans [OF s1 s2]
  have "prep_image gz fs mf configFile dg tmp wd imageID = writeManifest fs2 ?v2 wd imageID" for imageID
    unfolding prep_image_def Let_def cdg_def [symmetric] c sum.case m prod.case by (rule refl)
  moreover have "\<forall>z \<in> set zs. length z < 2 ^ 63" using gz by (simp add: zs_def)
  note decode_blobs [OF refl conf(2) this, of cdg]
  with d2 bl have "blobs_ready fs2 wd ?v2 cdg conf zs" unfolding blobs_ready_def
    using same_dirs_flat [OF s12 dirs(2)] same_dirs_writable [OF s12 dirs(3)] same_dirs_readable [OF s12 dirs(4)]
    by (intro conjI)
  ultimately show ?thesis unfolding cdg_def zs_def by (rule that)
qed

lemma writeManifest_serves:
  assumes "blobs_ready fs wd v2 cd conf zs" and "plain_comp (image_ref imageID)" and "plain_comp cd"
  obtains fs' where "writeManifest fs v2 wd imageID = (fs', None)" "image_served fs' wd (image_ref imageID) cd conf zs"
proof -
  note r = assms(1) [unfolded blobs_ready_def]
  obtain fs' where w: "writeManifest fs v2 wd imageID = (fs', None)"
    using writeManifest_succeeds [OF _ _ assms(2)] r by blast
  note wm = writeManifest_ok [OF w _ assms(2)]
  have "read_file fs' (blob_dir wd @ ''/'' @ cd) = Inr conf"
    using writeManifest_keeps [OF w assms(2,3)] r by simp
  with r wm have "image_served fs' wd (image_ref imageID) cd conf zs"
    unfolding image_served_def by blast
  with w show ?thesis by (rule that)
qed

section \<open>New directories\<close>

text \<open>\<open>fs'\<close> has everything that \<open>fs\<close> has.\<close>

definition grows :: "file_system \<Rightarrow> file_system \<Rightarrow> bool" where
  "grows fs fs' \<longleftrightarrow> cwd fs' = cwd fs \<and> no_read fs' = no_read fs \<and> no_write fs' = no_write fs \<and>
     (\<forall>k n. fs_node fs k = Some n \<longrightarrow> fs_node fs' k = Some n)"

lemma grows_trans: "grows fs fs1 \<Longrightarrow> grows fs1 fs2 \<Longrightarrow> grows fs fs2"
  by (simp add: grows_def)

lemma grows_put: "fs_node fs k = None \<Longrightarrow> grows fs (fs_put fs k n)"
  by (auto simp: grows_def fs_simps)

lemma grows_dir: "grows fs fs' \<Longrightarrow> is_dir fs k \<Longrightarrow> is_dir fs' k"
  by (simp add: grows_def is_dir_def)

lemma grows_walk: "fs_walk fs cur cs = Some k \<Longrightarrow> grows fs fs' \<Longrightarrow> fs_walk fs' cur cs = Some k"
  by (induction fs cur cs rule: fs_walk.induct) (auto simp: grows_dir split: if_splits)

lemma grows_key: "fs_key fs p = Some k \<Longrightarrow> grows fs fs' \<Longrightarrow> fs_key fs' p = Some k"
  using grows_walk [of fs _ _ k fs'] by (auto simp: fs_key_def grows_def split: if_splits)

lemma grows_dir_of: "dir_of fs p = Some k \<Longrightarrow> grows fs fs' \<Longrightarrow> dir_of fs' p = Some k"
  using grows_walk [of fs _ _ k fs'] by (auto simp: dir_of_def grows_def)

lemma read_file_InrE:
  assumes "read_file fs p = Inr b"
  obtains k where "fs_key fs p = Some k" "\<not> no_read fs k" "fs_node fs k = Some (File b)"
  using assms by (auto simp: read_file_def split: option.splits fnode.splits if_splits)

lemma grows_read:
  assumes "read_file fs p = Inr b" and "grows fs fs'"
  shows "read_file fs' p = Inr b"
proof -
  obtain k where k: "fs_key fs p = Some k" "\<not> no_read fs k" "fs_node fs k = Some (File b)"
    using assms(1) by (rule read_file_InrE)
  with assms(2) have "fs_node fs' k = Some (File b)" "\<not> no_read fs' k" by (simp_all add: grows_def)
  with grows_key [OF k(1) assms(2)] show ?thesis by (simp add: read_file_def)
qed

lemma mkdir_child:
  assumes "dir_of fs p = Some k" and "is_dir fs k" and "plain_comp c" and "fs_node fs (k @ [c]) = None" and "writable fs"
  shows "mkdir fs (p @ ''/'' @ c) = fs_put fs (k @ [c]) Dir"
proof -
  have "fs_key fs (p @ ''/'' @ c) = Some (k @ [c])" unfolding fs_key_child [OF assms(3)] using assms(1,2) by simp
  with assms(4,5) show ?thesis by (simp add: mkdir_def stat_exists_def mkdir_one_def writable_def)
qed

text \<open>An empty directory, as \<open>mktmp\<close> makes it.\<close>

definition empty_dir :: "file_system \<Rightarrow> string \<Rightarrow> bool" where
  "empty_dir fs p \<longleftrightarrow> (\<exists>k. dir_of fs p = Some k \<and> is_dir fs k \<and> (\<forall>c x. fs_node fs (k @ c # x) = None))"

lemma work_dirs:
  assumes "empty_dir fs rootdir" and "plain_comp name" and "writable fs"
  defines "wd \<equiv> rootdir @ ''/'' @ name"
  defines "fs' \<equiv> mkdir (mkdir (mkdir fs wd) (wd @ ''/manifests'')) (blob_dir wd)"
  shows "grows fs fs'" and "flat_dir fs' (blob_dir wd)" and "flat_dir fs' (wd @ ''/manifests'')"
    and "fs_key fs q = Some kq \<Longrightarrow> fs_node fs kq \<noteq> None \<Longrightarrow> apart fs' q (blob_dir wd)"
proof -
  obtain k where k: "dir_of fs rootdir = Some k" "is_dir fs k" "\<And>c x. fs_node fs (k @ c # x) = None"
    using assms(1) unfolding empty_dir_def by blast
  have pm: "plain_comp ''manifests''" and pb: "plain_comp ''blobs''" by (simp_all add: plain_comp_def)
  have bd: "blob_dir wd = wd @ ''/'' @ ''blobs''" and md: "wd @ ''/manifests'' = wd @ ''/'' @ ''manifests''"
    by (simp_all add: blob_dir_def)
  define fs1 where "fs1 = fs_put fs (k @ [name]) Dir"
  define fs2 where "fs2 = fs_put fs1 (k @ [name, ''manifests'']) Dir"
  define fs3 where "fs3 = fs_put fs2 (k @ [name, ''blobs'']) Dir"
  have f1: "mkdir fs wd = fs1" unfolding wd_def fs1_def by (rule mkdir_child [OF k(1,2) assms(2) k(3) assms(3)])
  have g1: "grows fs fs1" unfolding fs1_def by (rule grows_put) (rule k(3))
  have w1: "dir_of fs1 wd = Some (k @ [name])" "is_dir fs1 (k @ [name])"
    unfolding wd_def dir_of_child [OF assms(2)] grows_dir_of [OF k(1) g1] using grows_dir [OF g1 k(2)]
    by (simp_all add: fs1_def is_dir_def fs_simps)
  have n1: "fs_node fs1 (k @ name # c # x) = None" for c x using k(3) by (simp add: fs1_def fs_simps)
  have f2: "mkdir fs1 (wd @ ''/manifests'') = fs2" unfolding md fs2_def
    using mkdir_child [OF w1 pm] n1 assms(3) by (simp add: writable_def fs1_def fs_simps)
  have g2: "grows fs1 fs2" unfolding fs2_def by (rule grows_put) (rule n1)
  have n2: "fs_node fs2 (k @ name # ''blobs'' # x) = None" "fs_node fs2 (k @ name # ''manifests'' # c # x) = None" for c x
    using n1 by (simp_all add: fs2_def fs_simps)
  have f3: "mkdir fs2 (blob_dir wd) = fs3" unfolding bd fs3_def
    using mkdir_child [OF grows_dir_of [OF w1(1) g2] grows_dir [OF g2 w1(2)] pb] n2(1) assms(3)
    by (simp add: writable_def fs1_def fs2_def fs_simps)
  have g3: "grows fs2 fs3" unfolding fs3_def by (rule grows_put) (rule n2(1))
  have fs': "fs' = fs3" unfolding fs'_def f1 f2 f3 by (rule refl)
  note g23 = grows_trans [OF g2 g3]
  show g: "grows fs fs'" unfolding fs' by (rule grows_trans [OF g1 g23])
  have d: "dir_of fs3 (blob_dir wd) = Some (k @ [name, ''blobs''])" "dir_of fs3 (wd @ ''/manifests'') = Some (k @ [name, ''manifests''])"
    unfolding bd md dir_of_child [OF pb] dir_of_child [OF pm] grows_dir_of [OF w1(1) g23] using grows_dir [OF g23 w1(2)] by simp_all
  have n3: "fs_node fs3 (k @ name # ''blobs'' # c # x) = None" "fs_node fs3 (k @ name # ''manifests'' # c # x) = None" for c x
    using n2 by (simp_all add: fs3_def fs_simps)
  have i: "is_dir fs3 (k @ [name, ''blobs''])" "is_dir fs3 (k @ [name, ''manifests''])"
    by (simp_all add: fs3_def fs2_def is_dir_def fs_simps)
  show "flat_dir fs' (blob_dir wd)" "flat_dir fs' (wd @ ''/manifests'')"
    unfolding fs' flat_dir_def using d i n3 by (simp_all add: is_dir_def)
  show "apart fs' q (blob_dir wd)" if q: "fs_key fs q = Some kq" "fs_node fs kq \<noteq> None"
  proof -
    have "fs_key fs3 q = Some kq" using grows_key [OF q(1) g] by (simp add: fs')
    moreover have "fs_key fs3 (blob_dir wd @ ''/'' @ t) = Some (k @ [name, ''blobs'', t])" if "plain_comp t" for t
      unfolding fs_key_child [OF that] d(1) using i(1) by simp
    moreover have "kq \<noteq> k @ [name, ''blobs'', t]" for t using q(2) k(3) by metis
    ultimately show ?thesis unfolding apart_def fs' by simp
  qed
qed

section \<open>Preparing an archive\<close>

text \<open>
  The directory \<open>tmp\<close> holds the unpacked archive of one image: \<open>manifest.json\<close> names the
  configuration file, whose name without \<open>.json\<close> is \<open>dg\<close>, and the layer files \<open>ls\<close>, and all
  of them can be read.
\<close>

definition archive_at :: "file_system \<Rightarrow> string \<Rightarrow> string \<Rightarrow> bytes \<Rightarrow> string list \<Rightarrow> bool" where
  "archive_at fs tmp dg conf ls \<longleftrightarrow>
     (\<exists>mf more configFile.
        readJSONArray fs (tmp @ ''/manifest.json'') = Inr (mf # more) \<and>
        member mf ''Config'' = Some (JStr configFile) \<and> strip_json configFile = Some dg \<and>
        read_file fs (tmp @ ''/'' @ configFile) = Inr conf \<and>
        member mf ''Layers'' = Some (JArr (map JStr ls))) \<and>
     (\<forall>l \<in> set ls. \<exists>b. read_file fs (tmp @ ''/'' @ l) = Inr b)"

lemma json_parse_Nil [simp]: "json_parse [] = None"
  by code_simp

lemma readJSONArray_grows:
  assumes "readJSONArray fs p = Inr v" and "grows fs fs'"
  shows "readJSONArray fs' p = Inr v"
proof -
  have "\<exists>b. read_file fs p = Inr b"
    using assms(1) by (cases "read_file fs p") (simp_all add: readJSONArray_def file_body_def)
  then have "file_body fs' p = file_body fs p"
    using grows_read [OF _ assms(2)] by (auto simp: file_body_def)
  with assms(1) show ?thesis by (simp add: readJSONArray_def)
qed

text \<open>Up to the writing of the manifest the preparation cannot fail.\<close>

lemma prep_in_steps:
  assumes "archive_at fs tmp dg conf ls" and "image_name fs tmp = Inr name" and "empty_dir fs rootdir"
    and "plain_comp name" and "plain_comp (''sha256:'' @ dg)" and "writable fs" and "readable fs"
    and "length conf < 2 ^ 63" and "\<forall>b. length (gz b) < 2 ^ 63"
    and "''sha256:'' @ dg \<notin> (\<lambda>l. compute_digest (layer_bytes gz fs tmp l)) ` set ls"
  obtains fs2 v2 where
    "\<And>imageID. prep_in gz fs tmp imageID rootdir = (case writeManifest fs2 v2 (rootdir @ ''/'' @ name) imageID of (f, x) \<Rightarrow> (f, Done x))"
    "blobs_ready fs2 (rootdir @ ''/'' @ name) v2 (''sha256:'' @ dg) conf (map (layer_bytes gz fs tmp) ls)"
proof -
  let ?wd = "rootdir @ ''/'' @ name"
  obtain mf more configFile where mf: "readJSONArray fs (tmp @ ''/manifest.json'') = Inr (mf # more)"
    and cf: "member mf ''Config'' = Some (JStr configFile)" "strip_json configFile = Some dg"
    and conf: "read_file fs (tmp @ ''/'' @ configFile) = Inr conf"
    and ly: "member mf ''Layers'' = Some (JArr (map JStr ls))" "\<forall>l \<in> set ls. \<exists>b. read_file fs (tmp @ ''/'' @ l) = Inr b"
    using assms(1) unfolding archive_at_def by blast
  define fs1 where "fs1 = mkdir (mkdir (mkdir fs ?wd) (?wd @ ''/manifests'')) (blob_dir ?wd)"
  note wk = work_dirs [OF assms(3,4,6), folded fs1_def]
  have rw: "writable fs1" "readable fs1" using wk(1) assms(6,7) by (simp_all add: grows_def writable_def readable_def)
  have ap: "\<forall>l \<in> set ls. apart fs1 (tmp @ ''/'' @ l) (blob_dir ?wd)"
  proof
    fix l assume "l \<in> set ls"
    with ly(2) obtain b where "read_file fs (tmp @ ''/'' @ l) = Inr b" by blast
    then obtain k where "fs_key fs (tmp @ ''/'' @ l) = Some k" "fs_node fs k = Some (File b)" by (rule read_file_InrE)
    then show "apart fs1 (tmp @ ''/'' @ l) (blob_dir ?wd)" using wk(4) by simp
  qed
  have same: "file_body fs1 (tmp @ ''/'' @ l) = file_body fs (tmp @ ''/'' @ l)" if l: "l \<in> set ls" for l
  proof -
    obtain b where b: "read_file fs (tmp @ ''/'' @ l) = Inr b" using ly(2) l by blast
    show ?thesis unfolding file_body_def b grows_read [OF b wk(1)] by (rule refl)
  qed
  then have zs: "map (layer_bytes gz fs1 tmp) ls = map (layer_bytes gz fs tmp) ls" by (intro map_cong refl arg_cong [of _ _ gz])
  have cd: "''sha256:'' @ dg \<notin> (\<lambda>l. compute_digest (layer_bytes gz fs1 tmp l)) ` set ls"
    using assms(10) arg_cong [OF zs, of "\<lambda>xs. compute_digest ` set xs"] by (simp only: set_map image_image) simp
  obtain fs2 v2 where p: "\<And>imageID. prep_image gz fs1 mf configFile dg tmp ?wd imageID = writeManifest fs2 v2 ?wd imageID"
    and ready: "blobs_ready fs2 ?wd v2 (''sha256:'' @ dg) conf (map (layer_bytes gz fs1 tmp) ls)"
    using prep_image_steps [OF grows_read [OF conf wk(1)] assms(8) wk(2,3) rw ly(1) ap assms(9,5) cd] by blast
  have "prep_in gz fs tmp imageID rootdir = (case writeManifest fs2 v2 ?wd imageID of (f, x) \<Rightarrow> (f, Done x))" for imageID
    unfolding prep_in_def assms(2) sum.case Let_def fs1_def [symmetric] readJSONArray_grows [OF mf wk(1)]
      list.case cf option.case json.case p by (rule refl)
  from this ready [unfolded zs] show ?thesis by (rule that)
qed

lemma prep_in_serves:
  assumes "archive_at fs tmp dg conf ls" and "image_name fs tmp = Inr name" and "empty_dir fs rootdir"
    and "plain_comp name" and "plain_comp (''sha256:'' @ dg)" and "writable fs" and "readable fs"
    and "length conf < 2 ^ 63" and "\<forall>b. length (gz b) < 2 ^ 63"
    and "''sha256:'' @ dg \<notin> (\<lambda>l. compute_digest (layer_bytes gz fs tmp l)) ` set ls"
    and "plain_comp (image_ref imageID)"
  shows "\<exists>fs'. prep_in gz fs tmp imageID rootdir = (fs', Done None) \<and>
    image_served fs' (rootdir @ ''/'' @ name) (image_ref imageID) (''sha256:'' @ dg) conf (map (layer_bytes gz fs tmp) ls)"
proof -
  let ?wd = "rootdir @ ''/'' @ name"
  obtain fs2 v2 where p: "\<And>i. prep_in gz fs tmp i rootdir = (case writeManifest fs2 v2 ?wd i of (f, x) \<Rightarrow> (f, Done x))"
    and ready: "blobs_ready fs2 ?wd v2 (''sha256:'' @ dg) conf (map (layer_bytes gz fs tmp) ls)"
    using prep_in_steps [OF assms(1-10)] by blast
  obtain fs' where w: "writeManifest fs2 v2 ?wd imageID = (fs', None)"
    and served: "image_served fs' ?wd (image_ref imageID) (''sha256:'' @ dg) conf (map (layer_bytes gz fs tmp) ls)"
    using writeManifest_serves [OF ready assms(11,5)] by blast
  from p [of imageID] have "prep_in gz fs tmp imageID rootdir = (fs', Done None)" unfolding w prod.case .
  with served show ?thesis by blast
qed


text \<open>A path through something that is not a directory leads nowhere.\<close>

lemma write_through_file:
  assumes "flat_dir fs p" and "plain_comp a"
  shows "fs_key fs (p @ ''/'' @ a @ ''/'' @ b) = None"
proof -
  obtain k where k: "dir_of fs p = Some k" "is_dir fs k" "\<not> is_dir fs (k @ [a])" using assms(1) by (auto simp: flat_dir_def)
  obtain c cs where "split_on (CHR ''/'') b = c # cs" by (cases "split_on (CHR ''/'') b") simp_all
  moreover have "fs_key fs (p @ ''/'' @ a @ ''/'' @ b) =
      (case dir_of fs (p @ ''/'' @ a) of None \<Rightarrow> None | Some k \<Rightarrow> fs_walk fs k (split_on (CHR ''/'') b))"
    using split_on_append_sep [of "CHR ''/''" "p @ ''/'' @ a" b]
    by (auto simp: fs_key_def dir_of_def rooted_child fs_walk_append rooted_append split: option.splits)
  ultimately show ?thesis using k unfolding dir_of_child [OF assms(2)] by simp
qed

text \<open>
  An image named with a registry host and port cannot be pushed. The part behind the
  first colon of \<open>host:port/name\<close> is taken for the tag; it contains a slash, so the manifest
  would have to be written into a directory that does not exist, and the preparation fails
  for every archive.
\<close>
theorem push_of_host_port_name_fails:
  assumes "archive_at fs tmp dg conf ls" and "image_name fs tmp = Inr name" and "empty_dir fs rootdir"
    and "plain_comp name" and "plain_comp (''sha256:'' @ dg)" and "writable fs" and "readable fs"
    and "length conf < 2 ^ 63" and "\<forall>b. length (gz b) < 2 ^ 63"
    and "''sha256:'' @ dg \<notin> (\<lambda>l. compute_digest (layer_bytes gz fs tmp l)) ` set ls"
    and "CHR '':'' \<notin> set h" and "plain_comp port" and "\<not> has_substr (h @ '':'' @ port @ ''/'' @ nm) ''sha256:''"
  shows "\<exists>fs' e. prep_in gz fs tmp (h @ '':'' @ port @ ''/'' @ nm) rootdir = (fs', Done (Some e))"
proof -
  let ?wd = "rootdir @ ''/'' @ name" and ?id = "h @ '':'' @ port @ ''/'' @ nm"
  have ref: "image_ref ?id = port @ ''/'' @ nm" using assms(11,13) by (simp add: image_ref_def splitn2_append)
  obtain fs2 v2 where p: "\<And>i. prep_in gz fs tmp i rootdir = (case writeManifest fs2 v2 ?wd i of (f, x) \<Rightarrow> (f, Done x))"
    and ready: "blobs_ready fs2 ?wd v2 (''sha256:'' @ dg) conf (map (layer_bytes gz fs tmp) ls)"
    using prep_in_steps [OF assms(1-10)] by blast
  have "\<exists>fs' e. writeManifest fs2 v2 ?wd ?id = (fs', Some e)"
  proof -
    have "CHR ''/'' \<in> set (port @ ''/'' @ nm)" "CHR ''/'' \<notin> set ''latest''" by simp_all
    then have nl: "port @ ''/'' @ nm \<noteq> ''latest''" by metis
    have bad: "write_file f (manifest_file ?wd (port @ ''/'' @ nm)) b = Inl (path_error ''open'' (manifest_file ?wd (port @ ''/'' @ nm)) ''not a directory or no such file'')"
      if "flat_dir f (?wd @ ''/manifests'')" for f b
      unfolding write_file_def manifest_file_child write_through_file [OF that assms(12)] by simp
    obtain f1 where f1: "write_file fs2 (manifest_file ?wd ''latest'') (json_print v2) = Inr f1" "same_dirs fs2 f1"
      using write_flat [of fs2 "?wd @ ''/manifests''" "''latest''"] ready unfolding blobs_ready_def manifest_file_child
      by (auto simp: plain_comp_def)
    from ready have "flat_dir f1 (?wd @ ''/manifests'')" using same_dirs_flat [OF f1(2)] by (simp add: blobs_ready_def)
    from bad [OF this] have "writeManifest fs2 v2 ?wd ?id = (f1, Some (path_error ''open'' (manifest_file ?wd (port @ ''/'' @ nm)) ''not a directory or no such file''))"
      unfolding writeManifest_def ref Let_def writeJSON_def f1(1) using nl by (simp only: if_True sum.case simp_thms)
    then show ?thesis by blast
  qed
  then obtain fs' e where "writeManifest fs2 v2 ?wd ?id = (fs', Some e)" by blast
  with p [of ?id] show ?thesis by auto
qed

text \<open>A disk with a small archive in \<open>/t\<close> and the empty directory \<open>/r\<close>.\<close>

definition small_archive :: file_system where
  "small_archive =
     \<lparr>nodes = [([''t''], Dir), ([''r''], Dir),
        ([''t'', ''manifest.json''], File (json_print (JArr [JObj [(''Config'', JStr ''ab.json''), (''Layers'', JArr [JStr ''l.tar''])]]))),
        ([''t'', ''ab.json''], File ''{}''), ([''t'', ''l.tar''], File ''L'')],
      cwd = [], no_read = (\<lambda>k. False), no_write = (\<lambda>k. False)\<rparr>"

lemma small_archive_at: "archive_at small_archive ''/t'' ''ab'' ''{}'' [''l.tar'']"
proof -
  have "readJSONArray small_archive (''/t'' @ ''/manifest.json'') =
      Inr [[(''Config'', JStr ''ab.json''), (''Layers'', JArr [JStr ''l.tar''])]]" by code_simp
  moreover have "read_file small_archive (''/t'' @ ''/'' @ ''ab.json'') = Inr ''{}''"
    "read_file small_archive (''/t'' @ ''/'' @ ''l.tar'') = Inr ''L''" by code_simp+
  ultimately show ?thesis
    unfolding archive_at_def
    by (intro conjI exI [of _ "[(''Config'', JStr ''ab.json''), (''Layers'', JArr [JStr ''l.tar''])]"] exI [of _ "[]"]
        exI [of _ "''ab.json''"]) (simp_all add: member_def strip_json_def)
qed

lemma small_archive_facts:
  "image_name small_archive ''/t'' = Inr ''default''" "empty_dir small_archive ''/r''"
  "writable small_archive" "readable small_archive"
proof -
  show "image_name small_archive ''/t'' = Inr ''default''" by code_simp
  have "dir_of small_archive ''/r'' = Some [''r'']" "is_dir small_archive [''r'']" by code_simp+
  then show "empty_dir small_archive ''/r''"
    unfolding empty_dir_def by (intro exI [of _ "[''r'']"]) (simp add: small_archive_def fs_node_def)
qed (simp_all add: writable_def readable_def small_archive_def)

lemma small_digest: "''sha256:'' @ ''ab'' \<notin> (\<lambda>l. compute_digest ''z'') ` set [''l.tar'']"
proof -
  have "length (''sha256:'' @ ''ab'') \<noteq> length (compute_digest ''z'')" by simp
  then have "''sha256:'' @ ''ab'' \<noteq> compute_digest ''z''" by (rule contrapos_nn) (rule arg_cong)
  then show ?thesis by (simp only: image_iff bex_simps) simp
qed


theorem push_of_host_port_name_fails_witness:
  "\<exists>fs' e. prep_in (\<lambda>b. ''z'') small_archive ''/t'' (''localhost'' @ '':'' @ ''5000'' @ ''/'' @ ''app:v1'') ''/r'' =
    (fs', Done (Some e))"
proof -
  have sub: "\<not> has_substr (''localhost'' @ '':'' @ ''5000'' @ ''/'' @ ''app:v1'') ''sha256:''" by code_simp
  show ?thesis
    by (rule push_of_host_port_name_fails [OF small_archive_at small_archive_facts(1,2) _ _ small_archive_facts(3,4) _ _ small_digest _ _ sub])
      (simp_all add: plain_comp_def)
qed

end
