(* ===== verification/Untar.thy ===== *)
theory Untar
  imports ImagePrep
begin

text \<open>
  Where \<open>untar\<close> (\<open>registry/registry.go\<close>) writes. An archive whose names have no \<open>..\<close>
  component changes nothing outside the destination; with such components it overwrites any
  file that the process may write.
\<close>

section \<open>The target of an entry\<close>

definition target_comps :: "string \<Rightarrow> string \<Rightarrow> string list" where
  "target_comps dst name = clean_comps True (rev (clean_path_comps dst)) (split_on (CHR ''/'') name)"

lemma target_comps_plain [simp]: "list_all plain_comp (target_comps dst name)"
  unfolding target_comps_def by (rule clean_comps_all_plain) (auto dest: split_on_sep)

lemma path_join_target:
  assumes "rooted dst"
  shows "path_join [dst, name] = abs_path (target_comps dst name)"
proof (cases "name = []")
  case True
  have "dst \<noteq> []" using assms by (auto simp: rooted_def)
  with assms True show ?thesis by (simp add: path_join_def path_clean_rooted target_comps_def)
next
  case False
  have "dst \<noteq> []" using assms by (auto simp: rooted_def)
  with False have "path_join [dst, name] = path_clean (dst @ CHR ''/'' # name)" by (simp add: path_join_def)
  also have "\<dots> = abs_path (clean_comps True [] (split_on (CHR ''/'') dst @ split_on (CHR ''/'') name))"
    using assms by (simp add: path_clean_rooted rooted_append clean_path_comps_def split_on_append_sep)
  finally show ?thesis
    by (simp add: clean_comps_append [of _ _ "split_on (CHR ''/'') dst"] target_comps_def clean_path_comps_def)
qed

lemma clean_comps_no_up:
  "''..'' \<notin> set cs \<Longrightarrow> clean_comps b acc cs = rev acc @ filter (\<lambda>c. c \<noteq> '''' \<and> c \<noteq> ''.'') cs"
  by (induction cs arbitrary: acc) auto

lemma target_inside:
  "''..'' \<notin> set (split_on (CHR ''/'') name) \<Longrightarrow> prefix (clean_path_comps dst) (target_comps dst name)"
  by (simp add: target_comps_def clean_comps_no_up)

lemma target_escape:
  assumes "list_all plain_comp cs"
  shows "target_comps dst (escape_name dst cs) = cs"
proof -
  let ?D = "clean_path_comps dst"
  have "replicate (Suc (length ?D)) ''..'' @ cs \<noteq> []" by simp
  moreover have "\<forall>x \<in> set (replicate (Suc (length ?D)) ''..'' @ cs). CHR ''/'' \<notin> set x"
    using assms by (auto simp: list_all_iff plain_comp_def simp del: replicate.simps)
  ultimately have "split_on (CHR ''/'') (escape_name dst cs) = replicate (Suc (length ?D)) ''..'' @ cs"
    unfolding escape_name_def by (rule split_on_join)
  then have "target_comps dst (escape_name dst cs) = clean_comps True (rev ?D) (replicate (Suc (length ?D)) ''..'' @ cs)"
    by (simp only: target_comps_def)
  also have "\<dots> = clean_comps True [] cs" by (rule clean_comps_up) simp_all
  also have "\<dots> = cs" using assms by (simp add: clean_comps_plain)
  finally show ?thesis .
qed

section \<open>What an operation changes\<close>

lemma mk_dirs_other:
  "\<forall>n. k \<noteq> cur @ take n cs \<Longrightarrow> fs_node (fst (mk_dirs fs cur cs)) k = fs_node fs k"
proof (induction fs cur cs rule: mk_dirs.induct)
  case (2 fs cur c cs)
  have c: "k \<noteq> cur @ [c]" using "2.prems" [rule_format, of 1] by simp
  have k: "\<forall>n. k \<noteq> (cur @ [c]) @ take n cs"
  proof
    fix n show "k \<noteq> (cur @ [c]) @ take n cs" using "2.prems" [rule_format, of "Suc n"] by simp
  qed
  show ?case
  proof (cases "fs_node fs (cur @ [c])")
    case None
    with "2.IH"(1) [OF None _ k] c show ?thesis by (auto simp: fs_simps)
  next
    case (Some nd)
    with "2.IH"(2) [OF Some _ k] show ?thesis by (cases nd) simp_all
  qed
qed simp

lemma mk_dirs_keeps: "fs_node fs k = Some n \<Longrightarrow> fs_node (fst (mk_dirs fs cur cs)) k = Some n"
  using mk_dirs_mono [of fs k cur cs] mk_dirs_files [of fs cur cs k] by (cases n) (auto simp: is_dir_def)

lemma mkdir_all_inside:
  assumes "list_all plain_comp t" and "prefix d t" and "\<forall>n. is_dir fs (take n d)" and "\<not> strict_prefix d k"
  shows "fs_node (fst (mkdir_all fs (abs_path t))) k = fs_node fs k"
proof -
  have mk: "mkdir_all fs (abs_path t) = mk_dirs fs [] t" using assms(1) by (simp add: mkdir_all_def abs_comps_abs_path)
  show ?thesis
  proof (cases "\<exists>n. k = take n t")
    case True
    then obtain n where k: "k = take n t" by blast
    from assms(2) obtain x where x: "t = d @ x" by (auto elim: prefixE)
    have "k = take n d"
    proof (cases "n \<le> length d")
      case False
      have "k = d @ take (n - length d) x" using False by (simp add: k x)
      with assms(4) have "take (n - length d) x = []" by (auto simp: strict_prefix_def)
      with \<open>k = d @ _\<close> False show ?thesis by simp
    qed (simp add: k x)
    with assms(3) have "fs_node fs k = Some Dir" by (simp add: is_dir_def)
    with mk_dirs_keeps [OF this] show ?thesis by (simp add: mk)
  next
    case False
    with mk_dirs_other [of k "[]" t fs] show ?thesis by (simp add: mk)
  qed
qed

lemma open_and_write_inside:
  assumes "open_and_write fs (abs_path t) b = Inr fs'" and "list_all plain_comp t" and "prefix d t"
    and "\<forall>n. is_dir fs (take n d)" and "\<not> strict_prefix d k"
  shows "fs_node fs' k = fs_node fs k"
proof -
  from assms(1) obtain k' n where w: "fs_key fs (abs_path t) = Some k'" "fs' = fs_put fs k' n" "\<not> is_dir fs k'"
    by (auto simp: open_and_write_def is_dir_def split: option.splits fnode.splits if_splits)
  then have t: "k' = t" using fs_key_abs_path_SomeD assms(2) by blast
  have "is_dir fs d" using assms(4) [rule_format, of "length d"] by simp
  with w(3) t have "d \<noteq> t" by auto
  with assms(3,5) have "k \<noteq> t" by (auto simp: strict_prefix_def)
  with t w(2) show ?thesis by (auto simp: fs_simps)
qed

lemma outside_take: "\<not> strict_prefix d (take n d)"
  by (metis length_take min.cobounded1 not_less prefix_length_less)

lemma untar_inside:
  "rooted dst \<Longrightarrow> d = clean_path_comps dst \<Longrightarrow> \<forall>n. is_dir fs (take n d) \<Longrightarrow>
   \<forall>e \<in> set es. ''..'' \<notin> set (split_on (CHR ''/'') (te_name e)) \<Longrightarrow> \<not> strict_prefix d k \<Longrightarrow>
   fs_node (fst (untar fs es err dst)) k = fs_node fs k"
proof (induction fs es err dst rule: untar.induct)
  case (2 fs e es err dst)
  let ?t = "target_comps dst (te_name e)"
  have p: "path_join [dst, te_name e] = abs_path ?t" by (rule path_join_target [OF "2.prems"(1)])
  have pre: "prefix d ?t" using "2.prems"(2,4) by (simp add: target_inside)
  have dirs: "\<forall>n. is_dir fs' (take n d)" if "\<And>x. \<not> strict_prefix d x \<Longrightarrow> fs_node fs' x = fs_node fs x" for fs'
  proof
    fix n show "is_dir fs' (take n d)"
      using "2.prems"(3) [rule_format, of n] that [OF outside_take [of d n]] by (simp add: is_dir_def)
  qed
  show ?case
  proof (cases "te_type e")
    case TypeDir
    note mk = mkdir_all_inside [OF target_comps_plain pre "2.prems"(3)]
    obtain fs1 x where m: "mkdir_all fs (abs_path ?t) = (fs1, x)" by (rule prod.exhaust)
    with mk have same: "\<And>x. \<not> strict_prefix d x \<Longrightarrow> fs_node fs1 x = fs_node fs x" by (metis fst_conv)
    show ?thesis
      using "2.IH"(1) [OF TypeDir] "2.IH"(2) [OF TypeDir, unfolded p, OF _ m [symmetric]] TypeDir m same [OF "2.prems"(5)]
        "2.prems" dirs [OF same] by (cases x) (simp_all add: p)
  next
    case TypeReg
    show ?thesis
    proof (cases "open_and_write fs (abs_path ?t) (te_body e)")
      case (Inr fs1)
      note ow = open_and_write_inside [OF Inr target_comps_plain pre "2.prems"(3)]
      show ?thesis
        using "2.IH"(3) [OF TypeReg, unfolded p, OF Inr] TypeReg Inr ow [OF "2.prems"(5)] "2.prems" dirs [OF ow]
        by (cases "te_error e") (simp_all add: p)
    qed (simp add: TypeReg p)
  next
    case TypeOther
    with "2.IH"(4) "2.prems" show ?thesis by simp
  qed
qed simp

text \<open>
  C21: Unpacking is confined. If no name of the archive has a \<open>..\<close> component, \<open>untar\<close>
  creates and changes only files and directories strictly below the destination, whatever
  else the archive holds, absolute names and reading errors included.
\<close>
theorem untar_confined:
  assumes "rooted dst" and "\<forall>n. is_dir fs (take n (clean_path_comps dst))"
    and "\<forall>e \<in> set es. ''..'' \<notin> set (split_on (CHR ''/'') (te_name e))"
    and "\<not> strict_prefix (clean_path_comps dst) k"
  shows "fs_node (fst (untar fs es err dst)) k = fs_node fs k"
  using untar_inside [OF assms(1) refl assms(2-4)] .

text \<open>An archive with a directory and a file in it, by an absolute name.\<close>

definition plain_archive :: "tar_entry list" where
  "plain_archive =
     [\<lparr>te_name = ''a/'', te_type = TypeDir, te_body = [], te_error = None\<rparr>,
      \<lparr>te_name = ''/a/layer.tar'', te_type = TypeReg, te_body = ''L'', te_error = None\<rparr>]"

theorem untar_confined_witness:
  "fs_node (fst (untar secret_disk plain_archive None ''/etc'')) [''etc''] = fs_node secret_disk [''etc''] \<and>
   fs_node (fst (untar secret_disk plain_archive None ''/etc'')) [''etc'', ''a'', ''layer.tar''] = Some (File ''L'')"
proof
  have c: "clean_path_comps ''/etc'' = [''etc'']" by code_simp
  have "is_dir secret_disk (take n [''etc''])" for n
    by (cases n) (simp_all add: secret_disk_def is_dir_def fs_simps)
  then show "fs_node (fst (untar secret_disk plain_archive None ''/etc'')) [''etc''] = fs_node secret_disk [''etc'']"
    by (intro untar_confined) (auto simp: c rooted_def plain_archive_def)
  show "fs_node (fst (untar secret_disk plain_archive None ''/etc'')) [''etc'', ''a'', ''layer.tar''] = Some (File ''L'')"
    by code_simp
qed

text \<open>
  Unpacking is not confined otherwise. An archive with one file whose name climbs out
  of the destination overwrites any file that the process may write, and since the file is
  not truncated the tail of a longer one stays.
\<close>
theorem untar_overwrites_any_file:
  assumes "rooted dst" and "list_all plain_comp cs" and "\<forall>n < length cs. is_dir fs (take n cs)"
    and "fs_node fs cs = Some (File old)" and "\<not> no_write fs cs" and "\<not> no_read fs cs"
  shows "\<exists>fs'. untar fs [\<lparr>te_name = escape_name dst cs, te_type = TypeReg, te_body = b, te_error = None\<rparr>] None dst = (fs', None) \<and>
    read_file fs' (abs_path cs) = Inr (b @ drop (length b) old)"
proof -
  have ne: "cs \<noteq> []" using assms(4) by auto
  have k: "fs_key fs (abs_path cs) = Some cs" using assms(2,3) by (intro fs_key_abs_path) auto
  have p: "path_join [dst, escape_name dst cs] = abs_path cs"
    using assms(2) by (simp add: path_join_target [OF assms(1)] target_escape)
  have nd: "\<not> is_dir fs cs" using assms(4) by (simp add: is_dir_def)
  have w: "open_and_write fs (abs_path cs) b = Inr (fs_put fs cs (File (b @ drop (length b) old)))"
    using k assms(4-6) by (simp add: open_and_write_def)
  moreover have "read_file (fs_put fs cs (File (b @ drop (length b) old))) (abs_path cs) = Inr (b @ drop (length b) old)"
    using k nd ne assms(6) by (simp add: read_file_def fs_simps)
  ultimately show ?thesis by (simp add: p)
qed

theorem untar_overwrites_any_file_witness:
  "\<exists>fs'. untar secret_disk [\<lparr>te_name = ''../../etc/shadow'', te_type = TypeReg, te_body = ''x'', te_error = None\<rparr>] None ''/t'' = (fs', None) \<and>
    read_file fs' (abs_path [''etc'', ''shadow'']) = Inr ''xoot''"
proof -
  have n: "escape_name ''/t'' [''etc'', ''shadow''] = ''../../etc/shadow''"
    by (simp add: escape_name_def clean_path_comps_def)
  have d: "\<forall>n < length [''etc'', ''shadow'']. is_dir secret_disk (take n [''etc'', ''shadow''])"
    by (auto simp: less_Suc_eq secret_disk_def is_dir_def fs_simps)
  have w: "\<not> no_write secret_disk k" for k by (simp add: secret_disk_def fs_simps) (simp add: empty_disk_def)
  show ?thesis
    using untar_overwrites_any_file [OF _ _ d secret_disk_simps(2) w secret_disk_simps(3), of "''/t''" "''x''"]
    by (simp add: n rooted_def plain_comp_def)
qed

end
