(* ===== verification/Docker.thy ===== *)
theory Docker
  imports FileSys
begin

text \<open>
  \<open>docker/docker.go\<close>, the wrapper of the Docker engine's client, and the two name helpers of
  \<open>docker/util.go\<close>. The engine (the vendored package \<open>client\<close>) is the record \<open>engine\<close> of
  functions of a world state. The regular expressions are written out as the searches they
  stand for; debug output and the choice of the API version are left out.
\<close>

section \<open>Image names\<close>

definition is_alnum_char :: "char \<Rightarrow> bool" where
  "is_alnum_char c = (let n = (of_char c :: nat) in is_digit c \<or> 65 \<le> n \<and> n \<le> 90 \<or> 97 \<le> n \<and> n \<le> 122)"

text \<open>\<open>([0-9a-zA-Z]{12})\<close> at the start of the text\<close>

definition twelve :: "string \<Rightarrow> string option" where
  "twelve s = (if 12 \<le> length s \<and> list_all is_alnum_char (take 12 s) then Some (take 12 s) else None)"

definition short_at :: "string \<Rightarrow> string option" where
  "short_at s =
     (case (if has_prefix s ''sha256:'' then twelve (drop 7 s) else None) of
        Some i \<Rightarrow> Some i
      | None \<Rightarrow> twelve s)"

text \<open>Each match, which extends to the end of its line, is replaced by its second group.\<close>

function short_scan :: "string \<Rightarrow> string" where
  "short_scan [] = []"
| "short_scan (c # cs) =
     (case short_at (c # cs) of
        Some i \<Rightarrow> i @ short_scan (dropWhile (\<lambda>x. x \<noteq> CHR 0x0A) cs)
      | None \<Rightarrow> c # short_scan cs)"
  by pat_completeness auto
termination
  by (relation "measure length") (auto simp: le_imp_less_Suc length_dropWhile_le)

definition ShortImageID :: "string \<Rightarrow> string" where
  "ShortImageID imageID = short_scan imageID"

text \<open>
  \<open>(.*\..*?\/)?(.*)\<close> on the first line: the group ends with the first slash after the last
  dot that has one.
\<close>

fun after_host :: "string \<Rightarrow> string option" where
  "after_host [] = None"
| "after_host (c # cs) =
     (case after_host cs of
        Some r \<Rightarrow> Some r
      | None \<Rightarrow> if c = CHR ''.'' \<and> CHR ''/'' \<in> set cs then Some (tl (dropWhile (\<lambda>x. x \<noteq> CHR ''/'') cs)) else None)"

definition StripImageTagHost :: "string \<Rightarrow> string" where
  "StripImageTagHost imageTag =
     (let line = takeWhile (\<lambda>x. x \<noteq> CHR 0x0A) imageTag;
          rest = (case after_host line of None \<Rightarrow> line | Some r \<Rightarrow> r)
      in trim_prefix rest ''library/'')"

lemma name_examples:
  "ShortImageID ''sha256:484ab1ef31eea96a'' = ''484ab1ef31ee''" "ShortImageID ''484a'' = ''484a''"
  "StripImageTagHost ''docker.io/library/alpine:latest'' = ''alpine:latest''"
  "StripImageTagHost ''u/hello:1.0'' = ''u/hello:1.0''"
  by code_simp+

section \<open>The engine\<close>

record image_summary =
  im_ID :: string
  im_Tags :: "string list"
  im_Size :: int

text \<open>An image is saved as a stream: the bytes before the end or before an error.\<close>

type_synonym stream = "bytes \<times> go_error option"

record 'w engine =
  ImageList :: "'w \<Rightarrow> string option \<Rightarrow> 'w \<times> image_summary list result"
  ImagePull :: "'w \<Rightarrow> string \<Rightarrow> 'w \<times> go_error option"
  ImagePush :: "'w \<Rightarrow> string \<Rightarrow> 'w \<times> go_error option"
  ImageTag :: "'w \<Rightarrow> string \<Rightarrow> string \<Rightarrow> 'w \<times> go_error option"
  ImageRemove :: "'w \<Rightarrow> string \<Rightarrow> 'w \<times> go_error option"
  ImageSave :: "'w \<Rightarrow> string list \<Rightarrow> 'w \<times> stream result"
  ImageLoad :: "'w \<Rightarrow> bytes \<Rightarrow> 'w \<times> stream result"

text \<open>
  \<open>NewClient\<close> and \<open>newEnvClient\<close>: \<open>from_env\<close> is the engine that the environment names; without
  one the program ends (\<open>log.Fatalf\<close>). A nil configuration switches the debug output off.
\<close>

definition newEnvClient :: "'w engine result \<Rightarrow> bool \<Rightarrow> ('w engine \<times> bool) outcome" where
  "newEnvClient from_env dbg = (case from_env of Inl e \<Rightarrow> Panicked | Inr cl \<Rightarrow> Done (cl, dbg))"

definition NewDockerClient :: "'w engine result \<Rightarrow> bool option \<Rightarrow> ('w engine \<times> bool) outcome" where
  "NewDockerClient from_env config = newEnvClient from_env (case config of None \<Rightarrow> False | Some d \<Rightarrow> d)"

definition ListImages :: "'w engine \<Rightarrow> 'w \<Rightarrow> 'w \<times> image_summary list result" where
  "ListImages d w =
     (case ImageList d w None of
        (w', Inl e) \<Rightarrow> (w', Inl e)
      | (w', Inr images) \<Rightarrow>
          (w', Inr (map (\<lambda>i. \<lparr>im_ID = im_ID i, im_Tags = im_Tags i, im_Size = im_Size i\<rparr>) images)))"

definition HasImage :: "'w engine \<Rightarrow> 'w \<Rightarrow> string \<Rightarrow> 'w \<times> bool result" where
  "HasImage d w imageID =
     (case ImageList d w (Some (StripImageTagHost imageID)) of
        (w', Inl e) \<Rightarrow> (w', Inl e)
      | (w', Inr images) \<Rightarrow> (w', Inr (images \<noteq> [])))"

text \<open>The progress that the engine reports is discarded, and with it what it says of a failed pull.\<close>

definition PullImage :: "'w engine \<Rightarrow> 'w \<Rightarrow> string \<Rightarrow> 'w \<times> go_error option" where
  "PullImage d w imageID =
     (case ImagePull d w imageID of
        (w', Some e) \<Rightarrow> (w', Some (GoError (''[docker] error pulling image: '' @ err_msg e)))
      | (w', None) \<Rightarrow> (w', None))"

definition PushImage :: "'w engine \<Rightarrow> 'w \<Rightarrow> string \<Rightarrow> 'w \<times> go_error option" where
  "PushImage d w imageID = ImagePush d w imageID"

definition TagImage :: "'w engine \<Rightarrow> 'w \<Rightarrow> string \<Rightarrow> string \<Rightarrow> 'w \<times> go_error option" where
  "TagImage d w imageID tag = ImageTag d w imageID tag"

definition RemoveImage :: "'w engine \<Rightarrow> 'w \<Rightarrow> string \<Rightarrow> 'w \<times> go_error option" where
  "RemoveImage d w imageID = ImageRemove d w imageID"

fun remove_loop :: "'w engine \<Rightarrow> 'w \<Rightarrow> image_summary list \<Rightarrow> go_error option \<Rightarrow> 'w \<times> go_error option" where
  "remove_loop d w [] lastErr = (w, lastErr)"
| "remove_loop d w (i # is) lastErr =
     (case RemoveImage d w (im_ID i) of
        (w', Some e) \<Rightarrow> remove_loop d w' is (Some e)
      | (w', None) \<Rightarrow> remove_loop d w' is lastErr)"

definition RemoveAllImages :: "'w engine \<Rightarrow> 'w \<Rightarrow> 'w \<times> go_error option" where
  "RemoveAllImages d w =
     (case ListImages d w of
        (w1, Inl e) \<Rightarrow> (w1, Some e)
      | (w1, Inr images) \<Rightarrow>
          (case remove_loop d w1 images None of
             (w2, lastErr) \<Rightarrow>
               (case ListImages d w2 of
                  (w3, Inl e) \<Rightarrow> (w3, Some e)
                | (w3, Inr left) \<Rightarrow> (w3, if left \<noteq> [] then lastErr else None))))"

definition ReadImage :: "'w engine \<Rightarrow> 'w \<Rightarrow> string \<Rightarrow> 'w \<times> stream result" where
  "ReadImage d w imageID = ImageSave d w [imageID]"

definition LoadImage :: "'w engine \<Rightarrow> 'w \<Rightarrow> bytes \<Rightarrow> 'w \<times> go_error option" where
  "LoadImage d w input =
     (case ImageLoad d w input of
        (w', Inl e) \<Rightarrow> (w', Some e)
      | (w', Inr (body, err)) \<Rightarrow> (w', err))"

text \<open>The file is read while the engine loads it; here, before.\<close>

definition LoadImageByFilePath :: "'w engine \<Rightarrow> file_system \<Rightarrow> 'w \<Rightarrow> string \<Rightarrow> 'w \<times> go_error option" where
  "LoadImageByFilePath d fs w filepath =
     (case read_file fs filepath of
        Inl e \<Rightarrow> (w, Some e)
      | Inr b \<Rightarrow> LoadImage d w b)"

text \<open>\<open>SaveImageTar\<close> writes what it could read: an error in the middle of the stream is ignored.\<close>

definition SaveImageTar :: "'w engine \<Rightarrow> file_system \<Rightarrow> 'w \<Rightarrow> string \<Rightarrow> string \<Rightarrow> (file_system \<times> 'w) \<times> go_error option" where
  "SaveImageTar d fs w imageID dest =
     (case ReadImage d w imageID of
        (w', Inl e) \<Rightarrow> ((fs, w'), Some e)
      | (w', Inr (b, err)) \<Rightarrow>
          (case write_file fs dest b of Inl e \<Rightarrow> ((fs, w'), Some e) | Inr fs' \<Rightarrow> ((fs', w'), None)))"

section \<open>Names with dots\<close>

lemma after_host_cut:
  "CHR ''/'' \<notin> set q \<Longrightarrow> after_host t = None \<Longrightarrow> after_host (p @ CHR ''.'' # q @ CHR ''/'' # t) = Some t"
proof (induction p)
  case Nil
  have "after_host (q @ CHR ''/'' # t) = (if CHR ''.'' \<in> set q then Some t else None)"
    using Nil by (induction q) (auto simp: dropWhile_neq_append)
  then show ?case using Nil(1) by (auto simp: dropWhile_neq_append)
qed auto

text \<open>
  \<open>StripImageTagHost\<close> cuts everything up to the slash after the last dot that a slash
  follows. That removes a registry host, as it should; but a repository whose own path has a
  dot loses that path as well, so \<open>HasImage\<close> asks the engine for a different image:
  \<open>docker.io/my.team/app\<close> becomes \<open>app\<close>.
\<close>
theorem has_image_asks_for_last_part:
  assumes "CHR ''/'' \<notin> set q" and "after_host t = None" and "CHR 0x0A \<notin> set (p @ q @ t)"
  shows "HasImage d w (p @ ''.'' @ q @ ''/'' @ t) =
    (case ImageList d w (Some (trim_prefix t ''library/'')) of
       (w', Inl e) \<Rightarrow> (w', Inl e)
     | (w', Inr images) \<Rightarrow> (w', Inr (images \<noteq> [])))"
proof -
  have "takeWhile (\<lambda>x. x \<noteq> CHR 0x0A) (p @ ''.'' @ q @ ''/'' @ t) = p @ ''.'' @ q @ ''/'' @ t"
    using assms(3) by (intro takeWhile_neq_id) simp
  then have "StripImageTagHost (p @ ''.'' @ q @ ''/'' @ t) = trim_prefix t ''library/''"
    unfolding StripImageTagHost_def using after_host_cut [OF assms(1,2), of p] by (simp only: Let_def) simp
  then show ?thesis by (simp add: HasImage_def length_greater_0_conv)
qed

text \<open>An engine that has the image \<open>app\<close> and no other.\<close>

definition app_engine :: "'w engine" where
  "app_engine =
     \<lparr>ImageList = (\<lambda>w f. (w, Inr (if f = None \<or> f = Some ''app'' then [\<lparr>im_ID = ''sha256:1'', im_Tags = [''app:latest''], im_Size = 1\<rparr>] else []))),
      ImagePull = (\<lambda>w i. (w, None)), ImagePush = (\<lambda>w i. (w, None)), ImageTag = (\<lambda>w i t. (w, None)),
      ImageRemove = (\<lambda>w i. (w, None)), ImageSave = (\<lambda>w is. (w, Inr ([], None))), ImageLoad = (\<lambda>w b. (w, Inr ([], None)))\<rparr>"

theorem has_image_asks_for_last_part_witness:
  "HasImage app_engine () (''docker.io/my'' @ ''.'' @ ''team'' @ ''/'' @ ''app'') = ((), Inr True)"
  by (subst has_image_asks_for_last_part) (simp_all add: app_engine_def trim_prefix_def)

end
