(* ===== verification/IpfsClient.thy ===== *)
theory IpfsClient
  imports Ipfs FileSys Urls
begin

text \<open>
  The part of \<open>ipfs/ipfs.go\<close> that the push and pull client uses: adding a directory of the
  disk (\<open>AddDir\<close>), the references of a hash (\<open>Refs\<close>, \<open>remoteRefs\<close>), \<open>Get\<close>, and the address
  of the gateway (\<open>GatewayURL\<close>). Starting a daemon (\<open>NewClient\<close>, \<open>RunDaemon\<close>) is in \<open>Daemon\<close>.
\<close>

section \<open>A directory as a tree\<close>

text \<open>
  \<open>files.NewSerialFile(dir, false, stat)\<close> as it is read to the end: hidden entries are
  skipped, and a file or directory that cannot be opened is an error (\<open>None\<close>). The first
  argument bounds the depth; no key of the file system is longer than \<open>fs_depth\<close>.
\<close>

fun map_opt :: "('a \<Rightarrow> 'b option) \<Rightarrow> 'a list \<Rightarrow> 'b list option" where
  "map_opt f [] = Some []"
| "map_opt f (x # xs) = (case (f x, map_opt f xs) of (Some y, Some ys) \<Rightarrow> Some (y # ys) | _ \<Rightarrow> None)"

lemma map_opt_cong [fundef_cong]:
  "xs = ys \<Longrightarrow> (\<And>x. x \<in> set ys \<Longrightarrow> f x = g x) \<Longrightarrow> map_opt f xs = map_opt g ys"
  by (induction ys arbitrary: xs) auto

definition visible_names :: "file_system \<Rightarrow> string list \<Rightarrow> string list" where
  "visible_names fs k = filter (\<lambda>c. \<not> has_prefix c ''.'') (map fst (dir_entries fs k))"

fun dir_tree :: "nat \<Rightarrow> file_system \<Rightarrow> string list \<Rightarrow> ftree option" where
  "dir_tree n fs k =
     (if no_read fs k then None
      else case fs_node fs k of
        None \<Rightarrow> None
      | Some (File b) \<Rightarrow> Some (FFile b)
      | Some Dir \<Rightarrow>
          (case n of
             0 \<Rightarrow> None
           | Suc m \<Rightarrow>
               (case map_opt (\<lambda>c. map_option (Pair c) (dir_tree m fs (k @ [c]))) (visible_names fs k) of
                  None \<Rightarrow> None
                | Some kids \<Rightarrow> Some (FDir (map_of kids)))))"

declare dir_tree.simps [simp del]

definition fs_depth :: "file_system \<Rightarrow> nat" where
  "fs_depth fs = foldr (\<lambda>e n. max (length (fst e)) n) (nodes fs) 0"

section \<open>Adding a directory\<close>

text \<open>\<open>filepath.Base(p)\<close>\<close>

definition path_base :: "string \<Rightarrow> string" where
  "path_base p =
     (if p = [] then ''.''
      else let q = trim_right (\<lambda>c. c = CHR ''/'') p in
        if q = [] then ''/'' else last (split_on (CHR ''/'') q))"

text \<open>
  A transport error, and a file that cannot be read while the request is sent is one, is
  answered by \<open>return "", nil\<close>.
\<close>

definition AddDir :: "'w services \<Rightarrow> file_system \<Rightarrow> 'w \<Rightarrow> ipfs_client \<Rightarrow> string \<Rightarrow> 'w \<times> string result" where
  "AddDir s fs w cl dir =
     (case fs_key fs dir of
        None \<Rightarrow> (w, Inl (path_error ''lstat'' dir ''no such file or directory''))
      | Some k \<Rightarrow>
          if fs_node fs k = None then (w, Inl (path_error ''lstat'' dir ''no such file or directory''))
          else if no_read fs k then (w, Inl (path_error ''open'' dir ''permission denied''))
          else (case dir_tree (Suc (fs_depth fs)) fs k of
                  None \<Rightarrow> (w, Inr [])
                | Some t \<Rightarrow>
                    (case api_add s w (shell_url cl) (FDir [path_base dir \<mapsto> t]) of
                       (w', SendFailed e) \<Rightarrow> (w', Inr [])
                     | (w', ReplyError e) \<Rightarrow> (w', Inl e)
                     | (w', ReplyOutput js e) \<Rightarrow>
                         (case final_hash js e [] of
                            Inl e' \<Rightarrow> (w', Inl e')
                          | Inr final \<Rightarrow>
                              (w', if final = [] then Inl (GoError ''no results received'') else Inr final)))))"

section \<open>References\<close>

text \<open>
  The loop of \<open>remoteRefs\<close>: one variable \<open>ref\<close> is decoded into again and again, so a value
  without \<open>Ref\<close> repeats the one before; the first error ends the stream silently. The
  strings that go through the channel before it is closed, in order.
\<close>

fun ref_members :: "(string \<times> json) list \<Rightarrow> string \<Rightarrow> string option" where
  "ref_members [] r = Some r"
| "ref_members ((k, v) # ms) r =
     (if field_is k ''Ref'' then (case decode_str v r of None \<Rightarrow> None | Some r' \<Rightarrow> ref_members ms r')
      else ref_members ms r)"

fun decode_ref :: "json \<Rightarrow> string \<Rightarrow> string option" where
  "decode_ref JNull r = Some r"
| "decode_ref (JObj ms) r = ref_members ms r"
| "decode_ref _ r = None"

fun ref_stream :: "json list \<Rightarrow> string \<Rightarrow> string list" where
  "ref_stream [] r = []"
| "ref_stream (j # js) r =
     (case decode_ref j r of
        None \<Rightarrow> []
      | Some r' \<Rightarrow> if r' \<noteq> [] then r' # ref_stream js r' else ref_stream js r')"

definition remoteRefs :: "'w services \<Rightarrow> 'w \<Rightarrow> ipfs_client \<Rightarrow> string \<Rightarrow> bool \<Rightarrow> 'w \<times> string list result" where
  "remoteRefs s w cl hash recursive =
     (case http_post s w (''http://'' @ host cl @ ''/api/v0/refs?arg='' @ hash @ ''&max-depth='' @
        (if recursive then ''-1'' else ''1'')) of
        (w', Inl e) \<Rightarrow> (w', Inl e)
      | (w', Inr resp) \<Rightarrow>
          (w', if jr_code resp \<noteq> 200 then Inl (GoError (''Error: '' @ jr_status resp))
               else Inr (ref_stream (jr_values resp) [])))"

definition Refs :: "'w services \<Rightarrow> 'w \<Rightarrow> ipfs_client \<Rightarrow> string \<Rightarrow> bool \<Rightarrow> 'w \<times> string list result" where
  "Refs s w cl hash recursive =
     (if isRemote cl then remoteRefs s w cl hash recursive else api_refs s w (shell_url cl) hash recursive)"

definition Get :: "'w services \<Rightarrow> file_system \<Rightarrow> 'w \<Rightarrow> ipfs_client \<Rightarrow> string \<Rightarrow> string \<Rightarrow> ('w \<times> file_system) \<times> go_error option" where
  "Get s fs w cl hash outdir = api_get s w fs (shell_url cl) hash outdir"

definition GatewayURL :: "'w services \<Rightarrow> 'w \<Rightarrow> ipfs_client \<Rightarrow> 'w \<times> string outcome" where
  "GatewayURL s w cl =
     (if gatewayURL cl = []
      then (case HostGatewayURL s w of
              (w', Inr u) \<Rightarrow> (w', Done u)
            | (w', Inl e) \<Rightarrow> (w', NormalizeGatewayURL (gatewayURL cl)))
      else (w, NormalizeGatewayURL (gatewayURL cl)))"

section \<open>The depth bound\<close>

lemma map_opt_Some: "\<forall>x \<in> set xs. f x \<noteq> None \<Longrightarrow> map_opt f xs = Some (map (\<lambda>x. the (f x)) xs)"
  by (induction xs) auto

lemma length_le_depth: "(k, n) \<in> set (nodes fs) \<Longrightarrow> length k \<le> fs_depth fs"
proof -
  have "(k, n) \<in> set xs \<Longrightarrow> length k \<le> foldr (\<lambda>e m. max (length (fst e)) m) xs 0" for xs
    by (induction xs) auto
  then show "(k, n) \<in> set (nodes fs) \<Longrightarrow> length k \<le> fs_depth fs" by (simp add: fs_depth_def)
qed

lemma node_le_depth: "fs_node fs k \<noteq> None \<Longrightarrow> length k \<le> fs_depth fs"
  using length_le_depth by (auto simp: fs_node_def split: if_splits dest!: map_of_SomeD)

lemma entry_node:
  assumes "c \<in> set (map fst (dir_entries fs k))"
  shows "fs_node fs (k @ [c]) \<noteq> None"
proof -
  obtain k' n where "(k', n) \<in> set (nodes fs)" "k' \<noteq> []" "butlast k' = k" "last k' = c"
    using assms by (auto simp: dir_entries_def)
  then show ?thesis
    by (auto simp: fs_node_def weak_map_of_SomeI dest: append_butlast_last_id)
qed

text \<open>Enough depth gives the tree of any node when everything below it can be read.\<close>

lemma dir_tree_total:
  "fs_node fs k \<noteq> None \<Longrightarrow> \<forall>x. \<not> no_read fs (k @ x) \<Longrightarrow> fs_depth fs < length k + n \<Longrightarrow> dir_tree n fs k \<noteq> None"
proof (induction n arbitrary: k)
  case 0
  with node_le_depth [OF "0.prems"(1)] show ?case by simp
next
  case (Suc m)
  have nr: "\<not> no_read fs k" using Suc.prems(2) [rule_format, of "[]"] by simp
  have "dir_tree m fs (k @ [c]) \<noteq> None" if "c \<in> set (visible_names fs k)" for c
  proof (rule Suc.IH)
    show "fs_node fs (k @ [c]) \<noteq> None" using that entry_node by (simp add: visible_names_def)
    show "\<forall>x. \<not> no_read fs ((k @ [c]) @ x)" using Suc.prems(2) by simp
    show "fs_depth fs < length (k @ [c]) + m" using Suc.prems(3) by simp
  qed
  then have "\<forall>c \<in> set (visible_names fs k). map_option (Pair c) (dir_tree m fs (k @ [c])) \<noteq> None" by simp
  note map_opt_Some [OF this]
  then show ?case
    using Suc.prems(1) nr by (auto simp: dir_tree.simps [of "Suc m"] split: fnode.split)
qed

text \<open>What a tree has at a path.\<close>

fun tree_file :: "ftree \<Rightarrow> string list \<Rightarrow> bytes option" where
  "tree_file (FFile b) [] = Some b"
| "tree_file (FDir m) (c # cs) = (case m c of None \<Rightarrow> None | Some t \<Rightarrow> tree_file t cs)"
| "tree_file _ _ = None"

lemma map_opt_lookup:
  "map_opt (\<lambda>c. map_option (Pair c) (f c)) xs = Some ys \<Longrightarrow> c \<in> set xs \<Longrightarrow> map_of ys c = f c"
proof (induction xs arbitrary: ys)
  case (Cons x xs)
  then obtain z zs where "f x = Some z" "map_opt (\<lambda>c. map_option (Pair c) (f c)) xs = Some zs" "ys = (x, z) # zs"
    by (auto split: option.splits)
  with Cons show ?case by auto
qed simp

lemma entry_of_node:
  assumes "fs_node fs (k @ [c]) \<noteq> None"
  shows "c \<in> set (map fst (dir_entries fs k))"
proof -
  obtain n where "(k @ [c], n) \<in> set (nodes fs)" using assms by (auto simp: fs_node_def dest: map_of_SomeD)
  then show ?thesis by (force simp: dir_entries_def)
qed

text \<open>
  A file of the disk is in the tree under its path when no directory on the way is hidden.
  (Every prefix of the path must be a directory, as on any real disk.)
\<close>

lemma dir_tree_file:
  "dir_tree n fs k = Some t \<Longrightarrow> fs_node fs (k @ cs) = Some (File b) \<Longrightarrow>
   \<forall>c \<in> set cs. \<not> has_prefix c ''.'' \<Longrightarrow> \<forall>i < length cs. is_dir fs (k @ take i cs) \<Longrightarrow> tree_file t cs = Some b"
proof (induction cs arbitrary: n k t)
  case Nil
  then show ?case by (auto simp: dir_tree.simps [of n] split: if_splits)
next
  case (Cons c cs)
  have d: "fs_node fs k = Some Dir" using Cons.prems(4) [rule_format, of 0] by (simp add: is_dir_def)
  with Cons.prems(1) obtain m kids where n: "n = Suc m"
    and kids: "map_opt (\<lambda>c. map_option (Pair c) (dir_tree m fs (k @ [c]))) (visible_names fs k) = Some kids" "t = FDir (map_of kids)"
    by (auto simp: dir_tree.simps [of n] split: if_splits nat.splits option.splits)
  have node: "fs_node fs (k @ [c]) \<noteq> None"
  proof (cases cs)
    case Nil
    with Cons.prems(2) show ?thesis by simp
  next
    case (Cons c' cs')
    with Cons.prems(4) [rule_format, of 1] show ?thesis by (simp add: is_dir_def)
  qed
  then have "c \<in> set (visible_names fs k)" using entry_of_node Cons.prems(3) by (simp add: visible_names_def)
  with map_opt_lookup [OF kids(1)] have l: "map_of kids c = dir_tree m fs (k @ [c])" by simp
  have "\<forall>x \<in> set xs. f x \<noteq> None" if "map_opt f xs = Some ys" for f xs and ys :: "(string \<times> ftree) list"
    using that by (induction xs arbitrary: ys) (auto split: option.splits)
  from this [OF kids(1)] \<open>c \<in> set (visible_names fs k)\<close> obtain t' where t': "dir_tree m fs (k @ [c]) = Some t'" by auto
  have "tree_file t' cs = Some b"
  proof (rule Cons.IH [OF t'])
    show "fs_node fs ((k @ [c]) @ cs) = Some (File b)" using Cons.prems(2) by simp
    show "\<forall>c \<in> set cs. \<not> has_prefix c ''.''" using Cons.prems(3) by simp
    show "\<forall>i < length cs. is_dir fs ((k @ [c]) @ take i cs)"
    proof (intro allI impI)
      fix i assume "i < length cs"
      with Cons.prems(4) [rule_format, of "Suc i"] show "is_dir fs ((k @ [c]) @ take i cs)" by simp
    qed
  qed
  then show ?case by (simp add: kids(2) l t')
qed

end
