(* ===== verification/Resolver.thy ===== *)
theory Resolver
  imports CidStore Ipfs
begin

text \<open>
  Resolution of a repository and reference to a CID, \<open>server/registry/resolv.go\<close>: the file,
  IPFS and DNSLink resolvers and the combined one. The locale \<open>cid_resolver\<close> is what the
  server relies on of the interface \<open>CIDResolver\<close>: a named reference has at most one answer
  and it is trimmed. A nil slice is \<open>None\<close>.
\<close>

section \<open>The interface\<close>

locale cid_resolver_spec =
  fixes res :: "'s \<Rightarrow> string \<Rightarrow> string \<Rightarrow> 's \<times> string list option"
  assumes answer_one: "ref \<noteq> [] \<Longrightarrow> res s repo ref = (s', Some l) \<Longrightarrow> length l \<le> 1"
    and answer_trimmed: "ref \<noteq> [] \<Longrightarrow> res s repo ref = (s', Some l) \<Longrightarrow> c \<in> set l \<Longrightarrow> trim_space c = c"
begin

lemma answer_cases:
  assumes "ref \<noteq> []" and "res s repo ref = (s', r)"
  obtains "r = None" | "r = Some []" | c where "r = Some [c]" "trim_space c = c"
proof (cases r)
  case (Some l)
  with assms answer_one [of ref s repo s' l] answer_trimmed [of ref s repo s' l] that show ?thesis
    by (cases l) auto
qed (use that in simp)

lemma first_answer:
  "ref \<noteq> [] \<Longrightarrow> res s repo ref = (s', Some (c # cs)) \<Longrightarrow> cs = [] \<and> trim_space c = c"
  using answer_one [of ref s repo s' "c # cs"] answer_trimmed [of ref s repo s' "c # cs" c] by simp

end

section \<open>The resolvers\<close>

datatype cid_resolver =
    FileResolver string
  | IPFSResolver ipfs_client string
  | DNSLinkResolver cid_resolver

definition NewFileResolver :: "string \<Rightarrow> cid_resolver" where
  "NewFileResolver uri = FileResolver (path_clean (trim_prefix uri ''file:''))"

definition NewIPFSResolver :: "ipfs_client \<Rightarrow> string \<Rightarrow> cid_resolver" where
  "NewIPFSResolver cl root' =
     IPFSResolver cl (trim_right (\<lambda>c. c = CHR ''/'') (trim_prefix root' ''/ipfs/''))"

text \<open>\<open>(r *fileResolver) Resolve\<close>: no appended name leaves the slice nil.\<close>

definition slice_of :: "string list \<Rightarrow> string list option" where
  "slice_of sa = (if sa = [] then None else Some sa)"

definition file_Resolve :: "string \<Rightarrow> file_system \<Rightarrow> string \<Rightarrow> string \<Rightarrow> string list option" where
  "file_Resolve root' fs repo reference =
     (if reference = []
      then (case read_dir fs (root' @ ''/'' @ repo) of
              Inl e \<Rightarrow> None
            | Inr fls \<Rightarrow> slice_of (map fst (filter snd fls)))
      else (case read_file fs (root' @ ''/'' @ repo @ ''/'' @ reference) of
              Inr b \<Rightarrow> Some [trim_space b]
            | Inl e \<Rightarrow> None))"

definition ipfs_getContent :: "'w services \<Rightarrow> 'w \<Rightarrow> ipfs_client \<Rightarrow> string \<Rightarrow> string \<Rightarrow> string \<Rightarrow> 'w \<times> bytes result" where
  "ipfs_getContent sv w cl cid repo reference =
     (case Cat sv w cl (cid @ ''/'' @ repo @ ''/'' @ reference) of
        (w', Inl e) \<Rightarrow> (w', Inl e)
      | (w', Inr rd) \<Rightarrow> (w', rd))"

definition ipfs_Resolve :: "'w services \<Rightarrow> ipfs_client \<Rightarrow> string \<Rightarrow> 'w \<Rightarrow> string \<Rightarrow> string \<Rightarrow> 'w \<times> string list option" where
  "ipfs_Resolve sv cl cid w repo reference =
     (if reference = []
      then (case List_links sv w cl (cid @ ''/'' @ repo) of
              (w', Inl e) \<Rightarrow> (w', None)
            | (w', Inr links) \<Rightarrow> (w', slice_of links))
      else (case ipfs_getContent sv w cl cid repo reference of
              (w', Inr b) \<Rightarrow> (w', Some [trim_space b])
            | (w', Inl e) \<Rightarrow> (w', None)))"

text \<open>The state a resolver runs in is the disk, which it only reads, and the world.\<close>

primrec Resolve1 :: "'w services \<Rightarrow> cid_resolver \<Rightarrow> file_system \<times> 'w \<Rightarrow> string \<Rightarrow> string \<Rightarrow>
    (file_system \<times> 'w) \<times> string list option" where
  "Resolve1 sv (FileResolver root') s repo reference = (s, file_Resolve root' (fst s) repo reference)"
| "Resolve1 sv (IPFSResolver cl cid) s repo reference =
     (case ipfs_Resolve sv cl cid (snd s) repo reference of (w', l) \<Rightarrow> ((fst s, w'), l))"
| "Resolve1 sv (DNSLinkResolver r) s repo reference = Resolve1 sv r s repo reference"

subsection \<open>DNSLink\<close>

primrec first_txt :: "string list \<Rightarrow> string option" where
  "first_txt [] = None"
| "first_txt (txt # txts) =
     (if txt \<noteq> [] then Some (trim_prefix txt ''dnslink='') else first_txt txts)"

definition lookup_domain :: "string \<Rightarrow> string" where
  "lookup_domain domain =
     (let d = to_lower (trim_space domain)
      in if has_prefix d ''_dnslink.'' then d else ''_dnslink.'' @ d)"

definition lookup :: "'w services \<Rightarrow> 'w \<Rightarrow> string \<Rightarrow> 'w \<times> string result" where
  "lookup sv w domain =
     (case lookup_txt sv w (lookup_domain domain) of
        (w', Inl e) \<Rightarrow> (w', Inl e)
      | (w', Inr txts) \<Rightarrow>
          (w', case first_txt txts of None \<Rightarrow> Inl (GoError ''invalid TXT record'') | Some t \<Rightarrow> Inr t))"

definition NewDNSLinkResolver :: "'w services \<Rightarrow> 'w \<Rightarrow> ipfs_client \<Rightarrow> string \<Rightarrow> 'w \<times> cid_resolver result" where
  "NewDNSLinkResolver sv w cl domain =
     (case lookup sv w domain of
        (w', Inl e) \<Rightarrow> (w', Inl e)
      | (w', Inr txt) \<Rightarrow>
          (w', if has_prefix txt ''file:'' then Inr (DNSLinkResolver (NewFileResolver txt))
               else if has_prefix txt ''/ipfs/'' then Inr (DNSLinkResolver (NewIPFSResolver cl txt))
               else Inl (GoError (''not supported: '' @ txt))))"

subsection \<open>The combined resolver\<close>

fun NewResolver :: "'w services \<Rightarrow> 'w \<Rightarrow> ipfs_client \<Rightarrow> string list \<Rightarrow> 'w \<times> cid_resolver list" where
  "NewResolver sv w cl [] = (w, [])"
| "NewResolver sv w cl (l # ls) =
     (if has_prefix l ''file:''
      then (case NewResolver sv w cl ls of (w', rs) \<Rightarrow> (w', NewFileResolver l # rs))
      else if has_prefix l ''/ipfs/''
      then (case NewResolver sv w cl ls of (w', rs) \<Rightarrow> (w', NewIPFSResolver cl l # rs))
      else (case NewDNSLinkResolver sv w cl l of
              (w1, Inl e) \<Rightarrow> NewResolver sv w1 cl ls
            | (w1, Inr r) \<Rightarrow> (case NewResolver sv w1 cl ls of (w', rs) \<Rightarrow> (w', r # rs))))"

text \<open>\<open>uniq\<close>: the first occurrence of every string, in order (\<open>keys\<close> is the set seen so far).\<close>

fun uniq_loop :: "string set \<Rightarrow> string list \<Rightarrow> string list" where
  "uniq_loop ks [] = []"
| "uniq_loop ks (s # sa) =
     (if s \<notin> ks then s # uniq_loop (insert s ks) sa else uniq_loop ks sa)"

definition uniq :: "string list \<Rightarrow> string list" where
  "uniq sa = uniq_loop {} sa"

text \<open>The loop of \<open>(r *resolver) Resolve\<close>: an early return, or the collected list.\<close>

fun resolve_loop :: "'w services \<Rightarrow> cid_resolver list \<Rightarrow> file_system \<times> 'w \<Rightarrow> string \<Rightarrow> string \<Rightarrow> string list \<Rightarrow>
    (file_system \<times> 'w) \<times> (string list + string list)" where
  "resolve_loop sv [] s repo reference l = (s, Inr l)"
| "resolve_loop sv (r # rs) s repo reference l =
     (case Resolve1 sv r s repo reference of
        (s', None) \<Rightarrow> resolve_loop sv rs s' repo reference l
      | (s', Some result) \<Rightarrow>
          if reference \<noteq> [] then (s', Inl result)
          else resolve_loop sv rs s' repo reference (l @ result))"

definition Resolve :: "'w services \<Rightarrow> cid_resolver list \<Rightarrow> file_system \<times> 'w \<Rightarrow> string \<Rightarrow> string \<Rightarrow>
    (file_system \<times> 'w) \<times> string list option" where
  "Resolve sv rs s repo reference =
     (case resolve_loop sv rs s repo reference [] of
        (s', Inl result) \<Rightarrow> (s', Some result)
      | (s', Inr l) \<Rightarrow> (s', Some (sort (uniq l))))"

section \<open>The interface holds\<close>

lemma dropWhile_idem': "dropWhile P (dropWhile P xs) = dropWhile P xs"
  by (induction xs) auto

lemma trim_space_idem [simp]: "trim_space (trim_space s) = trim_space s"
proof -
  let ?t = "dropWhile is_space s"
  have "dropWhile is_space (rev (dropWhile is_space (rev ?t))) = rev (dropWhile is_space (rev ?t))"
  proof (cases "dropWhile is_space (rev ?t)" rule: rev_cases)
    case (snoc ys y)
    have "rev ?t = takeWhile is_space (rev ?t) @ ys @ [y]"
      using takeWhile_dropWhile_id [of is_space "rev ?t"] snoc by simp
    then have "?t = y # rev (takeWhile is_space (rev ?t) @ ys)"
      by (metis append_assoc rev.simps(1) rev.simps(2) rev_append rev_rev_ident append_Nil append_Cons)
    then have "\<not> is_space y" by (metis hd_dropWhile list.distinct(1) list.sel(1))
    with snoc show ?thesis by simp
  next
    case Nil
    then show ?thesis by (simp only: rev.simps dropWhile.simps)
  qed
  then show ?thesis
    by (simp add: trim_space_def trim_left_def trim_right_def dropWhile_idem')
qed

interpretation file_res: cid_resolver_spec "\<lambda>fs repo ref. (fs, file_Resolve root' fs repo ref)" for root'
  by unfold_locales (auto simp: file_Resolve_def split: sum.splits)

interpretation ipfs_res: cid_resolver_spec "ipfs_Resolve sv cl cid" for sv cl cid
  by unfold_locales (auto simp: ipfs_Resolve_def split: prod.splits sum.splits)

interpretation single: cid_resolver_spec "Resolve1 sv r" for sv r
proof
  fix ref s repo s' l
  assume ref: "ref \<noteq> []" and R: "Resolve1 sv r s repo ref = (s', Some l)"
  have "length l \<le> 1 \<and> (\<forall>c \<in> set l. trim_space c = c)" using R
  proof (induction r)
    case (FileResolver root')
    then have "(fst s, file_Resolve root' (fst s) repo ref) = (fst s, Some l)" by auto
    with file_res.answer_one [OF ref this] file_res.answer_trimmed [OF ref this] show ?case by blast
  next
    case (IPFSResolver cl cid)
    with ipfs_res.answer_one [OF ref] ipfs_res.answer_trimmed [OF ref] show ?case
      by (auto split: prod.splits)
  next
    case (DNSLinkResolver r)
    then show ?case by simp
  qed
  then show "length l \<le> 1" and "\<And>c. c \<in> set l \<Longrightarrow> trim_space c = c" by auto
qed

lemma resolve_loop_named:
  "ref \<noteq> [] \<Longrightarrow> resolve_loop sv rs s repo ref l = (s', x) \<Longrightarrow>
     x = Inr l \<or> (\<exists>r s1 result. x = Inl result \<and> Resolve1 sv r s1 repo ref = (s', Some result))"
proof (induction rs arbitrary: s)
  case (Cons r rs)
  obtain s1 a where r: "Resolve1 sv r s repo ref = (s1, a)" by fastforce
  show ?case
  proof (cases a)
    case None
    with Cons.IH [OF Cons.prems(1), of s1] Cons.prems(2) r show ?thesis by simp
  next
    case (Some result)
    with Cons.prems r have "x = Inl result" "s1 = s'" by auto
    with r Some show ?thesis by blast
  qed
qed simp

lemma uniq_Nil [simp]: "uniq [] = []"
  by (simp add: uniq_def)

interpretation combined: cid_resolver_spec "Resolve sv rs" for sv rs
proof
  fix ref s repo s' l
  assume ref: "ref \<noteq> []" and R: "Resolve sv rs s repo ref = (s', Some l)"
  obtain s2 x where x: "resolve_loop sv rs s repo ref [] = (s2, x)" by fastforce
  from resolve_loop_named [OF ref x]
  have "length l \<le> 1 \<and> (\<forall>c \<in> set l. trim_space c = c)"
  proof
    assume "x = Inr []"
    with R x show ?thesis by (simp add: Resolve_def)
  next
    assume "\<exists>r s1 result. x = Inl result \<and> Resolve1 sv r s1 repo ref = (s2, Some result)"
    then obtain r s1 result where "x = Inl result" and r: "Resolve1 sv r s1 repo ref = (s2, Some result)"
      by blast
    with R x have "result = l" by (simp add: Resolve_def)
    with single.answer_one [OF ref r] single.answer_trimmed [OF ref r] show ?thesis by blast
  qed
  then show "length l \<le> 1" and "\<And>c. c \<in> set l \<Longrightarrow> trim_space c = c" by auto
qed

section \<open>Listing and looking up\<close>

text \<open>All resolvers asked in turn, each in the state the one before it left.\<close>

fun all_answers :: "'w services \<Rightarrow> cid_resolver list \<Rightarrow> file_system \<times> 'w \<Rightarrow> string \<Rightarrow> string \<Rightarrow>
    (file_system \<times> 'w) \<times> string list option list" where
  "all_answers sv [] s repo ref = (s, [])"
| "all_answers sv (r # rs) s repo ref =
     (case Resolve1 sv r s repo ref of (s1, a) \<Rightarrow>
      case all_answers sv rs s1 repo ref of (s2, as) \<Rightarrow> (s2, a # as))"

lemma uniq_loop_set: "set (uniq_loop ks sa) = set sa - ks"
  by (induction ks sa rule: uniq_loop.induct) auto

lemma uniq_loop_distinct: "distinct (uniq_loop ks sa)"
  by (induction ks sa rule: uniq_loop.induct) (auto simp: uniq_loop_set)

lemma uniq_set [simp]: "set (uniq sa) = set sa"
  by (simp add: uniq_def uniq_loop_set)

lemma uniq_distinct [simp]: "distinct (uniq sa)"
  by (simp add: uniq_def uniq_loop_distinct)

lemma resolve_loop_listing:
  "resolve_loop sv rs s repo [] l =
     (case all_answers sv rs s repo [] of (s', as) \<Rightarrow> (s', Inr (l @ concat (map (case_option [] id) as))))"
proof (induction rs arbitrary: s l)
  case (Cons r rs)
  obtain s1 a where r: "Resolve1 sv r s repo [] = (s1, a)" by fastforce
  obtain s2 as where rs: "all_answers sv rs s1 repo [] = (s2, as)" by fastforce
  show ?case using Cons.IH [of s1] r rs by (cases a) simp_all
qed simp

lemma resolve_loop_misses:
  "ref \<noteq> [] \<Longrightarrow> all_answers sv pre s repo ref = (s1, replicate (length pre) None) \<Longrightarrow>
     resolve_loop sv (pre @ rs) s repo ref l = resolve_loop sv rs s1 repo ref l"
proof (induction pre arbitrary: s)
  case (Cons r pre)
  then show ?case by (auto split: prod.splits)
qed simp

text \<open>
  C31: A listing (an empty reference) returns, sorted and without repetition, exactly the
  names that the configured resolvers return together, each asked once and in order.
\<close>
theorem resolve_listing:
  "\<exists>l. Resolve sv rs s repo [] = (fst (all_answers sv rs s repo []), Some l) \<and> sorted l \<and> distinct l \<and>
       set l = \<Union> {set l' | l'. Some l' \<in> set (snd (all_answers sv rs s repo []))}"
proof -
  obtain s' as where a: "all_answers sv rs s repo [] = (s', as)" by fastforce
  have "(\<Union>a \<in> set as. set (case_option [] id a)) = \<Union> {set l' | l'. Some l' \<in> set as}"
    by (auto split: option.splits)
  with a show ?thesis
    by (simp add: Resolve_def resolve_loop_listing)
qed

text \<open>
  C32: A lookup returns the answer of the first resolver that has one: the resolvers before
  it are asked in order, the ones after it are not asked at all, and the answer is a single
  trimmed string. If no resolver answers, the result is an empty list.
\<close>
theorem resolve_first_hit:
  assumes "ref \<noteq> []"
    and "all_answers sv pre s repo ref = (s1, replicate (length pre) None)"
  shows "Resolve sv pre s repo ref = (s1, Some []) \<and>
         (Resolve1 sv r s1 repo ref = (s2, Some l) \<longrightarrow>
            Resolve sv (pre @ r # post) s repo ref = (s2, Some l) \<and> length l \<le> 1 \<and> (\<forall>c \<in> set l. trim_space c = c))"
  using assms resolve_loop_misses [OF assms, of "[]" "[]"] resolve_loop_misses [OF assms, of "r # post" "[]"]
    single.answer_one [OF assms(1), of sv r s1 repo s2 l]
    single.answer_trimmed [OF assms(1), of sv r s1 repo s2 l]
  by (simp add: Resolve_def)

definition tag_disk :: file_system where
  "tag_disk = fs_put (fs_put (fs_put empty_disk [''c''] Dir) [''c'', ''a''] Dir) [''c'', ''a'', ''v1''] (File ''bafy '')"

lemma tag_disk_read: "read_file tag_disk ''/c/a/v1'' = Inr ''bafy ''" "\<not> is_ok (read_file tag_disk ''/d/a/v1'')"
  by (simp_all add: tag_disk_def read_file_def fs_key_def rooted_def is_dir_def fs_simps fs_node_empty_disk)
    (simp add: empty_disk_def fs_put_def)

theorem resolve_first_hit_witness:
  "Resolve (offline :: unit services) [FileResolver ''/d'', FileResolver ''/c'', FileResolver ''/e'']
     (tag_disk, ()) ''a'' ''v1'' = ((tag_disk, ()), Some [''bafy''])"
proof -
  have miss: "all_answers offline [FileResolver ''/d''] (tag_disk, ()) ''a'' ''v1'' =
    ((tag_disk, ()), replicate (length [FileResolver ''/d'']) None)"
    using tag_disk_read(2) by (auto simp: file_Resolve_def split: sum.splits)
  have "trim_space ''bafy '' = ''bafy''"
    by (simp add: trim_space_def trim_left_def trim_right_def is_space_def)
  then have "Resolve1 offline (FileResolver ''/c'') (tag_disk, ()) ''a'' ''v1'' = ((tag_disk, ()), Some [''bafy''])"
    using tag_disk_read(1) by (simp add: file_Resolve_def)
  with resolve_first_hit [OF _ miss, of "FileResolver ''/c''" "(tag_disk, ())" "[''bafy'']" "[FileResolver ''/e'']"]
  show ?thesis by simp
qed

section \<open>The file resolver over a store\<close>

lemma join_append: "xs \<noteq> [] \<Longrightarrow> ys \<noteq> [] \<Longrightarrow> join sep (xs @ ys) = join sep xs @ sep @ join sep ys"
proof (induction xs)
  case (Cons x xs)
  then show ?case by (cases xs) (auto simp: join_Cons)
qed simp

lemma store_file_path:
  assumes "rooted loc" and "clean_path_comps loc \<noteq> []"
  shows "path_clean loc @ ''/'' @ repo @ ''/'' @ ref = abs_path (clean_path_comps loc @ name_comps repo @ [ref])"
  using assms join_name [of repo ref]
  by (simp add: path_clean_rooted abs_path_def join_append join_snoc name_comps_def)

text \<open>
  A server whose resolver list holds \<open>file:<dir>\<close> resolves the names and tags that
  another server stored in that directory, its CID store: after \<open>Add\<close> of a well-formed name
  and tag, the file resolver answers with the CID that was added (trimmed).
\<close>
theorem file_resolver_serves_store:
  assumes "rooted (location (fst s))" and "clean_path_comps (location (fst s)) \<noteq> []"
    and "wf_name repo" and "plain_comp ref" and "\<not> has_prefix ref ''sha256:''" and "repo \<noteq> cid"
    and "disk_ready (snd s) (clean_path_comps (location (fst s)) @ name_comps repo @ [ref])"
  shows "Resolve1 sv (NewFileResolver (''file:'' @ location (fst s))) (snd (store_add s repo ref cid), w) repo ref =
         ((snd (store_add s repo ref cid), w), Some [trim_space cid])"
proof -
  have "ref \<noteq> []" using assms(4) by (auto simp: plain_comp_def)
  moreover have "trim_prefix (''file:'' @ location (fst s)) ''file:'' = location (fst s)"
    by (rule trim_prefix_append)
  ultimately show ?thesis
    using store_file_path [OF assms(1,2), of repo ref] store_add_read [OF assms(1,3-7)]
    by (simp only: NewFileResolver_def Resolve1.simps file_Resolve_def fst_conv if_False sum.case)
qed

theorem file_resolver_serves_store_witness:
  "snd (Resolve1 (offline :: unit services) (NewFileResolver (''file:'' @ ''/c''))
     (snd (store_add (new_cid_store ''/c'', empty_disk) ''lib/hello'' ''v1'' ''bafy''), ()) ''lib/hello'' ''v1'')
   = Some [''bafy'']"
proof -
  have "location (fst (new_cid_store ''/c'', empty_disk)) = ''/c''" by (simp add: new_cid_store_def)
  moreover have "trim_space ''bafy'' = ''bafy''"
    by (simp add: trim_space_def trim_left_def trim_right_def is_space_def)
  moreover have "clean_path_comps ''/c'' = [''c'']" by (simp add: clean_path_comps_def)
  ultimately show ?thesis
    using file_resolver_serves_store [of "(new_cid_store ''/c'', empty_disk)" "''lib/hello''" "''v1''" "''bafy''"
        "offline :: unit services" "()"]
    by (simp add: rooted_def wf_name_def name_comps_def plain_comp_def disk_ready_empty)
qed

end
