(* ===== verification/RegState.thy ===== *)
theory RegState
  imports Resolver
begin

text \<open>
  The registry server's state and configuration (\<open>registry\<close>, \<open>blobs\<close> and \<open>manifests\<close> of
  \<open>server/registry\<close>) and how it finds the CID of a repository and reference
  (\<open>resolve\<close>, \<open>resolveCID\<close>, \<open>ipfsURL\<close> of \<open>server/registry/registry.go\<close>).
\<close>

section \<open>State\<close>

record blobs =
  contents :: "string \<rightharpoonup> bytes"
  uploads :: "string \<rightharpoonup> bytes"
  layers :: "string \<rightharpoonup> string list"

record stored_manifest =
  contentType :: string
  blob :: bytes
  digest :: string

text \<open>
  The two mutexes are released by \<open>defer\<close> in the handlers. What stays locked once a request
  is over is part of the state.
\<close>

record 'w registry =
  reg_blobs :: blobs
  blobs_locked :: bool
  reg_manifests :: "string \<rightharpoonup> (string \<rightharpoonup> stored_manifest)"
  manifests_locked :: bool
  reg_cids :: cid_store
  disk :: file_system
  world :: 'w

text \<open>What does not change while the server runs.\<close>

record 'w reg_config =
  sv :: "'w services"
  IPFSGateway :: string
  ipfsClient :: ipfs_client
  resolvers :: "cid_resolver list"

abbreviation cidlib :: "'w reg_config \<Rightarrow> cid_lib" where
  "cidlib cfg \<equiv> cid_pkg (sv cfg)"

section \<open>The CID store of the registry\<close>

definition cids_add :: "'w registry \<Rightarrow> string \<Rightarrow> string \<Rightarrow> string \<Rightarrow> 'w registry" where
  "cids_add st repo ref cid =
     (case store_add (reg_cids st, disk st) repo ref cid of
        (c, d) \<Rightarrow> st\<lparr>reg_cids := c, disk := d\<rparr>)"

definition cids_get :: "'w registry \<Rightarrow> string \<Rightarrow> string \<Rightarrow> string option" where
  "cids_get st repo ref = store_get (reg_cids st, disk st) repo ref"

definition cids_held :: "'w registry \<Rightarrow> string \<Rightarrow> string \<Rightarrow> string option" where
  "cids_held st repo ref = store_held (reg_cids st, disk st) repo ref"

lemma cids_add_store: "(reg_cids (cids_add st r t c), disk (cids_add st r t c)) = store_add (reg_cids st, disk st) r t c"
  by (simp add: cids_add_def split: prod.splits)

interpretation rci: cid_index cids_add cids_get cids_held key
proof
  fix s r t c
  show "cids_held s r t = Some c \<Longrightarrow> cids_get s r t = Some c"
    by (simp add: cids_held_def cids_get_def ci.get_held)
  show "cids_held (cids_add s r t c) r' t' = (if key r' t' = key r t then Some c else cids_held s r' t')" for r' t'
    by (simp only: cids_held_def cids_add_store ci.held_add)
qed

lemma cids_add_frame [frame_simps]:
  "reg_blobs (cids_add st r t c) = reg_blobs st"
  "blobs_locked (cids_add st r t c) = blobs_locked st"
  "reg_manifests (cids_add st r t c) = reg_manifests st"
  "manifests_locked (cids_add st r t c) = manifests_locked st"
  "world (cids_add st r t c) = world st"
  "location (reg_cids (cids_add st r t c)) = location (reg_cids st)"
  using store_add_location [of "(reg_cids st, disk st)" r t c]
  by (cases "store_add (reg_cids st, disk st) r t c"; simp add: cids_add_def)+

lemma cids_get_cong [frame_simps]:
  "reg_cids st = reg_cids st' \<Longrightarrow> disk st = disk st' \<Longrightarrow> cids_get st r t = cids_get st' r t"
  by (simp add: cids_get_def)

section \<open>Resolving\<close>

definition ipfsURL :: "'w reg_config \<Rightarrow> string list \<Rightarrow> string" where
  "ipfsURL cfg s = IpfsURL (IPFSGateway cfg) s"

text \<open>Only the resolvers reach out to the world; a nil list is \<open>None\<close>.\<close>

definition resolve :: "'w reg_config \<Rightarrow> 'w registry \<Rightarrow> string \<Rightarrow> string \<Rightarrow> 'w \<times> string list option" where
  "resolve cfg st repo reference =
     (case cids_get st repo reference of
        Some cid \<Rightarrow> (world st, Some [cid])
      | None \<Rightarrow>
          if ToB32 (cidlib cfg) repo \<noteq> [] then (world st, Some [ToB32 (cidlib cfg) repo])
          else if IpfsifyHash repo \<noteq> [] \<and> ToB32 (cidlib cfg) (IpfsifyHash repo) \<noteq> []
          then (world st, Some [ToB32 (cidlib cfg) (IpfsifyHash repo)])
          else (case Resolve (sv cfg) (resolvers cfg) (disk st, world st) repo reference of
                  ((d, w'), l) \<Rightarrow> (w', l)))"

definition resolveCID :: "'w reg_config \<Rightarrow> 'w registry \<Rightarrow> string \<Rightarrow> string \<Rightarrow> 'w registry \<times> string result" where
  "resolveCID cfg st repo reference =
     (let ref = (if reference = [] then ''latest'' else reference) in
      case resolve cfg st repo ref of
        (w', Some (c # cs)) \<Rightarrow> (st\<lparr>world := w'\<rparr>, Inr c)
      | (w', _) \<Rightarrow> (st\<lparr>world := w'\<rparr>, Inl (GoError (''cannot resolve CID: '' @ repo @ '':'' @ ref))))"

lemma resolveCID_cases:
  obtains w' c where "resolveCID cfg st repo ref = (st\<lparr>world := w'\<rparr>, Inr c)"
  | w' e where "resolveCID cfg st repo ref = (st\<lparr>world := w'\<rparr>, Inl e)"
proof -
  obtain w' l where l: "resolve cfg st repo (if ref = [] then ''latest'' else ref) = (w', l)" by fastforce
  show ?thesis
  proof (cases l)
    case None
    with l that show ?thesis by (simp add: resolveCID_def Let_def)
  next
    case (Some cs)
    with l that show ?thesis by (cases cs) (simp_all add: resolveCID_def Let_def)
  qed
qed

lemma resolveCID_frame [frame_simps]:
  "reg_blobs (fst (resolveCID cfg st r t)) = reg_blobs st"
  "blobs_locked (fst (resolveCID cfg st r t)) = blobs_locked st"
  "reg_manifests (fst (resolveCID cfg st r t)) = reg_manifests st"
  "manifests_locked (fst (resolveCID cfg st r t)) = manifests_locked st"
  "reg_cids (fst (resolveCID cfg st r t)) = reg_cids st"
  "disk (fst (resolveCID cfg st r t)) = disk st"
  by (rule resolveCID_cases [of cfg st r t]; simp)+

lemma resolve_held: "cids_get st repo ref = Some cid \<Longrightarrow> resolve cfg st repo ref = (world st, Some [cid])"
  by (simp add: resolve_def)

lemma resolveCID_held:
  "cids_get st repo (if ref = [] then ''latest'' else ref) = Some cid \<Longrightarrow> resolveCID cfg st repo ref = (st, Inr cid)"
  by (simp add: resolveCID_def resolve_held)

section \<open>A new server\<close>

text \<open>The \<open>registry\<close> value that \<open>New\<close> builds, on a given disk.\<close>

definition new_registry :: "string \<Rightarrow> file_system \<Rightarrow> 'w \<Rightarrow> 'w registry" where
  "new_registry CIDStorePath fs w =
     \<lparr>reg_blobs = \<lparr>contents = Map.empty, uploads = Map.empty, layers = Map.empty\<rparr>, blobs_locked = False,
      reg_manifests = Map.empty, manifests_locked = False,
      reg_cids = new_cid_store CIDStorePath, disk = fs, world = w\<rparr>"

record config =
  IPFSHost :: string
  cfg_gateway :: string
  CIDResolvers :: "string list"
  CIDStorePath :: string

text \<open>\<open>New\<close>: the IPFS client, the empty tables, and the resolvers, which may ask DNS.\<close>

definition New :: "'w services \<Rightarrow> file_system \<Rightarrow> 'w \<Rightarrow> config \<Rightarrow> 'w \<times> ('w reg_config \<times> 'w registry) outcome" where
  "New s fs w cfg =
     (case NewRemoteClient s w (IPFSHost cfg) (cfg_gateway cfg) of
        (w1, Done cl) \<Rightarrow>
          (case NewResolver s w1 cl (CIDResolvers cfg) of
             (w2, rs) \<Rightarrow>
               (w2, Done (\<lparr>sv = s, IPFSGateway = cfg_gateway cfg, ipfsClient = cl, resolvers = rs\<rparr>,
                          new_registry (CIDStorePath cfg) fs w2)))
      | (w1, Panicked) \<Rightarrow> (w1, Panicked)
      | (w1, Blocked) \<Rightarrow> (w1, Blocked))"

text \<open>A server without a network, for concrete runs.\<close>

definition local_config :: "'w services \<Rightarrow> 'w reg_config" where
  "local_config s =
     \<lparr>sv = s, IPFSGateway = ''http://gw'',
      ipfsClient = \<lparr>shell_url = ''api'', isRemote = True, host = ''api'', gatewayURL = ''http://gw''\<rparr>, resolvers = []\<rparr>"

definition local_registry :: "unit registry" where
  "local_registry = new_registry ''/c'' empty_disk ()"

lemma local_registry_simps [simp]:
  "reg_blobs local_registry = \<lparr>contents = Map.empty, uploads = Map.empty, layers = Map.empty\<rparr>"
  "\<not> blobs_locked local_registry" "\<not> manifests_locked local_registry"
  "reg_manifests local_registry = Map.empty" "reg_cids local_registry = new_cid_store ''/c''"
  "disk local_registry = empty_disk" "world local_registry = ()"
  by (simp_all add: local_registry_def new_registry_def)

lemma read_empty_disk: "read_file empty_disk p \<noteq> Inr b"
  by (auto simp: read_file_def fs_node_empty_disk split: option.splits if_splits fnode.splits)

lemma local_registry_get [simp]: "cids_get local_registry r t = None"
  using read_empty_disk by (auto simp: cids_get_def store_get_def read_cid_def new_cid_store_def Let_def split: sum.splits)

text \<open>
  A CID that no one stored comes without surrounding white space: when the store does
  not know the repository and reference, and the repository is not itself a hash, the CID
  that is found, which becomes part of a URL, is the single trimmed answer of a resolver.
\<close>
theorem resolved_cid_trimmed:
  assumes "ref = (if reference = [] then ''latest'' else reference)" and "cids_get st repo ref = None"
    and "ToB32 (cidlib cfg) repo = []" and "ToB32 (cidlib cfg) (IpfsifyHash repo) = []"
    and "resolveCID cfg st repo reference = (st', Inr cid)"
  shows "trim_space cid = cid \<and> snd (Resolve (sv cfg) (resolvers cfg) (disk st, world st) repo ref) = Some [cid]"
proof -
  obtain s' l where r: "Resolve (sv cfg) (resolvers cfg) (disk st, world st) repo ref = (s', l)" by fastforce
  have ref: "ref \<noteq> []" using assms(1) by simp
  have "resolve cfg st repo ref = (snd s', l)"
    using assms(2-4) r by (cases s') (simp add: resolve_def)
  then obtain cs where l: "l = Some (cid # cs)"
    using assms(1,5) by (auto simp: resolveCID_def Let_def split: option.splits list.splits)
  from combined.first_answer [OF ref r [unfolded l]] r l show ?thesis by simp
qed

definition tag_registry :: "unit registry" where
  "tag_registry = new_registry ''/x'' tag_disk ()"

definition tag_config :: "unit reg_config" where
  "tag_config = (local_config offline)\<lparr>resolvers := [FileResolver ''/c'']\<rparr>"

lemma tag_registry_get: "cids_get tag_registry ''a'' ''v1'' = None"
proof -
  have "cid_path ''/x'' (key ''a'' ''v1'') = ''/x/a/v1''"
    by (subst cid_path_wf)
      (simp_all add: rooted_def wf_name_def name_comps_def plain_comp_def clean_path_comps_def abs_path_def)
  moreover have "\<not> is_ok (read_file tag_disk ''/x/a/v1'')"
    by (simp add: tag_disk_def read_file_def fs_key_def rooted_def is_dir_def fs_simps fs_node_empty_disk)
  ultimately show ?thesis
    by (auto simp: cids_get_def store_get_def read_cid_def tag_registry_def new_registry_def new_cid_store_def Let_def
        split: sum.splits)
qed

lemma no_cids_ToB32 [simp]: "ToB32 no_cids s = []"
  by (simp add: ToB32_def no_cids_def)

lemma tag_registry_resolves: "resolveCID tag_config tag_registry ''a'' ''v1'' = (tag_registry, Inr ''bafy'')"
proof -
  have "trim_space ''bafy '' = ''bafy''"
    by (simp add: trim_space_def trim_left_def trim_right_def is_space_def)
  then have "file_Resolve ''/c'' tag_disk ''a'' ''v1'' = Some [''bafy'']"
    using tag_disk_read(1) by (simp add: file_Resolve_def)
  then show ?thesis
    using tag_registry_get
    by (simp add: resolveCID_def resolve_def Resolve_def tag_config_def local_config_def offline_def Let_def)
      (simp add: tag_registry_def new_registry_def)
qed

theorem resolved_cid_trimmed_witness:
  "snd (resolveCID tag_config tag_registry ''a'' ''v1'') = Inr ''bafy'' \<and> trim_space ''bafy'' = ''bafy''"
  using resolved_cid_trimmed [OF _ tag_registry_get _ _ tag_registry_resolves] tag_registry_resolves
  by (simp add: tag_config_def local_config_def offline_def)

section \<open>Names that encode a hash\<close>

text \<open>
  The repository name that \<open>DockerizeHash\<close> makes of a base 58 hash is resolved to the
  base 32 CID of that hash, for every reference, as long as the store does not know the
  name and the reference and the name is no CID by itself. (The hash must not have a length
  that is a multiple of five, see \<open>dockerize_roundtrip_iff\<close>.)
\<close>
theorem dockerized_name_resolves:
  assumes "length mh mod 5 \<noteq> 0" and "cids_get st (DockerizeHash (Encode58 mh)) ref = None"
    and "ToB32 (cidlib cfg) (DockerizeHash (Encode58 mh)) = []"
    and "ToB32 (cidlib cfg) (Encode58 mh) = cid" and "cid \<noteq> []" and "ToB32 (cidlib cfg) [] = []"
  shows "resolve cfg st (DockerizeHash (Encode58 mh)) ref = (world st, Some [cid])"
proof -
  have "IpfsifyHash (DockerizeHash (Encode58 mh)) = Encode58 mh"
    using assms(1) IpfsifyHash_DockerizeHash [of mh] by (cases mh) auto
  moreover have "Encode58 mh \<noteq> []" using assms(4-6) by auto
  ultimately show ?thesis using assms by (simp add: resolve_def)
qed

text \<open>A CID package that knows one hash, the one-byte hash \<open>x\<close>.\<close>

definition one_cid :: cid_lib where
  "one_cid = \<lparr>cid_decode = (\<lambda>s. if s = Encode58 ''x'' then Inr (112, ''x'') else Inl (GoError ''invalid cid'')),
     cid_v1_b32 = (\<lambda>c h. Inr (''b'' @ h)), mh_b58 = Encode58\<rparr>"

lemma length_Encode58_x: "length (Encode58 ''x'') = 2"
  by (simp add: Encode58_def EncodeAlphabet_def bytes_nat_def byte_val_def byte_of_def le_digits.simps char_of_def)

lemma length_DockerizeHash_x: "length (DockerizeHash (Encode58 ''x'')) = 7"
  by (simp add: DockerizeHash_Encode58 b32_encode_step length_b32_group b32_encode.simps [of "[]"])

theorem dockerized_name_resolves_witness:
  "resolve (local_config (offline\<lparr>cid_pkg := one_cid\<rparr>)) local_registry (DockerizeHash (Encode58 ''x'')) ''latest'' =
     ((), Some [''bx''])"
proof -
  have "DockerizeHash (Encode58 ''x'') \<noteq> Encode58 ''x''" "[] \<noteq> Encode58 ''x''"
    using length_Encode58_x length_DockerizeHash_x by auto
  then have "ToB32 one_cid (Encode58 ''x'') = ''bx''" "ToB32 one_cid (DockerizeHash (Encode58 ''x'')) = []"
    "ToB32 one_cid [] = []"
    by (simp_all add: ToB32_def one_cid_def)
  then show ?thesis
    using dockerized_name_resolves [of "''x''" local_registry "''latest''"
        "local_config (offline\<lparr>cid_pkg := one_cid\<rparr>)" "''bx''"]
    by (simp add: local_config_def)
qed

end
