(* ===== verification/Blobs.thy ===== *)
theory Blobs
  imports RegState
begin

text \<open>
  The blob handler, \<open>server/registry/blobs.go\<close>: one definition per method branch of
  \<open>handle\<close>, the dispatch between them, and \<open>get\<close> and \<open>remove\<close>, which the manifest handler
  calls. A handler maps the server's state and the response writer to their next values and
  to an outcome: an optional error reply, a panic, or being blocked for ever on a mutex.
\<close>

section \<open>Paths\<close>

type_synonym 'w handled = "'w registry \<times> response \<times> reg_error option outcome"

definition reg_err :: "nat \<Rightarrow> string \<Rightarrow> string \<Rightarrow> reg_error option outcome" where
  "reg_err s c m = Done (Some \<lparr>Status = s, Code = c, Message = m\<rparr>)"

text \<open>\<open>xs[a:b]\<close>\<close>

definition slice :: "nat \<Rightarrow> nat \<Rightarrow> 'a list \<Rightarrow> 'a list" where
  "slice a b xs = drop a (take b xs)"

text \<open>
  \<open>elem := strings.Split(path, "/")[1:]\<close> without a trailing empty element. A path without a
  slash leaves nothing, and \<open>elem[len(elem)-1]\<close> panics.
\<close>

definition blob_elems :: "string \<Rightarrow> string list outcome" where
  "blob_elems p =
     (let elem = tl (split_on (CHR ''/'') p) in
      if elem = [] then Panicked
      else if last elem = [] then Done (butlast elem)
      else Done elem)"

text \<open>\<open>elem[len(elem)-k]\<close>\<close>

definition from_end :: "string list \<Rightarrow> nat \<Rightarrow> string" where
  "from_end elem k = elem ! (length elem - k)"

definition isBlob :: "request \<Rightarrow> bool outcome" where
  "isBlob req =
     (case blob_elems (url_path req) of
        Done elem \<Rightarrow>
          Done (3 \<le> length elem \<and>
            (from_end elem 2 = ''blobs'' \<or> (from_end elem 3 = ''blobs'' \<and> from_end elem 2 = ''uploads'')))
      | Panicked \<Rightarrow> Panicked
      | Blocked \<Rightarrow> Blocked)"

definition blob_repo :: "string list \<Rightarrow> string" where
  "blob_repo elem =
     join ''/'' (slice 1 (length elem - (if from_end elem 2 = ''uploads'' then 3 else 2)) elem)"

section \<open>Reading blobs\<close>

definition blob_unknown :: "string \<Rightarrow> reg_error option outcome" where
  "blob_unknown m = reg_err StatusNotFound ''BLOB_UNKNOWN'' m"

text \<open>The end of \<open>HEAD\<close> and \<open>GET\<close> once the gateway has replied.\<close>

definition relay_blob :: "string \<Rightarrow> response \<Rightarrow> http_reply result \<Rightarrow> response \<times> reg_error option outcome" where
  "relay_blob target resp r =
     (case r of
        Inl e \<Rightarrow> (resp, blob_unknown (err_msg e))
      | Inr ipfsResp \<Rightarrow>
          if rp_code ipfsResp \<noteq> StatusOK then (resp, blob_unknown (rp_status ipfsResp))
          else (case rp_body ipfsResp of
                  Inl e \<Rightarrow> (resp, blob_unknown (err_msg e))
                | Inr body \<Rightarrow>
                    (write_body body
                       (write_header (rp_code ipfsResp)
                         (set_header ''Docker-Content-Digest'' target
                           (set_header ''Content-Length'' (nat_str (length body)) resp))), Done None)))"

definition blob_head :: "'w reg_config \<Rightarrow> string \<Rightarrow> string \<Rightarrow> 'w registry \<Rightarrow> response \<Rightarrow> 'w handled" where
  "blob_head cfg repo target st resp =
     (if blobs_locked st then (st, resp, Blocked)
      else (case contents (reg_blobs st) target of
              Some c \<Rightarrow>
                (st, write_header StatusOK
                       (set_header ''Docker-Content-Digest'' target
                         (set_header ''Content-Length'' (nat_str (length c)) resp)), Done None)
            | None \<Rightarrow>
                (case resolveCID cfg st repo target of
                   (st1, Inl e) \<Rightarrow> (st1, resp, blob_unknown (err_msg e))
                 | (st1, Inr cid) \<Rightarrow>
                     (case http_Head (sv cfg) (world st1) (ipfsURL cfg [cid, ''blobs'', target]) of
                        (w', r) \<Rightarrow> (st1\<lparr>world := w'\<rparr>, relay_blob target resp r)))))"

definition blob_get :: "'w reg_config \<Rightarrow> string \<Rightarrow> string \<Rightarrow> 'w registry \<Rightarrow> response \<Rightarrow> 'w handled" where
  "blob_get cfg repo target st resp =
     (case resolveCID cfg st repo target of
        (st1, Inl e) \<Rightarrow> (st1, resp, blob_unknown (err_msg e))
      | (st1, Inr cid) \<Rightarrow>
          (case http_get (sv cfg) (world st1) (ipfsURL cfg [cid, ''blobs'', target]) of
             (w', r) \<Rightarrow> (st1\<lparr>world := w'\<rparr>, relay_blob target resp r)))"

section \<open>Uploading blobs\<close>

text \<open>The blob \<open>l\<close> is stored under its digest and recorded as a layer of the repository.\<close>

definition store_blob :: "string \<Rightarrow> string \<Rightarrow> bytes \<Rightarrow> blobs \<Rightarrow> blobs" where
  "store_blob repo d l b =
     b\<lparr>contents := (contents b)(d \<mapsto> l),
       layers := (layers b)(repo \<mapsto> (case layers b repo of None \<Rightarrow> [] | Some ds \<Rightarrow> ds) @ [d])\<rparr>"

definition digest_invalid :: "string \<Rightarrow> reg_error option outcome" where
  "digest_invalid m = reg_err StatusBadRequest ''DIGEST_INVALID'' m"

definition blob_post_digest :: "string \<Rightarrow> string \<Rightarrow> bytes \<Rightarrow> 'w registry \<Rightarrow> response \<Rightarrow> 'w handled" where
  "blob_post_digest repo dig l st resp =
     (let d = compute_digest l in
      if d \<noteq> dig then (st, resp, digest_invalid ''digest does not match contents'')
      else if blobs_locked st then (st, resp, Blocked)
      else (st\<lparr>reg_blobs := store_blob repo d l (reg_blobs st)\<rparr>,
            write_header StatusCreated (set_header ''Docker-Content-Digest'' d resp), Done None))"

text \<open>\<open>"/" + path.Join("v2", path.Join(elems...), "blobs/uploads", id)\<close>\<close>

definition upload_location :: "string list \<Rightarrow> string \<Rightarrow> string" where
  "upload_location elem upload_id = ''/'' @ path_join [''v2'', path_join elem, ''blobs/uploads'', upload_id]"

definition blob_post_start :: "'w reg_config \<Rightarrow> string list \<Rightarrow> 'w registry \<Rightarrow> response \<Rightarrow> 'w handled" where
  "blob_post_start cfg elem st resp =
     (case rand_int63 (sv cfg) (world st) of
        (w', n) \<Rightarrow>
          (st\<lparr>world := w'\<rparr>,
           write_header StatusAccepted
             (set_header ''Range'' ''0-0''
               (set_header ''Location'' (upload_location (slice 1 (length elem - 2) elem) (nat_str n)) resp)),
           Done None))"

text \<open>
  \<open>fmt.Sscanf(s, "%d-%d", &start, &end)\<close>: before a number blanks are skipped, but not a line
  break; it may have a sign and must fit 64 bits; what follows the second number is ignored.
\<close>

definition scan_int :: "string \<Rightarrow> (int \<times> string) option" where
  "scan_int s =
     (let s1 = dropWhile (\<lambda>c. is_space c \<and> c \<noteq> CHR 0x0A) s;
          neg = has_prefix s1 ''-'';
          s2 = (if neg \<or> has_prefix s1 ''+'' then tl s1 else s1);
          ds = takeWhile is_digit s2;
          i = (if neg then - int (str_nat ds) else int (str_nat ds))
      in if ds = [] \<or> \<not> int64_ok i then None else Some (i, drop (length ds) s2))"

definition scan_range :: "string \<Rightarrow> (int \<times> int) option" where
  "scan_range s =
     (case scan_int s of
        None \<Rightarrow> None
      | Some (start, r) \<Rightarrow>
          if has_prefix r ''-''
          then (case scan_int (tl r) of None \<Rightarrow> None | Some (end', r') \<Rightarrow> Some (start, end'))
          else None)"

definition upload_bytes :: "blobs \<Rightarrow> string \<Rightarrow> bytes" where
  "upload_bytes b target = (case uploads b target of None \<Rightarrow> [] | Some u \<Rightarrow> u)"

definition range_header :: "bytes \<Rightarrow> string" where
  "range_header l = ''0-'' @ int_str (int (length l) - 1)"

definition upload_ok :: "string list \<Rightarrow> string \<Rightarrow> bytes \<Rightarrow> response \<Rightarrow> response" where
  "upload_ok elem target l resp =
     write_header StatusNoContent
       (set_header ''Range'' (range_header l)
         (set_header ''Location'' (upload_location (slice 1 (length elem - 3) elem) target) resp))"

definition range_error :: "string \<Rightarrow> reg_error option outcome" where
  "range_error m = reg_err StatusRequestedRangeNotSatisfiable ''BLOB_UPLOAD_UNKNOWN'' m"

definition blob_patch_range :: "string list \<Rightarrow> string \<Rightarrow> string \<Rightarrow> bytes \<Rightarrow> 'w registry \<Rightarrow> response \<Rightarrow> 'w handled" where
  "blob_patch_range elem target contentRange body st resp =
     (case scan_range contentRange of
        None \<Rightarrow> (st, resp, range_error ''We don't understand your Content-Range'')
      | Some (start, end') \<Rightarrow>
          if blobs_locked st then (st, resp, Blocked)
          else if start \<noteq> int (length (upload_bytes (reg_blobs st) target))
          then (st, resp, range_error ''Your content range doesn't match what we have'')
          else (let l = upload_bytes (reg_blobs st) target @ body in
                (st\<lparr>reg_blobs := (reg_blobs st)\<lparr>uploads := (uploads (reg_blobs st))(target \<mapsto> l)\<rparr>\<rparr>,
                 upload_ok elem target l resp, Done None)))"

definition blob_patch_stream :: "string list \<Rightarrow> string \<Rightarrow> bytes \<Rightarrow> 'w registry \<Rightarrow> response \<Rightarrow> 'w handled" where
  "blob_patch_stream elem target body st resp =
     (if blobs_locked st then (st, resp, Blocked)
      else if uploads (reg_blobs st) target \<noteq> None
      then (st, resp, reg_err StatusBadRequest ''BLOB_UPLOAD_INVALID''
                        ''Stream uploads after first write are not allowed'')
      else (st\<lparr>reg_blobs := (reg_blobs st)\<lparr>uploads := (uploads (reg_blobs st))(target \<mapsto> body)\<rparr>\<rparr>,
            upload_ok elem target body resp, Done None))"

definition blob_put :: "string \<Rightarrow> string \<Rightarrow> string \<Rightarrow> bytes \<Rightarrow> 'w registry \<Rightarrow> response \<Rightarrow> 'w handled" where
  "blob_put repo target dig body st resp =
     (if blobs_locked st then (st, resp, Blocked)
      else (let l = upload_bytes (reg_blobs st) target @ body;
                d = compute_digest l;
                b = store_blob repo d l (reg_blobs st)
            in if d \<noteq> dig then (st, resp, digest_invalid ''digest does not match contents'')
               else (st\<lparr>reg_blobs := b\<lparr>uploads := (uploads b)(target := None)\<rparr>\<rparr>,
                     write_header StatusCreated (set_header ''Docker-Content-Digest'' d resp), Done None)))"

section \<open>The handler\<close>

definition method_unknown :: "nat \<Rightarrow> reg_error option outcome" where
  "method_unknown s = reg_err s ''METHOD_UNKNOWN'' ''We don't understand your method + url''"

definition blobs_dispatch :: "'w reg_config \<Rightarrow> request \<Rightarrow> string list \<Rightarrow> 'w registry \<Rightarrow> response \<Rightarrow> 'w handled" where
  "blobs_dispatch cfg req elem st resp =
     (let target = from_end elem 1; service = from_end elem 2; repo = blob_repo elem;
          dig = query_get req ''digest''; contentRange = header_get req ''Content-Range'';
          m = req_method req; body = req_body req
      in if m = ''HEAD'' then blob_head cfg repo target st resp
         else if m = ''GET'' then blob_get cfg repo target st resp
         else if m = ''POST'' \<and> target = ''uploads'' \<and> dig \<noteq> [] then blob_post_digest repo dig body st resp
         else if m = ''POST'' \<and> target = ''uploads'' \<and> dig = [] then blob_post_start cfg elem st resp
         else if m = ''PATCH'' \<and> service = ''uploads'' \<and> contentRange \<noteq> []
         then blob_patch_range elem target contentRange body st resp
         else if m = ''PATCH'' \<and> service = ''uploads'' \<and> contentRange = []
         then blob_patch_stream elem target body st resp
         else if m = ''PUT'' \<and> service = ''uploads'' \<and> dig = []
         then (st, resp, digest_invalid ''digest not specified'')
         else if m = ''PUT'' \<and> service = ''uploads'' \<and> dig \<noteq> [] then blob_put repo target dig body st resp
         else (st, resp, method_unknown StatusBadRequest))"

definition blobs_handle :: "'w reg_config \<Rightarrow> request \<Rightarrow> 'w registry \<Rightarrow> response \<Rightarrow> 'w handled" where
  "blobs_handle cfg req st resp =
     (case blob_elems (url_path req) of
        Done elem \<Rightarrow>
          if length elem < 4
          then (st, resp, reg_err StatusBadRequest ''NAME_INVALID'' ''blobs must be attached to a repo'')
          else blobs_dispatch cfg req elem st resp
      | Panicked \<Rightarrow> (st, resp, Panicked)
      | Blocked \<Rightarrow> (st, resp, Blocked))"

section \<open>The layers of a repository\<close>

fun collect_layers :: "(string \<rightharpoonup> bytes) \<Rightarrow> string list \<Rightarrow> (string \<rightharpoonup> bytes) \<Rightarrow> (string \<rightharpoonup> bytes) option" where
  "collect_layers c [] ls = Some ls"
| "collect_layers c (d # ds) ls =
     (case c d of None \<Rightarrow> None | Some b \<Rightarrow> collect_layers c ds (ls(d \<mapsto> b)))"

text \<open>
  \<open>get\<close> and \<open>remove\<close> lock the mutex without \<open>defer\<close>: every early return leaves it locked.
\<close>

definition blobs_get :: "string \<Rightarrow> 'w registry \<Rightarrow> 'w registry \<times> (string \<rightharpoonup> bytes) option outcome" where
  "blobs_get repo st =
     (if blobs_locked st then (st, Blocked)
      else (case layers (reg_blobs st) repo of
              None \<Rightarrow> (st\<lparr>blobs_locked := True\<rparr>, Done None)
            | Some digests \<Rightarrow>
                (case collect_layers (contents (reg_blobs st)) digests Map.empty of
                   None \<Rightarrow> (st\<lparr>blobs_locked := True\<rparr>, Done None)
                 | Some ls \<Rightarrow> (st, Done (Some ls)))))"

definition blobs_remove :: "string \<Rightarrow> 'w registry \<Rightarrow> 'w registry \<times> unit outcome" where
  "blobs_remove repo st =
     (if blobs_locked st then (st, Blocked)
      else (case layers (reg_blobs st) repo of
              None \<Rightarrow> (st\<lparr>blobs_locked := True\<rparr>, Done ())
            | Some digests \<Rightarrow>
                (st\<lparr>reg_blobs := (reg_blobs st)\<lparr>layers := (layers (reg_blobs st))(repo := None),
                                               contents := foldl (\<lambda>c d. c(d := None)) (contents (reg_blobs st)) digests\<rparr>\<rparr>,
                 Done ())))"

section \<open>Content ranges\<close>

lemma scan_int_nat:
  assumes "n < 2 ^ 63" and "rest = [] \<or> \<not> is_digit (hd rest)"
  shows "scan_int (nat_str n @ rest) = Some (int n, rest)"
proof -
  obtain c cs where n: "nat_str n = c # cs" by (cases "nat_str n") auto
  with nat_str_digits [of n] have d: "is_digit c" "list_all is_digit (c # cs)" by simp_all
  then have c: "\<not> is_space c" "c \<noteq> CHR ''-''" "c \<noteq> CHR ''+''"
    by (auto simp: is_digit_def is_space_def)
  have "takeWhile is_digit ((c # cs) @ rest) = c # cs"
    using d assms(2) by (subst takeWhile_append2) (auto simp: list_all_iff takeWhile_eq_Nil_iff)
  then have t: "takeWhile is_digit (c # cs @ rest) = c # cs" by simp
  have "int64_ok (int (str_nat (c # cs)))"
    using n assms(1) str_nat_nat_str [of n] by (simp add: int64_ok_def)
  then show ?thesis
    using n c t d str_nat_nat_str [of n] by (simp add: scan_int_def Let_def)
qed

definition content_range :: "nat \<Rightarrow> nat \<Rightarrow> string" where
  "content_range a b = nat_str a @ ''-'' @ nat_str b"

lemma scan_content_range:
  assumes "a < 2 ^ 63" and "b < 2 ^ 63"
  shows "scan_range (content_range a b) = Some (int a, int b)"
  using scan_int_nat [OF assms(1), of "''-'' @ nat_str b"] scan_int_nat [OF assms(2), of "[]"]
  by (simp add: scan_range_def content_range_def is_digit_def)

section \<open>Requests of an upload\<close>

definition upload_path :: "string \<Rightarrow> string \<Rightarrow> string" where
  "upload_path repo upload_id = ''/v2/'' @ repo @ ''/blobs/uploads/'' @ upload_id"

lemma blob_elems_append:
  "t \<noteq> [] \<Longrightarrow> CHR ''/'' \<notin> set t \<Longrightarrow>
     blob_elems (''/'' @ p @ ''/'' @ t) = Done (split_on (CHR ''/'') p @ [t])"
  by (simp add: blob_elems_def str_simps split_on_id)

lemma blob_elems_upload:
  assumes "t \<noteq> []" and "CHR ''/'' \<notin> set t"
  shows "blob_elems (upload_path repo t) = Done (''v2'' # split_on (CHR ''/'') repo @ [''blobs'', ''uploads'', t])"
proof -
  have "upload_path repo t = ''/'' @ (''v2'' @ CHR ''/'' # repo @ CHR ''/'' # ''blobs'' @ CHR ''/'' # ''uploads'') @ ''/'' @ t"
    by (simp add: upload_path_def)
  then have "blob_elems (upload_path repo t) =
    Done (split_on (CHR ''/'') (''v2'' @ CHR ''/'' # repo @ CHR ''/'' # ''blobs'' @ CHR ''/'' # ''uploads'') @ [t])"
    by (simp only: blob_elems_append [OF assms])
  then show ?thesis
    by (simp only: split_on_append_sep) (simp add: split_on_id)
qed

lemma from_end_append:
  "from_end (xs @ [t]) (Suc 0) = t" "from_end (xs @ [u, t]) 2 = u" "from_end (xs @ [v, u, t]) 3 = v"
  "from_end (xs @ [v, u, t]) 2 = u"
  by (simp_all add: from_end_def nth_append numeral_2_eq_2 numeral_3_eq_3)

lemma from_end_upload:
  "from_end (''v2'' # xs @ [''blobs'', ''uploads'', t]) (Suc 0) = t"
  "from_end (''v2'' # xs @ [''blobs'', ''uploads'', t]) 2 = ''uploads''"
  using from_end_append(1) [of "''v2'' # xs @ [''blobs'', ''uploads'']" t]
    from_end_append(4) [of "''v2'' # xs" "''blobs''" "''uploads''" t] by simp_all

lemma blob_repo_upload: "blob_repo (''v2'' # split_on (CHR ''/'') repo @ [''blobs'', ''uploads'', t]) = repo"
  by (simp add: blob_repo_def from_end_upload slice_def join_split_on)

text \<open>A request to an upload URL reaches the branch of its method.\<close>

definition upload_req :: "string \<Rightarrow> string \<Rightarrow> string \<Rightarrow> (string \<times> string) list \<Rightarrow> (string \<times> string) list \<Rightarrow> bytes \<Rightarrow> request" where
  "upload_req m repo upload_id q h body =
     \<lparr>req_method = m, url_path = upload_path repo upload_id, url_query = q, req_header = h, req_body = body\<rparr>"

definition patch_req :: "string \<Rightarrow> string \<Rightarrow> nat \<Rightarrow> bytes \<Rightarrow> request" where
  "patch_req repo upload_id off chunk =
     upload_req ''PATCH'' repo upload_id [] [(''Content-Range'', content_range off (off + length chunk - 1))] chunk"

definition put_req :: "string \<Rightarrow> string \<Rightarrow> string \<Rightarrow> bytes \<Rightarrow> request" where
  "put_req repo upload_id dig body = upload_req ''PUT'' repo upload_id [(''digest'', dig)] [] body"

abbreviation upload_elems :: "string \<Rightarrow> string \<Rightarrow> string list" where
  "upload_elems repo t \<equiv> ''v2'' # split_on (CHR ''/'') repo @ [''blobs'', ''uploads'', t]"

lemma length_upload_elems: "\<not> length (upload_elems repo t) < 4"
  using split_on_nonempty [of "CHR ''/''" repo] by (cases "split_on (CHR ''/'') repo") auto

lemma handle_upload:
  assumes "t \<noteq> []" and "CHR ''/'' \<notin> set t"
  shows "blobs_handle cfg (upload_req m repo t q h body) st resp =
         blobs_dispatch cfg (upload_req m repo t q h body) (upload_elems repo t) st resp"
  using assms length_upload_elems [of repo t]
  by (simp only: blobs_handle_def upload_req_def request.simps blob_elems_upload [OF assms] outcome.case if_False)

lemma handle_patch:
  assumes "t \<noteq> []" and "CHR ''/'' \<notin> set t"
  shows "blobs_handle cfg (patch_req repo t off chunk) st resp =
         blob_patch_range (upload_elems repo t) t (content_range off (off + length chunk - 1)) chunk st resp"
proof -
  have "content_range off (off + length chunk - 1) \<noteq> []" by (simp add: content_range_def)
  then show ?thesis
    unfolding patch_req_def handle_upload [OF assms]
    by (simp add: blobs_dispatch_def upload_req_def from_end_upload header_get_def first_value_def Let_def)
qed

lemma handle_put:
  assumes "t \<noteq> []" and "CHR ''/'' \<notin> set t" and "dig \<noteq> []"
  shows "blobs_handle cfg (put_req repo t dig body) st resp = blob_put repo t dig body st resp"
  unfolding put_req_def handle_upload [OF assms(1,2)]
  using assms blob_repo_upload [of repo t]
  by (simp add: blobs_dispatch_def upload_req_def from_end_upload query_get_def first_value_def Let_def)

section \<open>Uploading in chunks\<close>

text \<open>A client that sends the chunks of a blob one after the other, each with its range.\<close>

fun patch_chunks :: "'w reg_config \<Rightarrow> string \<Rightarrow> string \<Rightarrow> nat \<Rightarrow> bytes list \<Rightarrow> 'w registry \<Rightarrow>
    'w registry \<times> (response \<times> reg_error option outcome) list" where
  "patch_chunks cfg repo t off [] st = (st, [])"
| "patch_chunks cfg repo t off (c # cs) st =
     (case blobs_handle cfg (patch_req repo t off c) st new_response of
        (st1, r, oc) \<Rightarrow>
          (case patch_chunks cfg repo t (off + length c) cs st1 of (st2, rs) \<Rightarrow> (st2, (r, oc) # rs)))"

lemma upload_ok_simps [resp_simps]:
  "sent resp = None \<Longrightarrow> reply_status (upload_ok elem t l resp) = StatusNoContent"
  "sent resp = None \<Longrightarrow> reply_header (upload_ok elem t l resp) ''Range'' = Some (range_header l)"
  by (simp_all add: upload_ok_def resp_simps reply_status_def reply_header_def)

lemma patch_range_ok:
  assumes "\<not> blobs_locked st" and "length (upload_bytes (reg_blobs st) t) = off" and "off < 2 ^ 63" and "e < 2 ^ 63"
  shows "blob_patch_range elem t (content_range off e) chunk st resp =
    (st\<lparr>reg_blobs := (reg_blobs st)\<lparr>uploads := (uploads (reg_blobs st))(t \<mapsto> upload_bytes (reg_blobs st) t @ chunk)\<rparr>\<rparr>,
     upload_ok elem t (upload_bytes (reg_blobs st) t @ chunk) resp, Done None)"
  using assms by (simp add: blob_patch_range_def scan_content_range Let_def)

lemma patch_chunks_spec:
  assumes "t \<noteq> []" and "CHR ''/'' \<notin> set t"
  shows "\<not> blobs_locked st \<Longrightarrow> length (upload_bytes (reg_blobs st) t) = off \<Longrightarrow> off + length (concat cs) < 2 ^ 63 \<Longrightarrow>
    patch_chunks cfg repo t off cs st = (st', rs) \<Longrightarrow>
    upload_bytes (reg_blobs st') t = upload_bytes (reg_blobs st) t @ concat cs \<and>
    contents (reg_blobs st') = contents (reg_blobs st) \<and> layers (reg_blobs st') = layers (reg_blobs st) \<and>
    \<not> blobs_locked st' \<and> length rs = length cs \<and> (\<forall>x \<in> set rs. snd x = Done None \<and> reply_status (fst x) = StatusNoContent)"
proof (induction cs arbitrary: st off rs)
  case (Cons c cs)
  let ?l = "upload_bytes (reg_blobs st) t @ c"
  let ?st1 = "st\<lparr>reg_blobs := (reg_blobs st)\<lparr>uploads := (uploads (reg_blobs st))(t \<mapsto> ?l)\<rparr>\<rparr>"
  obtain rs' where rs': "patch_chunks cfg repo t (off + length c) cs ?st1 = (st', rs')"
    and rs: "rs = (upload_ok (upload_elems repo t) t ?l new_response, Done None) # rs'"
    using Cons.prems patch_range_ok [of st t off "off + length c - 1"]
    by (auto simp: handle_patch assms split: prod.splits)
  have l1: "upload_bytes (reg_blobs ?st1) t = ?l" by (simp add: upload_bytes_def)
  have "upload_bytes (reg_blobs st') t = ?l @ concat cs \<and>
    contents (reg_blobs st') = contents (reg_blobs st) \<and> layers (reg_blobs st') = layers (reg_blobs st) \<and>
    \<not> blobs_locked st' \<and> length rs' = length cs \<and> (\<forall>x \<in> set rs'. snd x = Done None \<and> reply_status (fst x) = StatusNoContent)"
    using Cons.IH [of ?st1 "off + length c" rs'] Cons.prems rs' unfolding l1 by simp
  with rs show ?case by (simp add: resp_simps)
qed simp

lemma blob_put_ok:
  assumes "\<not> blobs_locked st" and "compute_digest (upload_bytes (reg_blobs st) t @ body) = dig"
  shows "\<exists>st' r. blob_put repo t dig body st new_response = (st', r, Done None) \<and> reply_status r = StatusCreated \<and>
    contents (reg_blobs st') = (contents (reg_blobs st))(dig \<mapsto> upload_bytes (reg_blobs st) t @ body) \<and>
    uploads (reg_blobs st') = (uploads (reg_blobs st))(t := None) \<and>
    layers (reg_blobs st') = (layers (reg_blobs st))(repo \<mapsto> (case layers (reg_blobs st) repo of None \<Rightarrow> [] | Some ds \<Rightarrow> ds) @ [dig])"
  using assms by (auto simp: blob_put_def store_blob_def Let_def resp_simps reply_status_def)

text \<open>
  C28: A blob that is uploaded in chunks is stored as it was sent. When the chunks follow
  each other from offset 0, every \<open>PATCH\<close> is answered 204; the \<open>PUT\<close> that closes the upload
  with the digest of the whole is answered 201 and leaves the concatenation of all chunks
  under that digest, the digest as the last layer of the repository, and no open upload.
\<close>
theorem chunked_upload:
  assumes "t \<noteq> []" and "CHR ''/'' \<notin> set t" and "\<not> blobs_locked st" and "uploads (reg_blobs st) t = None"
    and "length (concat cs) < 2 ^ 63"
    and "patch_chunks cfg repo t 0 cs st = (st1, rs)"
  shows "(\<forall>x \<in> set rs. snd x = Done None \<and> reply_status (fst x) = StatusNoContent) \<and>
    (\<exists>st2 r. blobs_handle cfg (put_req repo t (compute_digest (concat cs @ body)) body) st1 new_response = (st2, r, Done None)
      \<and> reply_status r = StatusCreated
      \<and> contents (reg_blobs st2) = (contents (reg_blobs st))(compute_digest (concat cs @ body) \<mapsto> concat cs @ body)
      \<and> uploads (reg_blobs st2) t = None
      \<and> layers (reg_blobs st2) repo =
          Some ((case layers (reg_blobs st) repo of None \<Rightarrow> [] | Some ds \<Rightarrow> ds) @ [compute_digest (concat cs @ body)]))"
proof -
  have "upload_bytes (reg_blobs st) t = []" using assms(4) by (simp add: upload_bytes_def)
  then have S: "upload_bytes (reg_blobs st1) t = concat cs" "contents (reg_blobs st1) = contents (reg_blobs st)"
    "layers (reg_blobs st1) = layers (reg_blobs st)" "\<not> blobs_locked st1"
    "\<forall>x \<in> set rs. snd x = Done None \<and> reply_status (fst x) = StatusNoContent"
    using patch_chunks_spec [OF assms(1,2,3) _ _ assms(6)] assms(5) by simp_all
  have "compute_digest (concat cs @ body) \<noteq> []" by (simp add: compute_digest_def)
  then show ?thesis
    using S blob_put_ok [of st1 t body "compute_digest (concat cs @ body)" repo] assms(1,2)
    by (auto simp: handle_put)
qed

theorem chunked_upload_witness:
  "\<exists>st1 rs st2 r. patch_chunks (local_config offline) ''lib/hello'' ''7'' 0 [''ab'', ''c''] local_registry = (st1, rs) \<and>
     blobs_handle (local_config offline) (put_req ''lib/hello'' ''7'' (compute_digest ''abcd'') ''d'') st1 new_response = (st2, r, Done None)
     \<and> contents (reg_blobs st2) (compute_digest ''abcd'') = Some ''abcd''"
proof -
  obtain st1 rs where P: "patch_chunks (local_config offline) ''lib/hello'' ''7'' 0 [''ab'', ''c''] local_registry = (st1, rs)"
    by fastforce
  show ?thesis using chunked_upload [OF _ _ _ _ _ P, of "''d''"] P by auto
qed

section \<open>Refused uploads\<close>

text \<open>
  A blob is never stored under a digest that is not its own: a closing \<open>PUT\<close> whose digest
  does not match the bytes received so far and in the request is answered 400, and the
  server's state, the open upload included, is as before.
\<close>
theorem put_wrong_digest_rejected:
  assumes "t \<noteq> []" and "CHR ''/'' \<notin> set t" and "\<not> blobs_locked st" and "dig \<noteq> []"
    and "dig \<noteq> compute_digest (upload_bytes (reg_blobs st) t @ body)"
  shows "blobs_handle cfg (put_req repo t dig body) st resp =
    (st, resp, Done (Some \<lparr>Status = StatusBadRequest, Code = ''DIGEST_INVALID'', Message = ''digest does not match contents''\<rparr>))"
  using assms by (simp add: handle_put blob_put_def digest_invalid_def reg_err_def Let_def)

theorem put_wrong_digest_rejected_witness:
  "fst (blobs_handle (local_config offline) (put_req ''a'' ''7'' ''sha256:00'' ''abc'') local_registry new_response) = local_registry"
proof -
  have "length ''sha256:00'' \<noteq> length (compute_digest (upload_bytes (reg_blobs local_registry) ''7'' @ ''abc''))"
    by (simp only: length_compute_digest) simp
  then have "''sha256:00'' \<noteq> compute_digest (upload_bytes (reg_blobs local_registry) ''7'' @ ''abc'')" by metis
  then show ?thesis
    using put_wrong_digest_rejected [of "''7''" local_registry "''sha256:00''" "''abc''" "local_config offline" "''a''" new_response]
    by simp
qed

text \<open>
  C30: Chunks cannot be reordered, repeated or skipped. A \<open>PATCH\<close> with a well-formed content
  range is accepted exactly when it starts where the upload ends; otherwise it is answered
  416 and nothing changes.
\<close>
theorem patch_accepted_iff:
  assumes "t \<noteq> []" and "CHR ''/'' \<notin> set t" and "\<not> blobs_locked st" and "a < 2 ^ 63" and "b < 2 ^ 63"
    and "blobs_handle cfg (upload_req ''PATCH'' repo t q [(''Content-Range'', content_range a b)] body) st resp = (st', resp', oc)"
  shows "if a = length (upload_bytes (reg_blobs st) t)
         then oc = Done None \<and> upload_bytes (reg_blobs st') t = upload_bytes (reg_blobs st) t @ body
         else st' = st \<and> oc = Done (Some \<lparr>Status = StatusRequestedRangeNotSatisfiable, Code = ''BLOB_UPLOAD_UNKNOWN'',
                                  Message = ''Your content range doesn't match what we have''\<rparr>)"
proof -
  have "content_range a b \<noteq> []" by (simp add: content_range_def)
  then have "blob_patch_range (upload_elems repo t) t (content_range a b) body st resp = (st', resp', oc)"
    using assms(6) unfolding handle_upload [OF assms(1,2)]
    by (simp add: blobs_dispatch_def upload_req_def from_end_upload header_get_def first_value_def Let_def)
  then show ?thesis
    using assms(3) scan_content_range [OF assms(4,5)]
    by (auto simp: blob_patch_range_def range_error_def reg_err_def upload_bytes_def Let_def)
qed

theorem patch_accepted_iff_witness:
  "\<exists>r oc. blobs_handle (local_config offline) (upload_req ''PATCH'' ''a'' ''7'' [] [(''Content-Range'', content_range 3 5)] ''xyz'')
     local_registry new_response = (local_registry, r, oc) \<and> oc \<noteq> Done None"
proof -
  obtain st' r oc where h: "blobs_handle (local_config offline)
      (upload_req ''PATCH'' ''a'' ''7'' [] [(''Content-Range'', content_range 3 5)] ''xyz'') local_registry new_response = (st', r, oc)"
    by (rule prod_cases3)
  show ?thesis
    using patch_accepted_iff [OF _ _ _ _ _ h] h by (auto simp: upload_bytes_def)
qed

section \<open>Invariants\<close>

text \<open>The digests a blob is stored under are its own.\<close>

definition content_addressed :: "blobs \<Rightarrow> bool" where
  "content_addressed b = map_all (\<lambda>d c. d = compute_digest c) (contents b)"

text \<open>The part of the state that the blob handler does not touch.\<close>

definition blobs_frame :: "'w registry \<Rightarrow> 'w registry \<Rightarrow> bool" where
  "blobs_frame st st' =
     (blobs_locked st' = blobs_locked st \<and> reg_manifests st' = reg_manifests st \<and>
      manifests_locked st' = manifests_locked st \<and> reg_cids st' = reg_cids st \<and> disk st' = disk st)"

lemma content_addressed_upd [inv_intros]:
  "content_addressed b \<Longrightarrow> content_addressed (b\<lparr>uploads := u\<rparr>)"
  "content_addressed b \<Longrightarrow> content_addressed (store_blob repo (compute_digest l) l b)"
  by (auto simp: content_addressed_def store_blob_def intro: inv_intros)

definition blobs_step_ok :: "'w registry \<Rightarrow> 'w registry \<Rightarrow> bool" where
  "blobs_step_ok st st' \<longleftrightarrow>
     blobs_frame st st' \<and> (content_addressed (reg_blobs st) \<longrightarrow> content_addressed (reg_blobs st'))"

lemma blobs_step_refl: "blobs_step_ok st st" "blobs_step_ok st (st\<lparr>world := w\<rparr>)"
  by (simp_all add: blobs_step_ok_def blobs_frame_def)

lemma blobs_step_blobs:
  "(content_addressed (reg_blobs st) \<Longrightarrow> content_addressed b) \<Longrightarrow> blobs_step_ok st (st\<lparr>reg_blobs := b\<rparr>)"
  by (simp add: blobs_step_ok_def blobs_frame_def)

lemma resolve_step:
  "blobs_step_ok st (fst (resolveCID cfg st r t))" "blobs_step_ok st ((fst (resolveCID cfg st r t))\<lparr>world := w\<rparr>)"
  by (simp_all add: blobs_step_ok_def blobs_frame_def frame_simps)

lemma blob_head_step: "blobs_step_ok st (fst (blob_head cfg repo t st resp))"
  using resolve_step [where st = st and cfg = cfg and r = repo and t = t]
  by (auto simp: blob_head_def blobs_step_refl split: option.splits prod.splits sum.splits)

lemma blob_get_step: "blobs_step_ok st (fst (blob_get cfg repo t st resp))"
  using resolve_step [where st = st and cfg = cfg and r = repo and t = t]
  by (auto simp: blob_get_def blobs_step_refl split: prod.splits sum.splits)

lemma blob_post_step:
  "blobs_step_ok st (fst (blob_post_digest repo dig l st resp))"
  "blobs_step_ok st (fst (blob_post_start cfg elem st resp))"
  by (auto simp: blob_post_digest_def blob_post_start_def blobs_step_refl Let_def split: prod.splits
      intro!: blobs_step_blobs inv_intros)

lemma blob_patch_step:
  "blobs_step_ok st (fst (blob_patch_range elem t cr body st resp))"
  "blobs_step_ok st (fst (blob_patch_stream elem t body st resp))"
  by (auto simp: blob_patch_range_def blob_patch_stream_def blobs_step_refl Let_def split: prod.splits option.splits
      intro!: blobs_step_blobs inv_intros)

lemma blob_put_step: "blobs_step_ok st (fst (blob_put repo t dig body st resp))"
  by (auto simp: blob_put_def blobs_step_refl Let_def intro!: blobs_step_blobs inv_intros)

lemmas blob_steps = blob_head_step blob_get_step blob_post_step blob_patch_step blob_put_step blobs_step_refl

lemma blobs_handle_step: "blobs_step_ok st (fst (blobs_handle cfg req st resp))"
  by (auto simp: blobs_handle_def blobs_dispatch_def blob_steps Let_def split: outcome.splits)

lemma foldl_del: "foldl (\<lambda>c d. c(d := None)) m ds = m |` (- set ds)"
  by (induction ds arbitrary: m) (auto simp: restrict_map_def fun_eq_iff)

lemma blobs_get_step:
  "reg_blobs (fst (blobs_get repo st)) = reg_blobs st" "reg_manifests (fst (blobs_get repo st)) = reg_manifests st"
  "manifests_locked (fst (blobs_get repo st)) = manifests_locked st"
  "reg_cids (fst (blobs_get repo st)) = reg_cids st" "disk (fst (blobs_get repo st)) = disk st"
  "world (fst (blobs_get repo st)) = world st"
  by (auto simp: blobs_get_def split: option.splits)

lemma blobs_remove_step:
  "content_addressed (reg_blobs st) \<Longrightarrow> content_addressed (reg_blobs (fst (blobs_remove repo st)))"
  "reg_manifests (fst (blobs_remove repo st)) = reg_manifests st"
  "manifests_locked (fst (blobs_remove repo st)) = manifests_locked st"
  "reg_cids (fst (blobs_remove repo st)) = reg_cids st" "disk (fst (blobs_remove repo st)) = disk st"
  "world (fst (blobs_remove repo st)) = world st"
  by (auto simp: blobs_remove_def foldl_del content_addressed_def split: option.splits intro: inv_intros)

section \<open>Blobs that are on IPFS only\<close>

definition blob_path :: "string \<Rightarrow> string \<Rightarrow> string" where
  "blob_path repo d = ''/v2/'' @ repo @ ''/blobs/'' @ d"

definition blob_req :: "string \<Rightarrow> string \<Rightarrow> string \<Rightarrow> request" where
  "blob_req m repo d = \<lparr>req_method = m, url_path = blob_path repo d, url_query = [], req_header = [], req_body = []\<rparr>"

lemma blob_elems_blob:
  assumes "d \<noteq> []" and "CHR ''/'' \<notin> set d"
  shows "blob_elems (blob_path repo d) = Done (''v2'' # split_on (CHR ''/'') repo @ [''blobs'', d])"
proof -
  have "blob_path repo d = ''/'' @ (''v2'' @ CHR ''/'' # repo @ CHR ''/'' # ''blobs'') @ ''/'' @ d"
    by (simp add: blob_path_def)
  then have "blob_elems (blob_path repo d) =
    Done (split_on (CHR ''/'') (''v2'' @ CHR ''/'' # repo @ CHR ''/'' # ''blobs'') @ [d])"
    by (simp only: blob_elems_append [OF assms])
  then show ?thesis
    by (simp only: split_on_append_sep) (simp add: split_on_id)
qed

lemma from_end_blob:
  "from_end (''v2'' # xs @ [''blobs'', t]) (Suc 0) = t"
  "from_end (''v2'' # xs @ [''blobs'', t]) 2 = ''blobs''"
  using from_end_append(1) [of "''v2'' # xs @ [''blobs'']" t]
    from_end_append(2) [of "''v2'' # xs" "''blobs''" t] by simp_all

lemma handle_blob:
  assumes "d \<noteq> []" and "CHR ''/'' \<notin> set d"
  shows "blobs_handle cfg (blob_req m repo d) st resp =
         blobs_dispatch cfg (blob_req m repo d) (''v2'' # split_on (CHR ''/'') repo @ [''blobs'', d]) st resp"
proof -
  have "\<not> length (''v2'' # split_on (CHR ''/'') repo @ [''blobs'', d]) < 4"
    using split_on_nonempty [of "CHR ''/''" repo] by (cases "split_on (CHR ''/'') repo") auto
  then show ?thesis
    by (simp only: blobs_handle_def blob_req_def request.simps blob_elems_blob [OF assms] outcome.case if_False)
qed

lemma blob_repo_blob: "blob_repo (''v2'' # split_on (CHR ''/'') repo @ [''blobs'', d]) = repo"
  by (simp add: blob_repo_def from_end_blob slice_def join_split_on)

lemma handle_blob_read:
  assumes "d \<noteq> []" and "CHR ''/'' \<notin> set d"
  shows "blobs_handle cfg (blob_req ''GET'' repo d) st resp = blob_get cfg repo d st resp"
    and "blobs_handle cfg (blob_req ''HEAD'' repo d) st resp = blob_head cfg repo d st resp"
  unfolding handle_blob [OF assms]
  by (simp_all add: blobs_dispatch_def blob_repo_blob from_end_blob Let_def) (simp_all add: blob_req_def)

definition blob_url :: "'w reg_config \<Rightarrow> string \<Rightarrow> string \<Rightarrow> string" where
  "blob_url cfg cid d = IPFSGateway cfg @ ''/ipfs/'' @ cid @ ''/blobs/'' @ d"

lemma ipfsURL_blob: "ipfsURL cfg [cid, ''blobs'', d] = blob_url cfg cid d"
  by (simp add: ipfsURL_def IpfsURL_def blob_url_def)

lemma relay_ok:
  assumes "rp_code r = StatusOK" and "rp_body r = Inr body" and "sent resp = None"
  shows "\<exists>resp'. relay_blob d resp (Inr r) = (resp', Done None) \<and> reply_status resp' = StatusOK \<and>
    out resp' = out resp @ body \<and> reply_header resp' ''Content-Length'' = Some (nat_str (length body)) \<and>
    reply_header resp' ''Docker-Content-Digest'' = Some d"
  using assms by (simp add: relay_blob_def reply_status_def reply_header_def resp_simps)

text \<open>
  A pulled blob is what the gateway has at \<open>blobs/<digest>\<close> below the CID that the name
  resolves to: the reply is 200 with exactly these bytes, their length, and the requested
  digest as the content digest. The bytes are relayed as they are: nothing compares them
  with the digest.
\<close>
theorem get_relays_gateway:
  assumes "d \<noteq> []" and "CHR ''/'' \<notin> set d" and "resolveCID cfg st repo d = (st1, Inr cid)"
    and "http_get (sv cfg) (world st1) (blob_url cfg cid d) = (w', Inr r)"
    and "rp_code r = StatusOK" and "rp_body r = Inr body"
  shows "\<exists>resp. blobs_handle cfg (blob_req ''GET'' repo d) st new_response = (st1\<lparr>world := w'\<rparr>, resp, Done None) \<and>
    reply_status resp = StatusOK \<and> out resp = body \<and>
    reply_header resp ''Content-Length'' = Some (nat_str (length body)) \<and>
    reply_header resp ''Docker-Content-Digest'' = Some d"
  using assms relay_ok [OF assms(5,6), of new_response d]
  by (auto simp: handle_blob_read blob_get_def ipfsURL_blob resp_simps)

text \<open>
  Asked with \<open>HEAD\<close> for a blob that is not stored locally, the server reports a length
  of 0 whatever the blob's size is: it takes the length from the body of its own \<open>HEAD\<close>
  request to the gateway, and such a body is always empty.
\<close>
theorem head_on_ipfs_reports_zero:
  assumes "d \<noteq> []" and "CHR ''/'' \<notin> set d" and "\<not> blobs_locked st" and "contents (reg_blobs st) d = None"
    and "resolveCID cfg st repo d = (st1, Inr cid)"
    and "http_head (sv cfg) (world st1) (blob_url cfg cid d) = (w', Inr r)" and "rp_code r = StatusOK"
  shows "\<exists>resp. blobs_handle cfg (blob_req ''HEAD'' repo d) st new_response = (st1\<lparr>world := w'\<rparr>, resp, Done None) \<and>
    reply_status resp = StatusOK \<and> reply_header resp ''Content-Length'' = Some ''0''"
proof -
  have "nat_str 0 = ''0''" by code_simp
  then show ?thesis
    using assms relay_ok [of "r\<lparr>rp_body := Inr []\<rparr>" "[]" new_response d]
    by (auto simp: handle_blob_read blob_head_def ipfsURL_blob http_Head_def resp_simps)
qed

text \<open>A gateway that serves one blob \<open>abc\<close> to every request, and resolves through a CID name.\<close>

definition gateway_services :: "unit services" where
  "gateway_services = offline\<lparr>cid_pkg := one_cid,
     http_get := (\<lambda>w u. (w, Inr \<lparr>rp_code = 200, rp_status = ''200 OK'', rp_body = Inr ''abc''\<rparr>)),
     http_head := (\<lambda>w u. (w, Inr \<lparr>rp_code = 200, rp_status = ''200 OK'', rp_body = Inr ''''\<rparr>))\<rparr>"

lemma gateway_resolves: "resolveCID (local_config gateway_services) local_registry (Encode58 ''x'') t = (local_registry, Inr ''bx'')"
  by (simp add: resolveCID_def resolve_def Let_def local_config_def gateway_services_def ToB32_def one_cid_def)

theorem get_relays_gateway_witness:
  "\<exists>st resp. blobs_handle (local_config gateway_services) (blob_req ''GET'' (Encode58 ''x'') ''sha256:00'') local_registry
     new_response = (st, resp, Done None) \<and> out resp = ''abc''"
  using get_relays_gateway [OF _ _ gateway_resolves, of "''sha256:00''"]
  by (fastforce simp: gateway_services_def local_config_def)

theorem head_on_ipfs_reports_zero_witness:
  "\<exists>st resp. blobs_handle (local_config gateway_services) (blob_req ''HEAD'' (Encode58 ''x'') ''sha256:00'') local_registry
     new_response = (st, resp, Done None) \<and> reply_header resp ''Content-Length'' = Some ''0''"
  using head_on_ipfs_reports_zero [OF _ _ _ _ gateway_resolves, of "''sha256:00''"]
  by (fastforce simp: gateway_services_def local_config_def)

end
