(* ===== verification/Index.thy ===== *)
theory Index
  imports Image
begin

text \<open>
  Manifest lists, \<open>ParseIndexManifest\<close> of the vendored \<open>google/go-containerregistry/pkg/v1\<close>,
  which the manifest handler asks for the manifests a list names: the structures, the check of a
  hash, and the JSON decoder's rules for these structures (as in \<open>Image\<close>: the text of a decoding
  error is not kept). A \<open>json.Decoder\<close> reads one value and ignores what follows it.
\<close>

section \<open>Hashes\<close>

record v1_hash =
  Algorithm :: string
  Hex :: string

definition zero_hash :: v1_hash where
  "zero_hash = \<lparr>Algorithm = [], Hex = []\<rparr>"

definition hash_String :: "v1_hash \<Rightarrow> string" where
  "hash_String h = Algorithm h @ '':'' @ Hex h"

text \<open>\<open>%q\<close> of a string; bytes above 127 are taken as printable.\<close>

definition quote_char :: "char \<Rightarrow> string" where
  "quote_char c =
     (if c = CHR 0x22 then [CHR 0x5C, CHR 0x22]
      else if c = CHR 0x5C then [CHR 0x5C, CHR 0x5C]
      else if c = CHR 0x07 then [CHR 0x5C, CHR ''a'']
      else if c = CHR 0x08 then [CHR 0x5C, CHR ''b'']
      else if c = CHR 0x0C then [CHR 0x5C, CHR ''f'']
      else if c = CHR 0x0A then [CHR 0x5C, CHR ''n'']
      else if c = CHR 0x0D then [CHR 0x5C, CHR ''r'']
      else if c = CHR 0x09 then [CHR 0x5C, CHR ''t'']
      else if c = CHR 0x0B then [CHR 0x5C, CHR ''v'']
      else if (of_char c :: nat) < 32 \<or> c = CHR 0x7F then [CHR 0x5C, CHR ''x''] @ hex_encode [c]
      else [c])"

definition go_quote :: "string \<Rightarrow> string" where
  "go_quote s = CHR 0x22 # concat (map quote_char s) @ [CHR 0x22]"

text \<open>
  \<open>parse\<close>: \<open>strings.TrimLeft\<close> leaves nothing of a string of hexadecimal digits, and
  \<open>Hasher\<close> knows SHA-256 only, with 32 bytes.
\<close>

definition hash_parse :: "string \<Rightarrow> v1_hash result" where
  "hash_parse unquoted =
     (let parts = split_on (CHR '':'') unquoted in
      if length parts \<noteq> 2 then Inl (GoError (''too many parts in hash: '' @ unquoted))
      else (let rest = dropWhile is_hex_char (parts ! 1) in
            if rest \<noteq> [] then Inl (GoError (''found non-hex character in hash: '' @ utf8 (byte_val (hd rest))))
            else if parts ! 0 \<noteq> ''sha256'' then Inl (GoError (''unsupported hash: '' @ go_quote (parts ! 0)))
            else if length (parts ! 1) \<noteq> 64
            then Inl (GoError (''wrong number of hex digits for '' @ parts ! 0 @ '': '' @ parts ! 1))
            else Inr \<lparr>Algorithm = parts ! 0, Hex = parts ! 1\<rparr>))"

text \<open>
  \<open>UnmarshalJSON\<close> unquotes the literal, so anything but a string is an error, \<open>null\<close> too. (Go's
  and JSON's escapes differ, but no string with such an escape is a hash.)
\<close>

fun decode_hash :: "json \<Rightarrow> v1_hash option" where
  "decode_hash (JStr s) = (case hash_parse s of Inl e \<Rightarrow> None | Inr h \<Rightarrow> Some h)"
| "decode_hash _ = None"

section \<open>The structures\<close>

text \<open>What is kept of a \<open>Descriptor\<close> and an \<open>IndexManifest\<close>; the types of the other fields are checked.\<close>

record v1_descriptor =
  v1_mediaType :: string
  v1_size :: int
  v1_digest :: v1_hash

record index_manifest =
  im_schemaVersion :: int
  im_mediaType :: string
  im_manifests :: "v1_descriptor list"

definition zero_v1_descriptor :: v1_descriptor where
  "zero_v1_descriptor = \<lparr>v1_mediaType = [], v1_size = 0, v1_digest = zero_hash\<rparr>"

definition zero_index :: index_manifest where
  "zero_index = \<lparr>im_schemaVersion = 0, im_mediaType = [], im_manifests = []\<rparr>"

text \<open>Values that can be decoded into a \<open>string\<close>, a \<open>[]string\<close> and a \<open>map[string]string\<close>.\<close>

definition is_str_value :: "json \<Rightarrow> bool" where
  "is_str_value v \<longleftrightarrow> decode_str v [] \<noteq> None"

fun is_str_slice :: "json \<Rightarrow> bool" where
  "is_str_slice JNull = True"
| "is_str_slice (JArr vs) = list_all is_str_value vs"
| "is_str_slice _ = False"

fun is_str_map :: "json \<Rightarrow> bool" where
  "is_str_map JNull = True"
| "is_str_map (JObj ms) = list_all (\<lambda>(k, v). is_str_value v) ms"
| "is_str_map _ = False"

definition platform_member :: "string \<times> json \<Rightarrow> bool" where
  "platform_member m =
     (if list_ex (field_is (fst m)) [''architecture'', ''os'', ''os.version'', ''variant''] then is_str_value (snd m)
      else if list_ex (field_is (fst m)) [''os.features'', ''features''] then is_str_slice (snd m)
      else True)"

fun is_platform :: "json \<Rightarrow> bool" where
  "is_platform JNull = True"
| "is_platform (JObj ms) = list_all platform_member ms"
| "is_platform _ = False"

section \<open>Decoding\<close>

fun decode_v1_members :: "(string \<times> json) list \<Rightarrow> v1_descriptor \<Rightarrow> v1_descriptor option" where
  "decode_v1_members [] d = Some d"
| "decode_v1_members ((k, v) # ms) d =
     (if field_is k ''mediaType'' then
        (case decode_str v (v1_mediaType d) of None \<Rightarrow> None
         | Some s \<Rightarrow> decode_v1_members ms (d\<lparr>v1_mediaType := s\<rparr>))
      else if field_is k ''size'' then
        (case decode_int v (v1_size d) of None \<Rightarrow> None
         | Some i \<Rightarrow> decode_v1_members ms (d\<lparr>v1_size := i\<rparr>))
      else if field_is k ''digest'' then
        (case decode_hash v of None \<Rightarrow> None
         | Some h \<Rightarrow> decode_v1_members ms (d\<lparr>v1_digest := h\<rparr>))
      else if field_is k ''urls'' then (if is_str_slice v then decode_v1_members ms d else None)
      else if field_is k ''annotations'' then (if is_str_map v then decode_v1_members ms d else None)
      else if field_is k ''platform'' then (if is_platform v then decode_v1_members ms d else None)
      else decode_v1_members ms d)"

text \<open>A structure, not a pointer: \<open>null\<close> leaves it as it is.\<close>

fun decode_v1_desc :: "json \<Rightarrow> v1_descriptor \<Rightarrow> v1_descriptor option" where
  "decode_v1_desc JNull old = Some old"
| "decode_v1_desc (JObj ms) old = decode_v1_members ms old"
| "decode_v1_desc _ old = None"

fun decode_v1_descs :: "json list \<Rightarrow> v1_descriptor list \<Rightarrow> v1_descriptor list option" where
  "decode_v1_descs [] olds = Some []"
| "decode_v1_descs (v # vs) olds =
     (case decode_v1_desc v (case olds of [] \<Rightarrow> zero_v1_descriptor | d # _ \<Rightarrow> d) of
        None \<Rightarrow> None
      | Some d \<Rightarrow> map_option (Cons d) (decode_v1_descs vs (tl olds)))"

fun decode_listed :: "json \<Rightarrow> v1_descriptor list \<Rightarrow> v1_descriptor list option" where
  "decode_listed JNull olds = Some []"
| "decode_listed (JArr vs) olds = decode_v1_descs vs olds"
| "decode_listed _ olds = None"

fun decode_index_members :: "(string \<times> json) list \<Rightarrow> index_manifest \<Rightarrow> index_manifest option" where
  "decode_index_members [] m = Some m"
| "decode_index_members ((k, v) # ms) m =
     (if field_is k ''schemaVersion'' then
        (case decode_int v (im_schemaVersion m) of None \<Rightarrow> None
         | Some i \<Rightarrow> decode_index_members ms (m\<lparr>im_schemaVersion := i\<rparr>))
      else if field_is k ''mediaType'' then
        (case decode_str v (im_mediaType m) of None \<Rightarrow> None
         | Some s \<Rightarrow> decode_index_members ms (m\<lparr>im_mediaType := s\<rparr>))
      else if field_is k ''manifests'' then
        (case decode_listed v (im_manifests m) of None \<Rightarrow> None
         | Some ds \<Rightarrow> decode_index_members ms (m\<lparr>im_manifests := ds\<rparr>))
      else if field_is k ''annotations'' then (if is_str_map v then decode_index_members ms m else None)
      else decode_index_members ms m)"

text \<open>\<open>json.NewDecoder(r).Decode\<close>: the automaton of \<open>Json\<close>, stopped at the end of the first value.\<close>

function first_value :: "string \<Rightarrow> config \<Rightarrow> json option" where
  "first_value [] c = None"
| "first_value (x # s) c =
     (if is_json_space x then first_value s c
      else (case lex_token x s of
              None \<Rightarrow> None
            | Some (t, r) \<Rightarrow>
                (case pstep t c of
                   None \<Rightarrow> None
                 | Some (PEnd v, st) \<Rightarrow> Some v
                 | Some c' \<Rightarrow> first_value r c')))"
  by pat_completeness auto
termination
  by (relation "measure (\<lambda>(s, c). length s)") (auto dest: lex_token_length)

definition ParseIndexManifest :: "bytes \<Rightarrow> index_manifest result" where
  "ParseIndexManifest b =
     (case first_value b (PVal, []) of
        None \<Rightarrow> Inl (GoError ''invalid JSON'')
      | Some JNull \<Rightarrow> Inr zero_index
      | Some (JObj ms) \<Rightarrow>
          (case decode_index_members ms zero_index of
             None \<Rightarrow> Inl (GoError ''json: cannot unmarshal'')
           | Some m \<Rightarrow> Inr m)
      | Some _ \<Rightarrow> Inl (GoError ''json: cannot unmarshal''))"

text \<open>\<open>desc.Digest.String()\<close> for each listed manifest\<close>

definition listed_digests :: "index_manifest \<Rightarrow> string list" where
  "listed_digests m = map (hash_String \<circ> v1_digest) (im_manifests m)"

section \<open>What a list names\<close>

lemma first_value_parse:
  "lex s = Some ts \<Longrightarrow> prun ts c = Some (PEnd v, []) \<Longrightarrow> (\<And>w st. c \<noteq> (PEnd w, st)) \<Longrightarrow> first_value s c = Some v"
proof (induction s arbitrary: ts c rule: lex.induct)
  case (2 x s)
  show ?case
  proof (cases "is_json_space x")
    case True
    with 2 show ?thesis by simp
  next
    case False
    with "2.prems"(1) obtain t r ts' where t: "lex_token x s = Some (t, r)" "lex r = Some ts'" "ts = t # ts'"
      by (auto split: option.splits)
    with "2.prems"(2) obtain q st where p: "pstep t c = Some (q, st)" "prun ts' (q, st) = Some (PEnd v, [])"
      by (auto split: option.splits)
    show ?thesis
    proof (cases "\<exists>w. q = PEnd w")
      case True
      then obtain w where "q = PEnd w" by blast
      with p(2) have "ts' = [] \<and> w = v" by (cases ts') auto
      with False t(1) p(1) \<open>q = PEnd w\<close> show ?thesis by simp
    next
      case nq: False
      with "2.IH"(2) [OF False t(1) refl t(2) p(2)] have "first_value r (q, st) = Some v" by blast
      with False t(1) p(1) nq show ?thesis by (cases q) simp_all
    qed
  qed
qed simp

lemma first_value_print:
  assumes "int_nums v"
  shows "first_value (json_print v) (PVal, []) = Some v"
proof -
  obtain ts where ts: "lex (json_print v) = Some ts" "prun ts (PVal, []) = Some (PEnd v, [])"
    using json_parse_print [OF assms]
    by (auto simp: json_parse_def split: option.splits pstate.splits list.splits prod.splits)
  show ?thesis by (rule first_value_parse [OF ts]) simp
qed

lemma hash_parse_String:
  assumes "hash_parse s = Inr h"
  shows "hash_String h = s"
proof -
  have "length (split_on (CHR '':'') s) = 2"
    and h: "h = \<lparr>Algorithm = split_on (CHR '':'') s ! 0, Hex = split_on (CHR '':'') s ! 1\<rparr>"
    using assms by (auto simp: hash_parse_def Let_def split: if_splits)
  then obtain x y where "split_on (CHR '':'') s = [x, y]"
    by (cases "split_on (CHR '':'') s"; cases "tl (split_on (CHR '':'') s)") simp_all
  with h join_split_on [of "CHR '':''" s] show ?thesis by (simp add: hash_String_def)
qed

lemma hash_parse_digest: "\<exists>h. hash_parse (compute_digest b) = Inr h \<and> hash_String h = compute_digest b"
proof -
  have hex: "list_all is_hex_char (hex_encode (sha256 b))" by (rule hex_encode_chars)
  have "\<not> is_hex_char (CHR '':'')" by code_simp
  with hex have c: "CHR '':'' \<notin> set (hex_encode (sha256 b))" by (auto simp: list_all_iff)
  have "compute_digest b = ''sha256'' @ CHR '':'' # hex_encode (sha256 b)" by (simp add: compute_digest_def)
  then have sp: "split_on (CHR '':'') (compute_digest b) = [''sha256'', hex_encode (sha256 b)]"
    using c by (simp only: split_on_append_sep) (simp add: split_on_id)
  have dw: "dropWhile is_hex_char (hex_encode (sha256 b)) = []" using hex by (simp add: list_all_iff)
  have "\<exists>h. hash_parse (compute_digest b) = Inr h" unfolding hash_parse_def sp by (simp add: dw)
  then show ?thesis using hash_parse_String by blast
qed

text \<open>The list that names the given digests.\<close>

definition index_of :: "string list \<Rightarrow> bytes" where
  "index_of ds = json_print (JObj [(''manifests'', JArr (map (\<lambda>d. JObj [(''digest'', JStr d)]) ds))])"

lemma decode_v1_descs_map:
  "\<forall>d \<in> set ds. \<exists>h. hash_parse d = Inr h \<Longrightarrow>
   \<exists>es. decode_v1_descs (map (\<lambda>d. JObj [(''digest'', JStr d)]) ds) [] = Some es \<and> map (hash_String \<circ> v1_digest) es = ds"
proof (induction ds)
  case (Cons d ds)
  then obtain h where h: "hash_parse d = Inr h" by auto
  from Cons obtain es where "decode_v1_descs (map (\<lambda>d. JObj [(''digest'', JStr d)]) ds) [] = Some es"
    "map (hash_String \<circ> v1_digest) es = ds" by auto
  with h hash_parse_String [OF h] show ?case
    by (intro exI [of _ "zero_v1_descriptor\<lparr>v1_digest := h\<rparr> # es"]) (simp add: field_is_def to_lower_def to_lower_char_def comp_def)
qed simp

lemma index_of_lists:
  assumes "\<forall>d \<in> set ds. \<exists>h. hash_parse d = Inr h"
  shows "\<exists>im. ParseIndexManifest (index_of ds) = Inr im \<and> listed_digests im = ds"
proof -
  obtain es where es: "decode_v1_descs (map (\<lambda>d. JObj [(''digest'', JStr d)]) ds) [] = Some es" "map (hash_String \<circ> v1_digest) es = ds"
    using decode_v1_descs_map [OF assms] by blast
  have "first_value (index_of ds) (PVal, []) = Some (JObj [(''manifests'', JArr (map (\<lambda>d. JObj [(''digest'', JStr d)]) ds))])"
    unfolding index_of_def by (rule first_value_print) auto
  with es show ?thesis
    by (simp add: ParseIndexManifest_def field_is_def to_lower_def to_lower_char_def listed_digests_def zero_index_def)
qed

end
