(* ===== verification/Manifests.thy ===== *)
theory Manifests
  imports Blobs Index
begin

text \<open>
  The manifest handler, \<open>server/registry/manifest.go\<close>: fetching a manifest from memory or
  from IPFS (\<open>fetch\<close>, \<open>getManifest\<close>) and the branches of \<open>handle\<close>. A successful \<open>PUT\<close> moves
  the manifest and the repository's layers to IPFS and stores the CID.
\<close>

section \<open>Paths\<close>

definition manifest_elems :: "string \<Rightarrow> string list" where
  "manifest_elems p = tl (split_on (CHR ''/'') p)"

definition isManifest :: "request \<Rightarrow> bool" where
  "isManifest req =
     (let elems = manifest_elems (url_path req) in
      4 \<le> length elems \<and> from_end elems 2 = ''manifests'')"

section \<open>Fetching\<close>

text \<open>
  \<open>getManifest\<close> computes the digest of what the gateway returned; the content type is the
  media type inside the manifest.
\<close>

definition getManifest :: "'w reg_config \<Rightarrow> 'w \<Rightarrow> string \<Rightarrow> string \<Rightarrow> 'w \<times> stored_manifest result" where
  "getManifest cfg w cid target =
     (case getContent (sv cfg) w (IPFSGateway cfg) cid [''manifests'', target] of
        (w', Inl e) \<Rightarrow> (w', Inl e)
      | (w', Inr b) \<Rightarrow>
          (w', case DecodeManifest b of
                 Inl e \<Rightarrow> Inl e
               | Inr mf \<Rightarrow> Inr \<lparr>contentType = mf_mediaType mf, blob = b, digest = compute_digest b\<rparr>))"

definition repo_manifests :: "'w registry \<Rightarrow> string \<Rightarrow> string \<rightharpoonup> stored_manifest" where
  "repo_manifests st repo = (case reg_manifests st repo of None \<Rightarrow> Map.empty | Some m \<Rightarrow> m)"

text \<open>\<open>m.manifests[repo][t] = mf\<close>, and the creation of an absent \<open>m.manifests[repo]\<close>\<close>

definition put_manifest :: "string \<Rightarrow> string \<Rightarrow> stored_manifest \<Rightarrow> 'w registry \<Rightarrow> 'w registry" where
  "put_manifest repo t mf st =
     st\<lparr>reg_manifests := (reg_manifests st)(repo \<mapsto> (repo_manifests st repo)(t \<mapsto> mf))\<rparr>"

definition make_repo :: "string \<Rightarrow> 'w registry \<Rightarrow> 'w registry" where
  "make_repo repo st = st\<lparr>reg_manifests := (reg_manifests st)(repo \<mapsto> repo_manifests st repo)\<rparr>"

definition fetch :: "'w reg_config \<Rightarrow> string \<Rightarrow> string \<Rightarrow> 'w registry \<Rightarrow> 'w registry \<times> stored_manifest result" where
  "fetch cfg repo target st =
     (let st0 = make_repo repo st in
      case repo_manifests st0 repo target of
        Some mf \<Rightarrow> (st0, Inr mf)
      | None \<Rightarrow>
          (case resolveCID cfg st0 repo target of
             (st1, Inl e) \<Rightarrow> (st1, Inl e)
           | (st1, Inr cid) \<Rightarrow>
               (case getManifest cfg (world st1) cid target of
                  (w', Inl e) \<Rightarrow> (st1\<lparr>world := w'\<rparr>, Inl e)
                | (w', Inr mf) \<Rightarrow>
                    (cids_add (put_manifest repo (digest mf) mf (put_manifest repo target mf (st1\<lparr>world := w'\<rparr>)))
                       repo (digest mf) cid, Inr mf))))"

section \<open>Reading a manifest\<close>

definition manifest_unknown :: "string \<Rightarrow> reg_error option outcome" where
  "manifest_unknown m = reg_err StatusNotFound ''MANIFEST_UNKNOWN'' m"

definition manifest_get :: "'w reg_config \<Rightarrow> string \<Rightarrow> string \<Rightarrow> 'w registry \<Rightarrow> response \<Rightarrow> 'w handled" where
  "manifest_get cfg repo target st resp =
     (if manifests_locked st then (st, resp, Blocked)
      else (case fetch cfg repo target st of
              (st1, Inl e) \<Rightarrow> (st1, resp, manifest_unknown (err_msg e))
            | (st1, Inr mf) \<Rightarrow>
                (case resolveCID cfg st1 repo target of
                   (st2, Inl e) \<Rightarrow> (st2, resp, manifest_unknown (err_msg e))
                 | (st2, Inr cid) \<Rightarrow>
                     (case blob_digests (blob mf) of
                        Panicked \<Rightarrow> (st2, resp, Panicked)
                      | Blocked \<Rightarrow> (st2, resp, Blocked)
                      | Done ds \<Rightarrow>
                          (foldl (\<lambda>s d. cids_add s repo d cid) st2 ds,
                           write_body (blob mf)
                             (write_header StatusOK
                               (set_header ''Content-Length'' (nat_str (length (blob mf)))
                                 (set_header ''Content-Type'' (contentType mf)
                                   (set_header ''X-Docker-Content-ID'' cid
                                     (set_header ''Docker-Content-Digest'' (digest mf) resp))))),
                           Done None)))))"

definition manifest_head :: "'w reg_config \<Rightarrow> string \<Rightarrow> string \<Rightarrow> 'w registry \<Rightarrow> response \<Rightarrow> 'w handled" where
  "manifest_head cfg repo target st resp =
     (if manifests_locked st then (st, resp, Blocked)
      else (case fetch cfg repo target st of
              (st1, Inl e) \<Rightarrow> (st1, resp, manifest_unknown (err_msg e))
            | (st1, Inr mf) \<Rightarrow>
                (st1,
                 write_header StatusOK
                   (set_header ''Content-Length'' (nat_str (length (blob mf)))
                     (set_header ''Content-Type'' (contentType mf)
                       (set_header ''Docker-Content-Digest'' (digest mf) resp))),
                 Done None)))"

section \<open>Storing a manifest\<close>

definition is_index_type :: "string \<Rightarrow> bool" where
  "is_index_type ct =
     (ct = ''application/vnd.oci.image.index.v1+json'' \<or>
      ct = ''application/vnd.docker.distribution.manifest.list.v2+json'')"

text \<open>The check of a manifest list: the error reply, if a listed manifest is not known.\<close>

fun check_listed :: "(string \<rightharpoonup> stored_manifest) \<Rightarrow> string list \<Rightarrow> string option" where
  "check_listed known [] = None"
| "check_listed known (d # ds) =
     (if known d = None then Some (''Sub-manifest '' @ go_quote d @ '' not found'') else check_listed known ds)"

definition check_index :: "(string \<rightharpoonup> stored_manifest) \<Rightarrow> stored_manifest \<Rightarrow> string option" where
  "check_index known mf =
     (if is_index_type (contentType mf)
      then (case ParseIndexManifest (blob mf) of
              Inl e \<Rightarrow> Some (err_msg e)
            | Inr im \<Rightarrow> check_listed known (listed_digests im))
      else None)"

text \<open>The part of \<open>PUT\<close> after the manifest is in the table.\<close>

definition manifest_refs :: "string \<Rightarrow> string \<Rightarrow> bytes \<Rightarrow> string \<rightharpoonup> bytes" where
  "manifest_refs target dig b = [target \<mapsto> b, dig \<mapsto> b, ''latest'' \<mapsto> b]"

definition add_image :: "'w reg_config \<Rightarrow> string \<Rightarrow> string \<Rightarrow> string \<Rightarrow> bytes \<Rightarrow> (string \<rightharpoonup> bytes) \<Rightarrow> 'w registry \<Rightarrow> response \<Rightarrow>
    'w handled" where
  "add_image cfg repo target dig b ls st resp =
     (case AddImage (sv cfg) (world st) (ipfsClient cfg) (manifest_refs target dig b) ls of
        (w', Inl e) \<Rightarrow> (st\<lparr>world := w'\<rparr>, resp, reg_err StatusInternalServerError [] (err_msg e))
      | (w', Inr cid) \<Rightarrow>
          (cids_add (cids_add (cids_add (st\<lparr>world := w'\<rparr>) repo target cid) repo dig cid) cid ''latest'' cid,
           write_header StatusCreated
             (set_header ''X-Docker-Content-ID'' cid (set_header ''Docker-Content-Digest'' dig resp)),
           Done None))"

text \<open>
  The manifest mutex is held while the blob mutex is waited for: if that one is never
  released, neither is this one.
\<close>

definition manifest_commit :: "'w reg_config \<Rightarrow> string \<Rightarrow> string \<Rightarrow> string \<Rightarrow> bytes \<Rightarrow> 'w registry \<Rightarrow> response \<Rightarrow> 'w handled" where
  "manifest_commit cfg repo target dig b st resp =
     (case blobs_get repo st of
        (st1, Done None) \<Rightarrow>
          (st1, resp, reg_err StatusNotFound ''MANIFEST_BLOB_UNKNOWN'' (''layers for '' @ go_quote repo @ '' not found''))
      | (st1, Done (Some ls)) \<Rightarrow>
          (case blobs_remove repo st1 of
             (st2, Done _) \<Rightarrow> add_image cfg repo target dig b ls st2 resp
           | (st2, Panicked) \<Rightarrow> (st2, resp, Panicked)
           | (st2, Blocked) \<Rightarrow> (st2\<lparr>manifests_locked := True\<rparr>, resp, Blocked))
      | (st1, Panicked) \<Rightarrow> (st1, resp, Panicked)
      | (st1, Blocked) \<Rightarrow> (st1\<lparr>manifests_locked := True\<rparr>, resp, Blocked))"

definition manifest_put :: "'w reg_config \<Rightarrow> string \<Rightarrow> string \<Rightarrow> request \<Rightarrow> 'w registry \<Rightarrow> response \<Rightarrow> 'w handled" where
  "manifest_put cfg repo target req st resp =
     (if manifests_locked st then (st, resp, Blocked)
      else (let st0 = make_repo repo st;
                b = req_body req;
                dig = compute_digest b;
                mf = \<lparr>contentType = header_get req ''Content-Type'', blob = b, digest = []\<rparr>
            in case check_index (repo_manifests st0 repo) mf of
                 Some m \<Rightarrow> (st0, resp, manifest_unknown m)
               | None \<Rightarrow>
                   manifest_commit cfg repo target dig b
                     (put_manifest repo dig mf (put_manifest repo target mf st0)) resp))"

section \<open>The handler\<close>

definition manifests_handle :: "'w reg_config \<Rightarrow> request \<Rightarrow> 'w registry \<Rightarrow> response \<Rightarrow> 'w handled" where
  "manifests_handle cfg req st resp =
     (let elem = manifest_elems (url_path req);
          target = from_end elem 1;
          repo = join ''/'' (slice 1 (length elem - 2) elem)
      in if req_method req = ''GET'' then manifest_get cfg repo target st resp
         else if req_method req = ''HEAD'' then manifest_head cfg repo target st resp
         else if req_method req = ''PUT'' then manifest_put cfg repo target req st resp
         else (st, resp, method_unknown StatusBadRequest))"

section \<open>Requests\<close>

definition manifest_req :: "string \<Rightarrow> string \<Rightarrow> string \<Rightarrow> string \<Rightarrow> bytes \<Rightarrow> request" where
  "manifest_req m repo t ct body =
     \<lparr>req_method = m, url_path = ''/v2/'' @ repo @ ''/manifests/'' @ t, url_query = [],
      req_header = [(''Content-Type'', ct)], req_body = body\<rparr>"

lemma manifest_elems_path:
  assumes "CHR ''/'' \<notin> set t"
  shows "manifest_elems (''/v2/'' @ repo @ ''/manifests/'' @ t) = ''v2'' # split_on (CHR ''/'') repo @ [''manifests'', t]"
proof -
  have "split_on (CHR ''/'') (''/v2/'' @ repo @ ''/manifests/'' @ t) =
    split_on (CHR ''/'') ([] @ CHR ''/'' # ''v2'' @ CHR ''/'' # repo @ CHR ''/'' # ''manifests'' @ CHR ''/'' # t)"
    by simp
  then show ?thesis
    using assms by (simp only: manifest_elems_def split_on_append_sep) (simp add: split_on_id)
qed

lemma from_end_manifest:
  "from_end (''v2'' # xs @ [u, t]) (Suc 0) = t" "from_end (''v2'' # xs @ [u, t]) 2 = u"
  using from_end_append(1) [of "''v2'' # xs @ [u]" t] from_end_append(2) [of "''v2'' # xs" u t] by simp_all

lemma handle_manifest:
  assumes "CHR ''/'' \<notin> set t"
  shows "manifests_handle cfg (manifest_req ''GET'' repo t ct body) st resp = manifest_get cfg repo t st resp"
    and "manifests_handle cfg (manifest_req ''HEAD'' repo t ct body) st resp = manifest_head cfg repo t st resp"
    and "manifests_handle cfg (manifest_req ''PUT'' repo t ct body) st resp =
         manifest_put cfg repo t (manifest_req ''PUT'' repo t ct body) st resp"
  using join_split_on [of "CHR ''/''" repo]
  by (simp_all only: manifests_handle_def manifest_req_def request.simps manifest_elems_path [OF assms])
    (simp_all add: from_end_manifest slice_def Let_def)

lemma put_header [simp]: "header_get (manifest_req m repo t ct body) ''Content-Type'' = ct"
  "req_body (manifest_req m repo t ct body) = body"
  by (simp_all add: header_get_def first_value_def manifest_req_def)

section \<open>Tables\<close>

lemma put_manifest_frame [frame_simps]:
  "reg_blobs (put_manifest r t mf st) = reg_blobs st" "blobs_locked (put_manifest r t mf st) = blobs_locked st"
  "manifests_locked (put_manifest r t mf st) = manifests_locked st" "reg_cids (put_manifest r t mf st) = reg_cids st"
  "disk (put_manifest r t mf st) = disk st" "world (put_manifest r t mf st) = world st"
  by (simp_all add: put_manifest_def)

lemma make_repo_frame [frame_simps]:
  "reg_blobs (make_repo r st) = reg_blobs st" "blobs_locked (make_repo r st) = blobs_locked st"
  "manifests_locked (make_repo r st) = manifests_locked st" "reg_cids (make_repo r st) = reg_cids st"
  "disk (make_repo r st) = disk st" "world (make_repo r st) = world st"
  by (simp_all add: make_repo_def)

lemma repo_manifests_put [frame_simps]:
  "repo_manifests (put_manifest r t mf st) r' = (if r' = r then (repo_manifests st r)(t \<mapsto> mf) else repo_manifests st r')"
  "repo_manifests (make_repo r st) r' = repo_manifests st r'"
  "repo_manifests (cids_add st r t c) r' = repo_manifests st r'"
  "repo_manifests (st\<lparr>world := w\<rparr>) r' = repo_manifests st r'"
  by (simp_all add: repo_manifests_def put_manifest_def make_repo_def frame_simps)

lemma fetch_hit:
  "repo_manifests st repo t = Some mf \<Longrightarrow> fetch cfg repo t st = (make_repo repo st, Inr mf)"
  by (simp add: fetch_def frame_simps)

lemma make_repo_idem: "make_repo repo st = st \<longleftrightarrow> reg_manifests st repo \<noteq> None"
proof -
  have "make_repo repo st = st \<longleftrightarrow> (reg_manifests st)(repo \<mapsto> repo_manifests st repo) = reg_manifests st"
    by (cases st) (simp add: make_repo_def)
  also have "\<dots> \<longleftrightarrow> reg_manifests st repo \<noteq> None"
    by (cases "reg_manifests st repo") (auto simp: repo_manifests_def fun_eq_iff)
  finally show ?thesis .
qed

section \<open>Caching\<close>

lemma fetch_known:
  assumes "fetch cfg repo t st = (st1, Inr mf)"
  shows "reg_manifests st1 repo \<noteq> None" and "repo_manifests st1 repo t = Some mf"
    and "repo_manifests st repo t = None \<Longrightarrow>
           digest mf = compute_digest (blob mf) \<and> repo_manifests st1 repo (digest mf) = Some mf"
proof -
  have "reg_manifests st1 repo \<noteq> None \<and> repo_manifests st1 repo t = Some mf \<and>
    (repo_manifests st repo t = None \<longrightarrow>
       digest mf = compute_digest (blob mf) \<and> repo_manifests st1 repo (digest mf) = Some mf)"
  proof (cases "repo_manifests st repo t")
    case (Some mf')
    with assms show ?thesis by (auto simp: fetch_hit frame_simps) (simp add: make_repo_def)
  next
    case None
    with assms obtain st2 cid w' where
      "resolveCID cfg (make_repo repo st) repo t = (st2, Inr cid)"
      and g: "getManifest cfg (world st2) cid t = (w', Inr mf)"
      and st1: "st1 = cids_add (put_manifest repo (digest mf) mf (put_manifest repo t mf (st2\<lparr>world := w'\<rparr>))) repo (digest mf) cid"
      by (auto simp: fetch_def frame_simps Let_def split: prod.splits sum.splits)
    moreover have "digest mf = compute_digest (blob mf)"
      using g by (auto simp: getManifest_def split: prod.splits sum.splits)
    ultimately show ?thesis by (simp add: frame_simps) (simp add: put_manifest_def)
  qed
  then show "reg_manifests st1 repo \<noteq> None" and "repo_manifests st1 repo t = Some mf"
    and "repo_manifests st repo t = None \<Longrightarrow>
           digest mf = compute_digest (blob mf) \<and> repo_manifests st1 repo (digest mf) = Some mf"
    by blast+
qed

text \<open>
  A manifest is fetched once. After a successful fetch the same request is answered from
  memory, without resolving or contacting anything, and a manifest that came from IPFS is
  also answered under its digest, which is the digest of its bytes.
\<close>
theorem fetch_once:
  assumes "fetch cfg repo t st = (st1, Inr mf)"
  shows "fetch cfg repo t st1 = (st1, Inr mf) \<and>
    (repo_manifests st repo t = None \<longrightarrow>
       digest mf = compute_digest (blob mf) \<and> fetch cfg repo (compute_digest (blob mf)) st1 = (st1, Inr mf))"
proof -
  note k = fetch_known [OF assms]
  have "make_repo repo st1 = st1" using k(1) by (simp add: make_repo_idem)
  then show ?thesis using k(2,3) fetch_hit [of st1 repo _ mf cfg] by auto
qed

section \<open>Pulling a manifest\<close>

lemma manifest_get_ok:
  assumes "\<not> manifests_locked st"
  shows "manifest_get cfg repo t st resp = (st', resp', Done None) \<longleftrightarrow>
    (\<exists>st1 st2 mf cid ds. fetch cfg repo t st = (st1, Inr mf) \<and> resolveCID cfg st1 repo t = (st2, Inr cid) \<and>
       blob_digests (blob mf) = Done ds \<and> st' = foldl (\<lambda>s d. cids_add s repo d cid) st2 ds \<and>
       resp' = write_body (blob mf) (write_header StatusOK
         (set_header ''Content-Length'' (nat_str (length (blob mf)))
           (set_header ''Content-Type'' (contentType mf) (set_header ''X-Docker-Content-ID'' cid
             (set_header ''Docker-Content-Digest'' (digest mf) resp))))))"
  using assms
  by (auto simp: manifest_get_def manifest_unknown_def reg_err_def split: prod.splits sum.splits outcome.splits)

lemma cids_add_all_frame [frame_simps]:
  "repo_manifests (foldl (\<lambda>s d. cids_add s r d c) st ds) r' = repo_manifests st r'"
  "reg_blobs (foldl (\<lambda>s d. cids_add s r d c) st ds) = reg_blobs st"
  "blobs_locked (foldl (\<lambda>s d. cids_add s r d c) st ds) = blobs_locked st"
  "reg_manifests (foldl (\<lambda>s d. cids_add s r d c) st ds) = reg_manifests st"
  "manifests_locked (foldl (\<lambda>s d. cids_add s r d c) st ds) = manifests_locked st"
  by (induction ds arbitrary: st) (simp_all add: frame_simps)

lemma repo_manifests_resolve [frame_simps]:
  "repo_manifests (fst (resolveCID cfg st r t)) r' = repo_manifests st r'"
  by (simp add: repo_manifests_def frame_simps)

text \<open>
  C29: Pulling a manifest prepares the pull of its blobs. A \<open>GET\<close> that is answered returns the
  bytes of the manifest with status 200 and its CID; from then on the repository together
  with the digest of the configuration or of a layer of this manifest resolves to the same
  CID, in memory and without any request to the outside.
\<close>
theorem pull_indexes_blobs:
  assumes "CHR ''/'' \<notin> set t" and "\<not> manifests_locked st"
    and "manifests_handle cfg (manifest_req ''GET'' repo t ct b) st new_response = (st', resp, Done None)"
  shows "\<exists>mf cid ds. repo_manifests st' repo t = Some mf \<and> blob_digests (blob mf) = Done ds \<and>
    reply_status resp = StatusOK \<and> out resp = blob mf \<and> reply_header resp ''X-Docker-Content-ID'' = Some cid \<and>
    (\<forall>d \<in> set ds. cids_get st' repo d = Some cid \<and> (d \<noteq> [] \<longrightarrow> resolveCID cfg st' repo d = (st', Inr cid)))"
proof -
  from assms obtain st1 st2 mf cid ds where
    f: "fetch cfg repo t st = (st1, Inr mf)" and r: "resolveCID cfg st1 repo t = (st2, Inr cid)" and
    d: "blob_digests (blob mf) = Done ds" and st': "st' = foldl (\<lambda>s d. cids_add s repo d cid) st2 ds" and
    resp: "resp = write_body (blob mf) (write_header StatusOK
         (set_header ''Content-Length'' (nat_str (length (blob mf)))
           (set_header ''Content-Type'' (contentType mf) (set_header ''X-Docker-Content-ID'' cid
             (set_header ''Docker-Content-Digest'' (digest mf) new_response)))))"
    by (auto simp: handle_manifest manifest_get_ok)
  have "repo_manifests st2 repo t = Some mf"
    using fetch_known(2) [OF f] repo_manifests_resolve [of cfg st1 repo t] r by simp
  then have mf: "repo_manifests st' repo t = Some mf" by (simp add: st' frame_simps)
  have held: "cids_get st' repo x = Some cid" if "x \<in> set ds" for x
    unfolding st' using that by (rule rci.get_add_all)
  then have known: "\<forall>d \<in> set ds. cids_get st' repo d = Some cid \<and> (d \<noteq> [] \<longrightarrow> resolveCID cfg st' repo d = (st', Inr cid))"
    by (simp add: resolveCID_held)
  have "reply_status resp = StatusOK" "out resp = blob mf" "reply_header resp ''X-Docker-Content-ID'' = Some cid"
    by (simp_all add: resp resp_simps reply_status_def reply_header_def)
  with mf d known show ?thesis by blast
qed

text \<open>A server that knows one manifest and its CID.\<close>

definition known_registry :: "bytes \<Rightarrow> unit registry" where
  "known_registry b = cids_add (put_manifest ''a'' ''v1'' \<lparr>contentType = ''m'', blob = b, digest = []\<rparr> local_registry) ''a'' ''v1'' ''bafy''"

lemma known_registry_simps [simp]:
  "\<not> manifests_locked (known_registry b)"
  "repo_manifests (known_registry b) ''a'' ''v1'' = Some \<lparr>contentType = ''m'', blob = b, digest = []\<rparr>"
  "cids_get (known_registry b) ''a'' ''v1'' = Some ''bafy''"
  by (simp_all add: known_registry_def frame_simps rci.get_add_same)

lemma known_registry_fetch:
  "fetch cfg ''a'' ''v1'' (known_registry b) = (known_registry b, Inr \<lparr>contentType = ''m'', blob = b, digest = []\<rparr>)"
proof -
  have "reg_manifests (known_registry b) ''a'' \<noteq> None"
    by (simp add: known_registry_def frame_simps) (simp add: put_manifest_def)
  then show ?thesis using make_repo_idem [of "''a''" "known_registry b"] by (simp add: fetch_hit)
qed

lemma known_registry_resolve: "resolveCID cfg (known_registry b) ''a'' ''v1'' = (known_registry b, Inr ''bafy'')"
  by (simp add: resolveCID_held)

theorem fetch_once_witness:
  "fetch (local_config offline) ''a'' ''v1'' (known_registry ''{}'') =
     (known_registry ''{}'', Inr \<lparr>contentType = ''m'', blob = ''{}'', digest = []\<rparr>)"
  using fetch_once [OF known_registry_fetch] by blast

theorem pull_indexes_blobs_witness:
  "\<exists>st resp. manifests_handle (local_config offline) (manifest_req ''GET'' ''a'' ''v1'' [] []) (known_registry small_manifest)
     new_response = (st, resp, Done None) \<and> out resp = small_manifest"
proof -
  let ?cfg = "local_config (offline :: unit services)"
  have "\<exists>st resp. manifest_get ?cfg ''a'' ''v1'' (known_registry small_manifest) new_response = (st, resp, Done None)"
    using known_registry_fetch [of ?cfg small_manifest] known_registry_resolve [of ?cfg small_manifest] small_manifest_digests
    by (simp add: manifest_get_ok)
  then obtain st resp where
    h: "manifests_handle ?cfg (manifest_req ''GET'' ''a'' ''v1'' [] []) (known_registry small_manifest) new_response = (st, resp, Done None)"
    by (auto simp: handle_manifest)
  then have "fetch ?cfg ''a'' ''v1'' (known_registry small_manifest) =
      (known_registry small_manifest, Inr \<lparr>contentType = ''m'', blob = small_manifest, digest = []\<rparr>)"
    by (intro known_registry_fetch)
  with h have "repo_manifests st ''a'' ''v1'' = Some \<lparr>contentType = ''m'', blob = small_manifest, digest = []\<rparr>"
    using known_registry_resolve [of ?cfg small_manifest]
    by (auto simp: handle_manifest manifest_get_ok frame_simps)
  with pull_indexes_blobs [OF _ _ h] h show ?thesis by auto
qed

section \<open>Pushing a manifest\<close>

lemma collect_layers_spec:
  "collect_layers c ds m = (if \<forall>d \<in> set ds. c d \<noteq> None then Some (m ++ (c |` set ds)) else None)"
proof (induction ds arbitrary: m)
  case (Cons d ds)
  show ?case
  proof (cases "c d")
    case (Some b)
    then have "m(d \<mapsto> b) ++ (c |` set ds) = m ++ (c |` insert d (set ds))"
      by (auto simp: fun_eq_iff map_add_def restrict_map_def split: option.splits)
    with Some Cons.IH show ?thesis by simp
  qed simp
qed simp

text \<open>The layers recorded for a repository, when all their contents are there.\<close>

definition ready_layers :: "blobs \<Rightarrow> string \<Rightarrow> string list \<Rightarrow> bool" where
  "ready_layers b repo ds = (layers b repo = Some ds \<and> (\<forall>d \<in> set ds. contents b d \<noteq> None))"

lemma blobs_get_ready:
  "\<not> blobs_locked st \<Longrightarrow> ready_layers (reg_blobs st) repo ds \<Longrightarrow>
     blobs_get repo st = (st, Done (Some (contents (reg_blobs st) |` set ds)))"
  by (auto simp: blobs_get_def ready_layers_def collect_layers_spec)

lemma blobs_get_unready:
  "\<not> blobs_locked st \<Longrightarrow> \<nexists>ds. ready_layers (reg_blobs st) repo ds \<Longrightarrow>
     blobs_get repo st = (st\<lparr>blobs_locked := True\<rparr>, Done None)"
  by (cases "layers (reg_blobs st) repo") (fastforce simp: blobs_get_def ready_layers_def collect_layers_spec)+

text \<open>The state once the layers of a repository have been taken out.\<close>

definition drop_layers :: "string \<Rightarrow> string list \<Rightarrow> blobs \<Rightarrow> blobs" where
  "drop_layers repo ds b = b\<lparr>layers := (layers b)(repo := None), contents := contents b |` (- set ds)\<rparr>"

lemma blobs_remove_ready:
  "\<not> blobs_locked st \<Longrightarrow> ready_layers (reg_blobs st) repo ds \<Longrightarrow>
     blobs_remove repo st = (st\<lparr>reg_blobs := drop_layers repo ds (reg_blobs st)\<rparr>, Done ())"
  by (simp add: blobs_remove_def ready_layers_def drop_layers_def foldl_del)

lemma manifest_commit_ready:
  assumes "\<not> blobs_locked st" and "ready_layers (reg_blobs st) repo ds"
  shows "manifest_commit cfg repo t dig b st resp =
    add_image cfg repo t dig b (contents (reg_blobs st) |` set ds) (st\<lparr>reg_blobs := drop_layers repo ds (reg_blobs st)\<rparr>) resp"
  by (simp add: manifest_commit_def blobs_get_ready [OF assms] blobs_remove_ready [OF assms])

lemma manifest_put_checked:
  assumes "\<not> manifests_locked st" and "check_index (repo_manifests st repo) \<lparr>contentType = ct, blob = b, digest = []\<rparr> = None"
  shows "manifest_put cfg repo t (manifest_req ''PUT'' repo t ct b) st resp =
    manifest_commit cfg repo t (compute_digest b) b
      (put_manifest repo (compute_digest b) \<lparr>contentType = ct, blob = b, digest = []\<rparr>
        (put_manifest repo t \<lparr>contentType = ct, blob = b, digest = []\<rparr> (make_repo repo st))) resp"
  using assms by (simp add: manifest_put_def frame_simps Let_def)

lemma check_no_index: "\<not> is_index_type ct \<Longrightarrow> check_index known \<lparr>contentType = ct, blob = b, digest = []\<rparr> = None"
  by (simp add: check_index_def)

lemmas manifest_put_commit = manifest_put_checked [OF _ check_no_index]

lemma world_frame [frame_simps]:
  "cids_get (st\<lparr>world := w\<rparr>) r t = cids_get st r t" "cids_get (st\<lparr>reg_blobs := b\<rparr>) r t = cids_get st r t"
  "repo_manifests (st\<lparr>reg_blobs := b\<rparr>) r = repo_manifests st r"
  by (simp_all add: cids_get_def repo_manifests_def)

text \<open>The state and the reply of a successful push.\<close>

definition pushed_state :: "string \<Rightarrow> string \<Rightarrow> string \<Rightarrow> bytes \<Rightarrow> string list \<Rightarrow> 'w \<Rightarrow> string \<Rightarrow> 'w registry \<Rightarrow> 'w registry" where
  "pushed_state repo t ct b ds w' cid st =
     (let mf = \<lparr>contentType = ct, blob = b, digest = []\<rparr>;
          s0 = put_manifest repo (compute_digest b) mf (put_manifest repo t mf (make_repo repo st));
          s1 = s0\<lparr>reg_blobs := drop_layers repo ds (reg_blobs st), world := w'\<rparr>
      in cids_add (cids_add (cids_add s1 repo t cid) repo (compute_digest b) cid) cid ''latest'' cid)"

definition pushed_reply :: "string \<Rightarrow> string \<Rightarrow> response" where
  "pushed_reply dig cid = write_header StatusCreated
     (set_header ''X-Docker-Content-ID'' cid (set_header ''Docker-Content-Digest'' dig new_response))"

lemma push_done:
  assumes "CHR ''/'' \<notin> set t" and "\<not> manifests_locked st" and "\<not> blobs_locked st" and "\<not> is_index_type ct"
    and "ready_layers (reg_blobs st) repo ds"
    and "AddImage (sv cfg) (world st) (ipfsClient cfg) (manifest_refs t (compute_digest b) b)
           (contents (reg_blobs st) |` set ds) = (w', Inr cid)"
  shows "manifests_handle cfg (manifest_req ''PUT'' repo t ct b) st new_response =
    (pushed_state repo t ct b ds w' cid st, pushed_reply (compute_digest b) cid, Done None)"
proof -
  let ?s0 = "put_manifest repo (compute_digest b) \<lparr>contentType = ct, blob = b, digest = []\<rparr>
    (put_manifest repo t \<lparr>contentType = ct, blob = b, digest = []\<rparr> (make_repo repo st))"
  have "manifest_commit cfg repo t (compute_digest b) b ?s0 new_response =
    add_image cfg repo t (compute_digest b) b (contents (reg_blobs st) |` set ds)
      (?s0\<lparr>reg_blobs := drop_layers repo ds (reg_blobs st)\<rparr>) new_response"
    using manifest_commit_ready [of ?s0 repo ds cfg t "compute_digest b" b new_response] assms(3,5) by (simp add: frame_simps)
  also have "\<dots> = (pushed_state repo t ct b ds w' cid st, pushed_reply (compute_digest b) cid, Done None)"
    using assms(6) by (simp add: add_image_def frame_simps pushed_state_def pushed_reply_def Let_def)
  finally show ?thesis
    using manifest_put_commit [OF assms(2,4)] assms(1) by (simp add: handle_manifest)
qed

lemma pushed_state_frame [frame_simps]:
  "reg_blobs (pushed_state repo t ct b ds w' cid st) = drop_layers repo ds (reg_blobs st)"
  "blobs_locked (pushed_state repo t ct b ds w' cid st) = blobs_locked st"
  "manifests_locked (pushed_state repo t ct b ds w' cid st) = manifests_locked st"
  "world (pushed_state repo t ct b ds w' cid st) = w'"
  "repo_manifests (pushed_state repo t ct b ds w' cid st) repo t = Some \<lparr>contentType = ct, blob = b, digest = []\<rparr>"
  "repo_manifests (pushed_state repo t ct b ds w' cid st) repo (compute_digest b) = Some \<lparr>contentType = ct, blob = b, digest = []\<rparr>"
  by (simp_all add: pushed_state_def Let_def frame_simps)

lemma pushed_state_held:
  "cids_held (pushed_state repo t ct b ds w' cid st) repo t = Some cid"
  "cids_held (pushed_state repo t ct b ds w' cid st) repo (compute_digest b) = Some cid"
  "cids_held (pushed_state repo t ct b ds w' cid st) cid ''latest'' = Some cid"
  by (simp_all add: pushed_state_def Let_def rci.held_add)

lemma pushed_reply_simps [resp_simps]:
  "reply_status (pushed_reply dig cid) = StatusCreated"
  "reply_header (pushed_reply dig cid) ''X-Docker-Content-ID'' = Some cid"
  "reply_header (pushed_reply dig cid) ''Docker-Content-Digest'' = Some dig"
  by (simp_all add: pushed_reply_def resp_simps reply_status_def reply_header_def)

text \<open>
  C27: What a push commits. A \<open>PUT\<close> of a manifest whose repository has uploaded layers, all
  with their contents, sends IPFS one image: the manifest under its tag, its digest and
  \<open>latest\<close>, and exactly the layers. If IPFS answers with a CID, the reply is 201 with the
  digest and the CID, the tag, the digest and \<open><cid>:latest\<close> resolve to the CID, the manifest
  can be fetched from memory under both names, and the local copies of the layers are gone.
\<close>
theorem push_commits:
  assumes "CHR ''/'' \<notin> set t" and "\<not> manifests_locked st" and "\<not> blobs_locked st" and "\<not> is_index_type ct"
    and "ready_layers (reg_blobs st) repo ds"
    and "AddImage (sv cfg) (world st) (ipfsClient cfg) (manifest_refs t (compute_digest b) b)
           (contents (reg_blobs st) |` set ds) = (w', Inr cid)"
  shows "\<exists>st' resp. manifests_handle cfg (manifest_req ''PUT'' repo t ct b) st new_response = (st', resp, Done None) \<and>
    reply_status resp = StatusCreated \<and> reply_header resp ''X-Docker-Content-ID'' = Some cid \<and>
    reply_header resp ''Docker-Content-Digest'' = Some (compute_digest b) \<and>
    cids_get st' repo t = Some cid \<and> cids_get st' repo (compute_digest b) = Some cid \<and> cids_get st' cid ''latest'' = Some cid \<and>
    repo_manifests st' repo t = Some \<lparr>contentType = ct, blob = b, digest = []\<rparr> \<and>
    repo_manifests st' repo (compute_digest b) = Some \<lparr>contentType = ct, blob = b, digest = []\<rparr> \<and>
    reg_blobs st' = drop_layers repo ds (reg_blobs st) \<and> \<not> blobs_locked st' \<and> \<not> manifests_locked st' \<and> world st' = w'"
proof (intro exI conjI)
  show "manifests_handle cfg (manifest_req ''PUT'' repo t ct b) st new_response =
      (pushed_state repo t ct b ds w' cid st, pushed_reply (compute_digest b) cid, Done None)"
    by (rule push_done [OF assms])
qed (use assms(2,3) in \<open>simp_all add: frame_simps resp_simps pushed_state_held [THEN rci.get_held]\<close>)

text \<open>A repository with one uploaded layer, and a daemon that adds everything under one CID.\<close>

definition layer_registry :: "unit registry" where
  "layer_registry = local_registry\<lparr>reg_blobs := store_blob ''a'' ''d'' ''bytes'' (reg_blobs local_registry)\<rparr>"

definition adding_services :: "unit services" where
  "adding_services = offline\<lparr>api_add := (\<lambda>w u t. (w, ReplyOutput [JObj [(''Hash'', JStr ''bafy'')]] None))\<rparr>"

lemma layer_registry_ready: "ready_layers (reg_blobs layer_registry) ''a'' [''d'']"
  by (simp add: layer_registry_def ready_layers_def store_blob_def)

lemma layer_registry_simps [simp]: "\<not> manifests_locked layer_registry" "\<not> blobs_locked layer_registry"
  "world layer_registry = ()"
  by (simp_all add: layer_registry_def)

lemma AddImage_adding: "AddImage (sv (local_config adding_services)) w cl mfs ls = (w, Inr ''bafy'')"
  by (simp add: AddImage_def local_config_def adding_services_def field_is_def to_lower_def to_lower_char_def)

theorem push_commits_witness:
  "\<exists>st resp. manifests_handle (local_config adding_services) (manifest_req ''PUT'' ''a'' ''v1'' ''m'' ''{}'') layer_registry
     new_response = (st, resp, Done None) \<and> cids_get st ''a'' ''v1'' = Some ''bafy''"
proof -
  have "\<not> is_index_type ''m''" by (simp add: is_index_type_def)
  from push_commits [OF _ _ _ this layer_registry_ready AddImage_adding, of "''v1''" "''{}''"]
  show ?thesis by auto
qed

section \<open>Failures of a push\<close>

lemma AddImage_failed:
  "api_add s w (shell_url cl) (image_tree mfs ls) = (w', SendFailed e) \<Longrightarrow> AddImage s w cl mfs ls = (w', Inr [])"
  by (simp add: AddImage_def)

text \<open>
  C34: If the request to the IPFS daemon fails, a push is nevertheless answered 201, with an
  empty CID, and the tag is mapped to the empty CID; the uploaded layers, which are nowhere
  else, are gone from the server.
\<close>
theorem push_lost_when_daemon_down:
  assumes "CHR ''/'' \<notin> set t" and "\<not> manifests_locked st" and "\<not> blobs_locked st" and "\<not> is_index_type ct"
    and "ready_layers (reg_blobs st) repo ds"
    and "api_add (sv cfg) (world st) (shell_url (ipfsClient cfg))
           (image_tree (manifest_refs t (compute_digest b) b) (contents (reg_blobs st) |` set ds)) = (w', SendFailed e)"
  shows "\<exists>st' resp. manifests_handle cfg (manifest_req ''PUT'' repo t ct b) st new_response = (st', resp, Done None) \<and>
    reply_status resp = StatusCreated \<and> reply_header resp ''X-Docker-Content-ID'' = Some [] \<and>
    cids_held st' repo t = Some [] \<and> layers (reg_blobs st') repo = None \<and>
    (\<forall>d \<in> set ds. contents (reg_blobs st') d = None)"
  using push_done [OF assms(1-5) AddImage_failed [OF assms(6)]] pushed_state_held(1)
  by (simp add: frame_simps resp_simps drop_layers_def)

theorem push_lost_when_daemon_down_witness:
  "\<exists>st resp. manifests_handle (local_config offline) (manifest_req ''PUT'' ''a'' ''v1'' ''m'' ''{}'') layer_registry
     new_response = (st, resp, Done None) \<and> reply_status resp = StatusCreated \<and> contents (reg_blobs st) ''d'' = None"
proof -
  have "\<not> is_index_type ''m''" by (simp add: is_index_type_def)
  moreover have "api_add (sv (local_config offline)) () u t = ((), SendFailed (GoError ''no route''))" for u t
    by (simp add: local_config_def offline_def)
  ultimately show ?thesis
    using push_lost_when_daemon_down [of "''v1''" layer_registry "''m''" "''a''" "[''d'']" "local_config offline" "''{}''" "()"]
      layer_registry_ready by auto
qed

lemma manifest_put_unready_checked:
  assumes "CHR ''/'' \<notin> set t" and "\<not> manifests_locked st" and "\<not> blobs_locked st"
    and "check_index (repo_manifests st repo) \<lparr>contentType = ct, blob = b, digest = []\<rparr> = None" and "\<nexists>ds. ready_layers (reg_blobs st) repo ds"
  shows "manifests_handle cfg (manifest_req ''PUT'' repo t ct b) st resp =
    ((put_manifest repo (compute_digest b) \<lparr>contentType = ct, blob = b, digest = []\<rparr>
       (put_manifest repo t \<lparr>contentType = ct, blob = b, digest = []\<rparr> (make_repo repo st)))\<lparr>blobs_locked := True\<rparr>,
     resp, reg_err StatusNotFound ''MANIFEST_BLOB_UNKNOWN'' (''layers for '' @ go_quote repo @ '' not found''))"
proof -
  let ?s = "put_manifest repo (compute_digest b) \<lparr>contentType = ct, blob = b, digest = []\<rparr>
       (put_manifest repo t \<lparr>contentType = ct, blob = b, digest = []\<rparr> (make_repo repo st))"
  have "blobs_get repo ?s = (?s\<lparr>blobs_locked := True\<rparr>, Done None)"
    by (rule blobs_get_unready) (use assms in \<open>simp_all add: frame_simps\<close>)
  then show ?thesis
    using manifest_put_checked [OF assms(2,4)] assms(1) by (simp add: handle_manifest manifest_commit_def)
qed

lemmas manifest_put_unready = manifest_put_unready_checked [OF _ _ _ check_no_index]

text \<open>What waits for ever once a mutex is never released.\<close>

lemma blobs_locked_blocks:
  assumes "blobs_locked st" and "CHR ''/'' \<notin> set u" and "u \<noteq> []"
  shows "blobs_handle cfg (blob_req ''HEAD'' repo u) st r = (st, r, Blocked)"
    and "blobs_handle cfg (upload_req ''PATCH'' repo u [] [] c) st r = (st, r, Blocked)"
    and "dig \<noteq> [] \<Longrightarrow> blobs_handle cfg (put_req repo u dig c) st r = (st, r, Blocked)"
proof -
  show "blobs_handle cfg (blob_req ''HEAD'' repo u) st r = (st, r, Blocked)"
    using assms by (simp add: handle_blob_read blob_head_def)
  have "blobs_handle cfg (upload_req ''PATCH'' repo u [] [] c) st r = blob_patch_stream (upload_elems repo u) u c st r"
    unfolding handle_upload [OF assms(3,2)]
    by (simp add: blobs_dispatch_def upload_req_def from_end_upload header_get_def first_value_def Let_def)
  then show "blobs_handle cfg (upload_req ''PATCH'' repo u [] [] c) st r = (st, r, Blocked)"
    using assms(1) by (simp add: blob_patch_stream_def)
  show "dig \<noteq> [] \<Longrightarrow> blobs_handle cfg (put_req repo u dig c) st r = (st, r, Blocked)"
    using assms by (simp add: handle_put blob_put_def)
qed

lemma blobs_locked_blocks_push:
  assumes "blobs_locked st" and "\<not> manifests_locked st" and "CHR ''/'' \<notin> set t" and "\<not> is_index_type ct"
  shows "\<exists>st'. manifests_handle cfg (manifest_req ''PUT'' repo t ct b) st r = (st', r, Blocked) \<and> manifests_locked st'"
  using assms manifest_put_commit [OF assms(2,4), of cfg repo t b r]
  by (simp add: handle_manifest manifest_commit_def blobs_get_def frame_simps)

lemma manifests_locked_blocks:
  assumes "manifests_locked st" and "CHR ''/'' \<notin> set t" and "m \<in> {''GET'', ''HEAD'', ''PUT''}"
  shows "manifests_handle cfg (manifest_req m repo t ct b) st r = (st, r, Blocked)"
  using assms by (auto simp: handle_manifest manifest_get_def manifest_head_def manifest_put_def)

text \<open>
  C35: Two repositories cannot have a layer in common. If both have uploaded the same layer,
  the push of the first takes the layer out of the store for both, and the push of the
  second, although the client uploaded everything, is refused with 404 and leaves the blob
  mutex locked.
\<close>
theorem shared_layer_push_fails:
  assumes "CHR ''/'' \<notin> set t" and "\<not> manifests_locked st" and "\<not> blobs_locked st" and "\<not> is_index_type ct"
    and "ready_layers (reg_blobs st) repo ds" and "ready_layers (reg_blobs st) repo' ds'" and "repo \<noteq> repo'"
    and "d \<in> set ds" and "d \<in> set ds'"
    and "manifests_handle cfg (manifest_req ''PUT'' repo t ct b) st new_response = (st1, resp, Done None)"
  shows "\<exists>st2 m. manifests_handle cfg (manifest_req ''PUT'' repo' t ct b') st1 new_response =
      (st2, new_response, Done (Some \<lparr>Status = StatusNotFound, Code = ''MANIFEST_BLOB_UNKNOWN'', Message = m\<rparr>)) \<and>
    blobs_locked st2"
proof -
  let ?mf = "\<lparr>contentType = ct, blob = b, digest = []\<rparr>" and ?dig = "compute_digest b"
  let ?s0 = "put_manifest repo ?dig ?mf (put_manifest repo t ?mf (make_repo repo st))"
  have "manifests_handle cfg (manifest_req ''PUT'' repo t ct b) st new_response =
      add_image cfg repo t ?dig b (contents (reg_blobs st) |` set ds) (?s0\<lparr>reg_blobs := drop_layers repo ds (reg_blobs st)\<rparr>) new_response"
    using manifest_put_commit [OF assms(2,4)] manifest_commit_ready [of ?s0 repo ds cfg t ?dig b new_response] assms(1,3,5)
    by (simp add: handle_manifest frame_simps)
  with assms(10) have s1: "reg_blobs st1 = drop_layers repo ds (reg_blobs st)" "\<not> blobs_locked st1" "\<not> manifests_locked st1"
    using assms(2,3) by (auto simp: add_image_def frame_simps reg_err_def split: prod.splits sum.splits)
  have "\<nexists>es. ready_layers (reg_blobs st1) repo' es"
    using assms(6,7,8,9) by (auto simp: s1 drop_layers_def ready_layers_def intro!: bexI [of _ d])
  from manifest_put_unready [OF assms(1) s1(3,2) assms(4) this, of cfg b' new_response]
  show ?thesis by (simp add: reg_err_def)
qed

lemma add_image_frame [frame_simps]:
  "reg_blobs (fst (add_image cfg repo t dig b ls st resp)) = reg_blobs st"
  "blobs_locked (fst (add_image cfg repo t dig b ls st resp)) = blobs_locked st"
  "reg_manifests (fst (add_image cfg repo t dig b ls st resp)) = reg_manifests st"
  "manifests_locked (fst (add_image cfg repo t dig b ls st resp)) = manifests_locked st"
  by (auto simp: add_image_def frame_simps split: prod.splits sum.splits)

lemma manifest_commit_cases:
  obtains ds where "\<not> blobs_locked st" "ready_layers (reg_blobs st) repo ds"
    "manifest_commit cfg repo t dig b st resp = add_image cfg repo t dig b (contents (reg_blobs st) |` set ds)
       (st\<lparr>reg_blobs := drop_layers repo ds (reg_blobs st)\<rparr>) resp"
  | "\<not> blobs_locked st" "manifest_commit cfg repo t dig b st resp = (st\<lparr>blobs_locked := True\<rparr>, resp,
       reg_err StatusNotFound ''MANIFEST_BLOB_UNKNOWN'' (''layers for '' @ go_quote repo @ '' not found''))"
  | "blobs_locked st" "manifest_commit cfg repo t dig b st resp = (st\<lparr>manifests_locked := True\<rparr>, resp, Blocked)"
proof (cases "blobs_locked st")
  case True
  with that(3) show ?thesis by (simp add: manifest_commit_def blobs_get_def)
next
  case False
  show ?thesis
  proof (cases "\<exists>ds. ready_layers (reg_blobs st) repo ds")
    case True
    with False that(1) manifest_commit_ready [OF False] show ?thesis by blast
  next
    case nr: False
    show ?thesis
      by (rule that(2) [OF False]) (use blobs_get_unready [OF False] nr in \<open>simp add: manifest_commit_def\<close>)
  qed
qed

text \<open>The table of manifests is not touched by a commit.\<close>

lemma manifest_commit_manifests [frame_simps]:
  "reg_manifests (fst (manifest_commit cfg repo t dig b st resp)) = reg_manifests st"
  by (rule manifest_commit_cases [of st repo cfg t dig b resp]) (simp_all add: frame_simps)

lemma manifest_commit_done:
  assumes "manifest_commit cfg repo t dig b st resp = (st', resp', Done x)"
  shows "manifests_locked st' = manifests_locked st" and "reg_manifests st' = reg_manifests st"
proof -
  show "reg_manifests st' = reg_manifests st"
    using manifest_commit_manifests [of cfg repo t dig b st resp] assms by simp
  show "manifests_locked st' = manifests_locked st"
  proof (rule manifest_commit_cases [of st repo cfg t dig b resp])
    fix ds
    assume "manifest_commit cfg repo t dig b st resp = add_image cfg repo t dig b (contents (reg_blobs st) |` set ds)
       (st\<lparr>reg_blobs := drop_layers repo ds (reg_blobs st)\<rparr>) resp"
    with assms have "fst (add_image cfg repo t dig b (contents (reg_blobs st) |` set ds)
       (st\<lparr>reg_blobs := drop_layers repo ds (reg_blobs st)\<rparr>) resp) = st'" by simp
    then show ?thesis by (auto simp: frame_simps)
  qed (use assms in auto)
qed

text \<open>
  A manifest that was pushed is served without its digest: until the server forgets it,
  \<open>HEAD\<close> under the tag, and under the manifest's own digest, answers 200 with an empty
  \<open>Docker-Content-Digest\<close>, because \<open>PUT\<close> stores the manifest without one.
\<close>
theorem pushed_manifest_has_no_digest:
  assumes "CHR ''/'' \<notin> set t" and "\<not> manifests_locked st" and "\<not> is_index_type ct"
    and "manifests_handle cfg (manifest_req ''PUT'' repo t ct b) st new_response = (st1, resp, Done None)"
    and "t' \<in> {t, compute_digest b}"
  shows "\<exists>st2 resp2. manifests_handle cfg (manifest_req ''HEAD'' repo t' ct' b') st1 new_response = (st2, resp2, Done None) \<and>
    reply_status resp2 = StatusOK \<and> reply_header resp2 ''Docker-Content-Digest'' = Some []"
proof -
  let ?mf = "\<lparr>contentType = ct, blob = b, digest = []\<rparr>"
  let ?s0 = "put_manifest repo (compute_digest b) ?mf (put_manifest repo t ?mf (make_repo repo st))"
  have c: "manifest_commit cfg repo t (compute_digest b) b ?s0 new_response = (st1, resp, Done None)"
    using assms(1,4) manifest_put_commit [OF assms(2,3)] by (simp add: handle_manifest)
  have "repo_manifests st1 repo t' = Some ?mf"
    using manifest_commit_done(2) [OF c] assms(5) by (auto simp: repo_manifests_def put_manifest_def)
  moreover have "\<not> manifests_locked st1"
    using manifest_commit_done(1) [OF c] assms(2) by (simp add: frame_simps)
  moreover have "CHR ''/'' \<notin> set t'" using assms(1,5) compute_digest_no_slash by auto
  ultimately show ?thesis
    by (simp add: handle_manifest manifest_head_def fetch_hit resp_simps reply_status_def reply_header_def)
qed

text \<open>A push of the small layer under any name for which it is ready.\<close>

lemma adding_push:
  assumes "\<not> manifests_locked st" and "\<not> blobs_locked st" and "ready_layers (reg_blobs st) repo ds" and "CHR ''/'' \<notin> set t"
  shows "\<exists>st1 resp. manifests_handle (local_config adding_services) (manifest_req ''PUT'' repo t ''m'' b) st
    new_response = (st1, resp, Done None)"
proof -
  have n: "\<not> is_index_type ''m''" by (simp add: is_index_type_def)
  let ?s0 = "put_manifest repo (compute_digest b) \<lparr>contentType = ''m'', blob = b, digest = []\<rparr>
    (put_manifest repo t \<lparr>contentType = ''m'', blob = b, digest = []\<rparr> (make_repo repo st))"
  show ?thesis
    using assms(4) manifest_put_commit [OF assms(1) n, of "local_config adding_services" repo t b new_response]
      manifest_commit_ready [of ?s0 repo ds "local_config adding_services" t "compute_digest b" b new_response]
      assms(2,3) AddImage_adding
    by (simp add: handle_manifest frame_simps add_image_def)
qed

theorem pushed_manifest_has_no_digest_witness:
  "\<exists>st1 resp st2 resp2. manifests_handle (local_config adding_services) (manifest_req ''PUT'' ''a'' ''v1'' ''m'' ''{}'') layer_registry
     new_response = (st1, resp, Done None) \<and>
     manifests_handle (local_config adding_services) (manifest_req ''HEAD'' ''a'' ''v1'' ''m'' []) st1 new_response = (st2, resp2, Done None)
     \<and> reply_header resp2 ''Docker-Content-Digest'' = Some []"
proof -
  have n: "\<not> is_index_type ''m''" by (simp add: is_index_type_def)
  obtain st1 resp where p: "manifests_handle (local_config adding_services) (manifest_req ''PUT'' ''a'' ''v1'' ''m'' ''{}'')
      layer_registry new_response = (st1, resp, Done None)"
    using adding_push [OF layer_registry_simps(1,2) layer_registry_ready, of "''v1''" "''{}''"] by auto
  from pushed_manifest_has_no_digest [OF _ _ n p, of "''v1''" "''m''" "[]"] p show ?thesis by auto
qed

definition shared_registry :: "unit registry" where
  "shared_registry = layer_registry\<lparr>reg_blobs := store_blob ''b'' ''d'' ''bytes'' (reg_blobs layer_registry)\<rparr>"

lemma shared_registry_simps [simp]: "\<not> manifests_locked shared_registry" "\<not> blobs_locked shared_registry"
  by (simp_all add: shared_registry_def)

lemma shared_registry_ready: "ready_layers (reg_blobs shared_registry) ''a'' [''d'']"
  "ready_layers (reg_blobs shared_registry) ''b'' [''d'']"
  by (simp_all add: shared_registry_def layer_registry_def ready_layers_def store_blob_def)

theorem shared_layer_push_fails_witness:
  "\<exists>st1 resp st2 oc. manifests_handle (local_config adding_services) (manifest_req ''PUT'' ''a'' ''v1'' ''m'' ''{}'') shared_registry
     new_response = (st1, resp, Done None) \<and>
     manifests_handle (local_config adding_services) (manifest_req ''PUT'' ''b'' ''v1'' ''m'' ''{}'') st1 new_response = (st2, new_response, oc)
     \<and> blobs_locked st2"
proof -
  have n: "\<not> is_index_type ''m''" by (simp add: is_index_type_def)
  obtain st1 resp where p: "manifests_handle (local_config adding_services) (manifest_req ''PUT'' ''a'' ''v1'' ''m'' ''{}'')
      shared_registry new_response = (st1, resp, Done None)"
    using adding_push [OF shared_registry_simps shared_registry_ready(1), of "''v1''" "''{}''"] by auto
  from shared_layer_push_fails [OF _ _ _ n shared_registry_ready _ _ _ p, of "''d''" "''{}''"] p
  show ?thesis by auto
qed

section \<open>Manifests without a configuration\<close>

text \<open>
  C37: A manifest whose JSON has no \<open>config\<close>, such as a manifest list, cannot be pulled: once
  it is known to the server and its CID is found, every \<open>GET\<close> for it dereferences a nil
  pointer and the handler panics, so the client gets no reply.
\<close>
theorem manifest_without_config_panics:
  assumes "CHR ''/'' \<notin> set t" and "\<not> manifests_locked st" and "fetch cfg repo t st = (st1, Inr mf)"
    and "resolveCID cfg st1 repo t = (st2, Inr cid)"
    and "\<not> (\<exists>m c. DecodeManifest (blob mf) = Inr m \<and> mf_config m = Some c)"
  shows "manifests_handle cfg (manifest_req ''GET'' repo t ct b) st resp = (st2, resp, Panicked)"
proof -
  have "blob_digests (blob mf) = Panicked"
    using assms(5) by (auto simp: blob_digests_def Digests_def split: sum.splits option.splits)
  with assms show ?thesis by (simp add: handle_manifest manifest_get_def)
qed

theorem manifest_without_config_panics_witness:
  "manifests_handle (local_config offline) (manifest_req ''GET'' ''a'' ''v1'' [] []) (known_registry small_index) new_response =
     (known_registry small_index, new_response, Panicked)"
proof -
  have "\<not> (\<exists>m c. DecodeManifest small_index = Inr m \<and> mf_config m = Some c)"
    using small_index_no_config by auto
  then show ?thesis
    using manifest_without_config_panics [OF _ _ known_registry_fetch [of _ small_index] known_registry_resolve [of _ small_index]]
    by simp
qed

section \<open>Invariants\<close>

text \<open>
  Every manifest of a repository is also there under its digest, and the digest stored
  with it is missing or right.
\<close>

definition manifests_ok :: "'w registry \<Rightarrow> bool" where
  "manifests_ok st \<longleftrightarrow>
     (\<forall>repo t mf. repo_manifests st repo t = Some mf \<longrightarrow>
        digest mf \<in> {[], compute_digest (blob mf)} \<and> repo_manifests st repo (compute_digest (blob mf)) \<noteq> None)"

definition reg_inv :: "'w registry \<Rightarrow> bool" where
  "reg_inv st \<longleftrightarrow> content_addressed (reg_blobs st) \<and> manifests_ok st"

text \<open>The invariant is kept and a mutex that is held at the end of a request stays held.\<close>

definition reg_step_ok :: "'w registry \<Rightarrow> 'w registry \<Rightarrow> bool" where
  "reg_step_ok st st' \<longleftrightarrow>
     (reg_inv st \<longrightarrow> reg_inv st') \<and> (blobs_locked st \<longrightarrow> blobs_locked st') \<and> (manifests_locked st \<longrightarrow> manifests_locked st')"

lemma manifests_ok_cong: "reg_manifests st = reg_manifests st' \<Longrightarrow> manifests_ok st = manifests_ok st'"
  by (simp add: manifests_ok_def repo_manifests_def)

lemma reg_step_refl: "reg_step_ok st st"
  by (simp add: reg_step_ok_def)

lemma reg_step_trans: "reg_step_ok st st1 \<Longrightarrow> reg_step_ok st1 st2 \<Longrightarrow> reg_step_ok st st2"
  by (auto simp: reg_step_ok_def)

lemma reg_step_same:
  "reg_blobs st' = reg_blobs st \<Longrightarrow> reg_manifests st' = reg_manifests st \<Longrightarrow>
   (blobs_locked st \<Longrightarrow> blobs_locked st') \<Longrightarrow> (manifests_locked st \<Longrightarrow> manifests_locked st') \<Longrightarrow> reg_step_ok st st'"
  using manifests_ok_cong [of st st'] by (simp add: reg_step_ok_def reg_inv_def)

lemma manifests_ok_put:
  assumes "manifests_ok st" and "digest mf \<in> {[], compute_digest (blob mf)}"
  shows "manifests_ok (put_manifest repo (compute_digest (blob mf)) mf (put_manifest repo t mf st))"
  using assms by (auto simp: manifests_ok_def frame_simps)

lemma put_step:
  assumes "digest mf \<in> {[], compute_digest (blob mf)}"
  shows "reg_step_ok st (put_manifest repo (compute_digest (blob mf)) mf (put_manifest repo t mf st))"
  using manifests_ok_put [OF _ assms, of st repo t] by (simp add: reg_step_ok_def reg_inv_def frame_simps)

lemma make_repo_step: "reg_step_ok st (make_repo repo st)"
  by (simp add: reg_step_ok_def reg_inv_def frame_simps manifests_ok_def)

lemma resolve_reg_step: "reg_step_ok st (fst (resolveCID cfg st r t))"
  "reg_step_ok st ((fst (resolveCID cfg st r t))\<lparr>world := w\<rparr>)"
  by (intro reg_step_same; simp add: frame_simps)+

lemma fetch_step: "reg_step_ok st (fst (fetch cfg repo t st))"
proof -
  let ?s0 = "make_repo repo st"
  obtain st1 r where r: "resolveCID cfg ?s0 repo t = (st1, r)" by fastforce
  have s1: "reg_step_ok st (st1\<lparr>world := w\<rparr>)" "reg_step_ok st st1" for w
    using reg_step_trans [OF make_repo_step [of st repo] resolve_reg_step(1) [of ?s0 cfg repo t]]
      reg_step_trans [OF make_repo_step [of st repo] resolve_reg_step(2) [where st = ?s0 and cfg = cfg and r = repo and t = t]]
      r by simp_all
  have "reg_step_ok st (cids_add (put_manifest repo (digest mf) mf (put_manifest repo t mf (st1\<lparr>world := w\<rparr>))) repo (digest mf) c)"
    if "digest mf = compute_digest (blob mf)" for w c and mf :: stored_manifest
  proof -
    have "reg_step_ok st (put_manifest repo (digest mf) mf (put_manifest repo t mf (st1\<lparr>world := w\<rparr>)))"
      using reg_step_trans [OF s1(1) put_step [of mf]] that by simp
    then show ?thesis
      by (rule reg_step_trans) (intro reg_step_same; simp add: frame_simps)
  qed
  moreover have "digest mf = compute_digest (blob mf)" if "getManifest cfg w c t = (w', Inr mf)" for w c w' mf
    using that by (auto simp: getManifest_def split: prod.splits sum.splits)
  ultimately show ?thesis
    using r s1 make_repo_step
    by (auto simp: fetch_def frame_simps Let_def split: option.splits prod.splits sum.splits)
qed

lemma manifest_get_step: "reg_step_ok st (fst (manifest_get cfg repo t st resp))"
proof -
  obtain st1 r where f: "fetch cfg repo t st = (st1, r)" by fastforce
  obtain st2 c where c: "resolveCID cfg st1 repo t = (st2, c)" by fastforce
  have 1: "reg_step_ok st st1" using fetch_step [of st cfg repo t] f by simp
  have 2: "reg_step_ok st st2" using reg_step_trans [OF 1 resolve_reg_step(1), of cfg repo t] c by simp
  have 3: "reg_step_ok st (foldl (\<lambda>s d. cids_add s repo d x) st2 ds)" for x ds
    by (rule reg_step_trans [OF 2]) (intro reg_step_same; simp add: frame_simps)
  show ?thesis
    using 1 2 3 f c by (auto simp: manifest_get_def reg_step_refl split: sum.splits outcome.splits)
qed

lemma manifest_head_step: "reg_step_ok st (fst (manifest_head cfg repo t st resp))"
  using fetch_step [of st cfg repo t]
  by (auto simp: manifest_head_def reg_step_refl split: prod.splits sum.splits)

lemma manifest_commit_step: "reg_step_ok st (fst (manifest_commit cfg repo t dig b st resp))"
proof (rule manifest_commit_cases [of st repo cfg t dig b resp])
  fix ds
  assume "manifest_commit cfg repo t dig b st resp = add_image cfg repo t dig b (contents (reg_blobs st) |` set ds)
       (st\<lparr>reg_blobs := drop_layers repo ds (reg_blobs st)\<rparr>) resp"
  moreover have "content_addressed b \<Longrightarrow> content_addressed (drop_layers repo ds b)" for b
    by (simp add: content_addressed_def drop_layers_def inv_intros)
  ultimately show ?thesis
    using manifests_ok_cong [of "fst (manifest_commit cfg repo t dig b st resp)" st]
    by (simp add: reg_step_ok_def reg_inv_def frame_simps)
qed (auto intro: reg_step_same)

lemma manifest_put_step: "reg_step_ok st (fst (manifest_put cfg repo t req st resp))"
proof -
  let ?mf = "\<lparr>contentType = header_get req ''Content-Type'', blob = req_body req, digest = []\<rparr>"
  have "reg_step_ok st (fst (manifest_commit cfg repo t (compute_digest (req_body req)) (req_body req)
      (put_manifest repo (compute_digest (req_body req)) ?mf (put_manifest repo t ?mf (make_repo repo st))) resp))"
    using reg_step_trans [OF reg_step_trans [OF make_repo_step put_step [of ?mf]] manifest_commit_step] by simp
  then show ?thesis
    using make_repo_step by (auto simp: manifest_put_def reg_step_refl Let_def split: option.splits)
qed

lemma manifests_handle_step: "reg_step_ok st (fst (manifests_handle cfg req st resp))"
  by (auto simp: manifests_handle_def manifest_get_step manifest_head_step manifest_put_step reg_step_refl Let_def)

lemma blobs_handle_reg_step: "reg_step_ok st (fst (blobs_handle cfg req st resp))"
  using blobs_handle_step [of st cfg req resp] manifests_ok_cong [of "fst (blobs_handle cfg req st resp)" st]
  by (simp add: blobs_step_ok_def blobs_frame_def reg_step_ok_def reg_inv_def)

section \<open>Under which reference a manifest lies\<close>

text \<open>The repository and the reference that a manifest request names.\<close>

definition manifest_name :: "request \<Rightarrow> string \<times> string" where
  "manifest_name req =
     (let elem = manifest_elems (url_path req) in (join ''/'' (slice 1 (length elem - 2) elem), from_end elem 1))"

text \<open>
  What brings bytes under a reference: a request puts them there, or it looks them up there when
  the server has none, which then come from IPFS.
\<close>

definition brings :: "request \<Rightarrow> 'w registry \<Rightarrow> string \<Rightarrow> string \<Rightarrow> bytes \<Rightarrow> bool" where
  "brings req st repo t b \<longleftrightarrow>
     manifest_name req = (repo, t) \<and>
     (if req_method req = ''PUT'' then req_body req = b
      else req_method req \<in> {''GET'', ''HEAD''} \<and> repo_manifests st repo t = None)"

text \<open>What is new in the table of manifests lies under its own digest or where \<open>P\<close> says.\<close>

definition writes_only :: "(string \<Rightarrow> string \<Rightarrow> bytes \<Rightarrow> bool) \<Rightarrow> 'w registry \<Rightarrow> 'w registry \<Rightarrow> bool" where
  "writes_only P st st' \<longleftrightarrow>
     (\<forall>repo t mf. repo_manifests st' repo t = Some mf \<longrightarrow>
        repo_manifests st repo t = Some mf \<or> t = compute_digest (blob mf) \<or> P repo t (blob mf))"

lemma writes_only_same: "reg_manifests st' = reg_manifests st \<Longrightarrow> writes_only P st st'"
  by (simp add: writes_only_def repo_manifests_def)

lemma writes_only_trans: "writes_only P st st1 \<Longrightarrow> writes_only P st1 st2 \<Longrightarrow> writes_only P st st2"
  unfolding writes_only_def by blast

lemma writes_only_mono: "writes_only P st st' \<Longrightarrow> (\<And>r u b. P r u b \<Longrightarrow> Q r u b) \<Longrightarrow> writes_only Q st st'"
  unfolding writes_only_def by blast

lemma writes_only_put:
  "P repo t (blob mf) \<Longrightarrow>
     writes_only P st (put_manifest repo (compute_digest (blob mf)) mf (put_manifest repo t mf (make_repo repo st)))"
  by (auto simp: writes_only_def frame_simps split: if_splits)

lemma writes_only_make: "writes_only P st (make_repo repo st)"
  by (simp add: writes_only_def frame_simps)

lemma fetch_writes_only: "writes_only (\<lambda>r u b. (r, u) = (repo, t) \<and> repo_manifests st repo t = None) st (fst (fetch cfg repo t st))"
proof (cases "repo_manifests st repo t")
  case (Some mf)
  then show ?thesis by (simp add: fetch_hit writes_only_make)
next
  case None
  let ?P = "\<lambda>r u (b :: bytes). (r, u) = (repo, t)" and ?s0 = "make_repo repo st"
  obtain st1 r where r: "resolveCID cfg ?s0 repo t = (st1, r)" by fastforce
  have s1: "writes_only ?P st st1" "writes_only ?P st (st1\<lparr>world := w\<rparr>)" for w
    using writes_only_trans [OF writes_only_make [of ?P st repo] writes_only_same, of _ ] resolveCID_frame [of cfg ?s0 repo t] r
    by simp_all
  have "writes_only ?P st (cids_add (put_manifest repo (digest mf) mf (put_manifest repo t mf (st1\<lparr>world := w\<rparr>))) repo (digest mf) c)"
    if "digest mf = compute_digest (blob mf)" for w c and mf :: stored_manifest
    using s1(2) [of w] that by (auto simp: writes_only_def frame_simps split: if_splits)
  moreover have "digest mf = compute_digest (blob mf)" if "getManifest cfg w c t = (w', Inr mf)" for w c w' mf
    using that by (auto simp: getManifest_def split: prod.splits sum.splits)
  ultimately have "writes_only ?P st (fst (fetch cfg repo t st))"
    using r s1 writes_only_make
    by (auto simp: fetch_def frame_simps Let_def split: option.splits prod.splits sum.splits)
  with None show ?thesis by simp
qed

lemma manifest_put_writes_only:
  "writes_only (\<lambda>r u b. (r, u) = (repo, t) \<and> req_body req = b) st (fst (manifest_put cfg repo t req st resp))"
proof -
  let ?P = "\<lambda>r u b. (r, u) = (repo, t) \<and> req_body req = b"
  let ?mf = "\<lparr>contentType = header_get req ''Content-Type'', blob = req_body req, digest = []\<rparr>"
  have "writes_only ?P st (fst (manifest_commit cfg repo t (compute_digest (req_body req)) (req_body req)
      (put_manifest repo (compute_digest (req_body req)) ?mf (put_manifest repo t ?mf (make_repo repo st))) resp))"
    using writes_only_trans [OF writes_only_put [of ?P repo t ?mf st] writes_only_same] by (simp add: frame_simps)
  then show ?thesis
    using writes_only_make writes_only_same [OF refl] by (auto simp: manifest_put_def Let_def split: option.splits)
qed

lemma manifests_handle_writes_only: "writes_only (brings req st) st (fst (manifests_handle cfg req st resp))"
proof -
  have s: "reg_manifests (foldl (\<lambda>s d. cids_add s r d c) st2 ds) = reg_manifests st2" for r c ds and st2 :: "'a registry"
    by (simp add: frame_simps)
  let ?P = "\<lambda>repo t r u (b :: bytes). (r, u) = (repo, t) \<and> repo_manifests st repo t = None"
  have g: "writes_only (?P repo t) st (fst (manifest_get cfg repo t st resp))" for repo t
  proof -
    obtain st1 r where f: "fetch cfg repo t st = (st1, r)" by fastforce
    obtain st2 c where c: "resolveCID cfg st1 repo t = (st2, c)" by fastforce
    have 1: "writes_only (?P repo t) st st1" using fetch_writes_only [of repo t st cfg] f by simp
    have 2: "writes_only (?P repo t) st st3" if "reg_manifests st3 = reg_manifests st2" for st3
      by (rule writes_only_trans [OF 1 writes_only_same]) (use that c resolveCID_frame [of cfg st1 repo t] in simp)
    show ?thesis
      using 1 2 s f c writes_only_same [OF refl] by (auto simp: manifest_get_def split: sum.splits outcome.splits)
  qed
  have h: "writes_only (?P repo t) st (fst (manifest_head cfg repo t st resp))" for repo t
    using fetch_writes_only [of repo t st cfg] writes_only_same [OF refl]
    by (auto simp: manifest_head_def split: prod.splits sum.splits)
  show ?thesis
    by (auto simp: manifests_handle_def writes_only_same [OF refl] brings_def manifest_name_def Let_def
        intro: writes_only_mono [OF g] writes_only_mono [OF h] writes_only_mono [OF manifest_put_writes_only])
qed

end
