(* ===== verification/Registry.thy ===== *)
theory Registry
  imports Manifests
begin

text \<open>
  The registry's HTTP handler, \<open>server/registry/registry.go\<close>: the API root \<open>v2\<close>, the lookup
  service \<open>dig\<close> and the dispatcher \<open>root\<close>; the server as a step relation on its state, one
  step per request (\<open>reg_step\<close>, and \<open>history\<close> with the requests made), and the properties that
  hold in every reachable state.
\<close>

section \<open>Dispatch\<close>

definition v2 :: "'w reg_config \<Rightarrow> request \<Rightarrow> 'w registry \<Rightarrow> response \<Rightarrow> 'w handled" where
  "v2 cfg req st resp =
     (case isBlob req of
        Panicked \<Rightarrow> (st, resp, Panicked)
      | Blocked \<Rightarrow> (st, resp, Blocked)
      | Done is_blob \<Rightarrow>
          if is_blob then blobs_handle cfg req st resp
          else if isManifest req then manifests_handle cfg req st resp
          else (let resp1 = set_header ''Docker-Distribution-API-Version'' ''registry/2.0'' resp in
                if url_path req \<noteq> ''/v2/'' \<and> url_path req \<noteq> ''/v2''
                then (st, resp1, method_unknown StatusNotFound)
                else (st, write_header 200 resp1, Done None)))"

definition isDig :: "request \<Rightarrow> bool" where
  "isDig req = (url_path req = ''/dig/'' \<or> url_path req = ''/dig'')"

text \<open>\<open>strconv.ParseBool\<close>; everything it rejects counts as false.\<close>

definition parse_bool :: "string \<Rightarrow> bool" where
  "parse_bool s = (s \<in> {''1'', ''t'', ''T'', ''TRUE'', ''true'', ''True''})"

definition split_name :: "string \<Rightarrow> string \<times> string" where
  "split_name s = (let sa = splitn2 (CHR '':'') s in if length sa = 1 then (sa ! 0, []) else (sa ! 0, sa ! 1))"

definition println :: "string \<Rightarrow> response \<Rightarrow> response" where
  "println s resp = write_body (s @ [CHR 0x0A]) resp"

definition dig_usage :: string where
  "dig_usage = ''Required parameter 'q' missing. /dig?q=name:tag&short=true''"

text \<open>The header with the CID is set after \<open>WriteHeader\<close>.\<close>

definition dig_found :: "'w reg_config \<Rightarrow> bool \<Rightarrow> string \<Rightarrow> string list \<Rightarrow> 'w registry \<Rightarrow> response \<Rightarrow> 'w registry \<times> response" where
  "dig_found cfg short tag l st resp =
     (let resp1 = write_header StatusOK resp in
      if tag \<noteq> []
      then (let cid = l ! 0; resp2 = set_header ''X-Docker-Content-ID'' cid resp1 in
            if short then (st, println cid resp2)
            else (case getManifest cfg (world st) cid tag of
                    (w', Inr mf) \<Rightarrow> (st\<lparr>world := w'\<rparr>, println (blob mf) resp2)
                  | (w', Inl e) \<Rightarrow> (st\<lparr>world := w'\<rparr>, resp2)))
      else (st, foldl (\<lambda>r x. println x r) resp1 l))"

definition dig :: "'w reg_config \<Rightarrow> request \<Rightarrow> 'w registry \<Rightarrow> response \<Rightarrow> 'w registry \<times> response" where
  "dig cfg req st resp =
     (let short = parse_bool (query_get req ''short''); name = fst (split_name (query_get req ''q''));
          tag = snd (split_name (query_get req ''q''))
      in if name = [] then (st, println dig_usage (write_header StatusBadRequest resp))
         else (case resolve cfg st name tag of
                 (w', l) \<Rightarrow>
                   (let cids = (case l of None \<Rightarrow> [] | Some l' \<Rightarrow> l') in
                    if cids = [] then (st\<lparr>world := w'\<rparr>, write_header StatusNotFound resp)
                    else dig_found cfg short tag cids (st\<lparr>world := w'\<rparr>) resp)))"

text \<open>One request from the new response writer to the reply, which is missing if the handler never ends it.\<close>

definition root :: "'w reg_config \<Rightarrow> request \<Rightarrow> 'w registry \<Rightarrow> 'w registry \<times> response outcome" where
  "root cfg req st =
     (if isDig req
      then (case dig cfg req st new_response of (st', resp) \<Rightarrow> (st', Done resp))
      else (case v2 cfg req st new_response of
              (st', resp, Done None) \<Rightarrow> (st', Done resp)
            | (st', resp, Done (Some rerr)) \<Rightarrow> (st', Done (reg_error_write rerr resp))
            | (st', resp, Panicked) \<Rightarrow> (st', Panicked)
            | (st', resp, Blocked) \<Rightarrow> (st', Blocked)))"

section \<open>The server as a step relation\<close>

text \<open>
  Between two requests the world and the disk may change in any way; the requests are taken
  one at a time.
\<close>

inductive reg_step :: "'w reg_config \<Rightarrow> 'w registry \<Rightarrow> 'w registry \<Rightarrow> bool" for cfg where
  request: "root cfg req st = (st', r) \<Longrightarrow> reg_step cfg st st'"
| environment: "reg_step cfg st (st\<lparr>world := w, disk := d\<rparr>)"

inductive_cases reg_stepE: "reg_step cfg st st'"

definition reaches :: "'w reg_config \<Rightarrow> 'w registry \<Rightarrow> 'w registry \<Rightarrow> bool" where
  "reaches cfg st st' = (reg_step cfg)\<^sup>*\<^sup>* st st'"

lemma v2_step: "reg_step_ok st (fst (v2 cfg req st resp))"
  by (auto simp: v2_def reg_step_refl blobs_handle_reg_step manifests_handle_step Let_def split: outcome.splits)

lemma dig_step: "reg_step_ok st (fst (dig cfg req st resp))"
  by (auto simp: dig_def dig_found_def Let_def split: prod.splits option.splits sum.splits intro!: reg_step_same)

lemma root_step: "reg_step_ok st (fst (root cfg req st))"
  using v2_step [of st cfg req new_response] dig_step [of st cfg req new_response]
  by (auto simp: root_def split: prod.splits outcome.splits option.splits)

lemma reaches_ok: "reaches cfg st st' \<Longrightarrow> reg_step_ok st st'"
  unfolding reaches_def
proof (induction rule: rtranclp_induct)
  case base
  show ?case by (rule reg_step_refl)
next
  case (step s1 s2)
  have "reg_step_ok s1 s2" using step.hyps(2)
  proof (cases rule: reg_step.cases)
    case (request req r)
    then show ?thesis using root_step [of s1 cfg req] by simp
  next
    case (environment w d)
    then show ?thesis by (auto intro: reg_step_same)
  qed
  then show ?case using step.IH reg_step_trans by blast
qed

lemma new_registry_inv: "reg_inv (new_registry loc fs w)"
  by (simp add: reg_inv_def content_addressed_def manifests_ok_def repo_manifests_def new_registry_def)

text \<open>The same with the requests that were made on the way, each with the state it found.\<close>

type_synonym 'w request_log = "(request \<times> 'w registry) list"

inductive history :: "'w reg_config \<Rightarrow> 'w registry \<Rightarrow> 'w request_log \<Rightarrow> 'w registry \<Rightarrow> bool" for cfg st where
  start: "history cfg st [] st"
| request: "history cfg st log st1 \<Longrightarrow> root cfg req st1 = (st2, r) \<Longrightarrow> history cfg st (log @ [(req, st1)]) st2"
| environment: "history cfg st log st1 \<Longrightarrow> history cfg st log (st1\<lparr>world := w, disk := d\<rparr>)"

lemma history_reaches: "history cfg st log st' \<Longrightarrow> reaches cfg st st'"
proof (induction rule: history.induct)
  case (request log st1 req st2 r)
  then show ?case unfolding reaches_def by (meson reg_step.request rtranclp.rtrancl_into_rtrancl)
next
  case (environment log st1 d w)
  moreover have "reg_step cfg st1 (st1\<lparr>world := w, disk := d\<rparr>)" by (rule reg_step.environment)
  ultimately show ?case unfolding reaches_def by (rule_tac rtranclp.rtrancl_into_rtrancl)
qed (simp add: reaches_def)

text \<open>Only a manifest request writes the table of manifests, and only as it says.\<close>

lemma root_writes_only:
  assumes "root cfg req st = (st', r)"
  shows "writes_only (brings req st) st st'" and "isManifest req \<or> reg_manifests st' = reg_manifests st"
proof -
  have dig: "reg_manifests (fst (dig cfg req st new_response)) = reg_manifests st"
    by (auto simp: dig_def dig_found_def Let_def split: prod.splits option.splits sum.splits)
  have "reg_manifests (fst (blobs_handle cfg req st new_response)) = reg_manifests st"
    using blobs_handle_step [of st cfg req new_response] by (simp add: blobs_step_ok_def blobs_frame_def)
  then have v2: "isManifest req \<or> reg_manifests (fst (v2 cfg req st new_response)) = reg_manifests st"
    "writes_only (brings req st) st (fst (v2 cfg req st new_response))"
    using manifests_handle_writes_only [of req st cfg new_response]
    by (auto simp: v2_def Let_def writes_only_same split: outcome.splits)
  have st': "st' = (if isDig req then fst (dig cfg req st new_response) else fst (v2 cfg req st new_response))"
    using assms by (auto simp: root_def split: prod.splits outcome.splits option.splits if_splits)
  show "writes_only (brings req st) st st'" using v2(2) writes_only_same [OF dig] by (simp add: st')
  show "isManifest req \<or> reg_manifests st' = reg_manifests st" using v2(1) dig by (simp add: st')
qed

text \<open>Some manifest request of the log brought the bytes under the reference.\<close>

definition brought :: "'w request_log \<Rightarrow> string \<Rightarrow> string \<Rightarrow> bytes \<Rightarrow> bool" where
  "brought log repo t b = list_ex (\<lambda>(req, st). isManifest req \<and> brings req st repo t b) log"

lemma brought_snoc: "brought (log @ [(req, st)]) repo t b \<longleftrightarrow> brought log repo t b \<or> isManifest req \<and> brings req st repo t b"
  by (simp add: brought_def)

lemma history_brought:
  "history cfg st log st' \<Longrightarrow> (\<And>repo t. repo_manifests st repo t = None) \<Longrightarrow> repo_manifests st' repo t = Some mf \<Longrightarrow>
     t = compute_digest (blob mf) \<or> brought log repo t (blob mf)"
proof (induction arbitrary: repo t mf rule: history.induct)
  case (request log st1 req st2 r)
  note w = root_writes_only [OF request.hyps(2)]
  show ?case
  proof (cases "repo_manifests st1 repo t = Some mf")
    case True
    with request.IH request.prems(1) show ?thesis by (auto simp: brought_snoc)
  next
    case False
    then have "reg_manifests st2 \<noteq> reg_manifests st1" using request.prems(2) by (auto simp: repo_manifests_def)
    with w False request.prems(2) show ?thesis by (auto simp: writes_only_def brought_snoc)
  qed
next
  case (environment log st1 d w)
  then show ?case by (simp add: repo_manifests_def)
qed simp

text \<open>What this makes of the table of manifests.\<close>

lemma manifests_under_digests:
  assumes "reg_inv st" and "\<And>repo t mf. repo_manifests st repo t = Some mf \<Longrightarrow> t = compute_digest (blob mf) \<or> B repo t (blob mf)"
    and "repo_manifests st repo t = Some mf"
  shows "digest mf = [] \<or> digest mf = compute_digest (blob mf)"
    and "\<exists>mf'. repo_manifests st repo (compute_digest (blob mf)) = Some mf' \<and>
      (compute_digest (blob mf') = compute_digest (blob mf) \<or> B repo (compute_digest (blob mf)) (blob mf'))"
proof -
  from assms(1,3) have m: "digest mf \<in> {[], compute_digest (blob mf)}" "repo_manifests st repo (compute_digest (blob mf)) \<noteq> None"
    by (auto simp: reg_inv_def manifests_ok_def)
  then show "digest mf = [] \<or> digest mf = compute_digest (blob mf)" by simp
  from m(2) obtain mf' where mf': "repo_manifests st repo (compute_digest (blob mf)) = Some mf'" by blast
  with assms(2) [OF mf'] show "\<exists>mf'. repo_manifests st repo (compute_digest (blob mf)) = Some mf' \<and>
      (compute_digest (blob mf') = compute_digest (blob mf) \<or> B repo (compute_digest (blob mf)) (blob mf'))"
    by (intro exI [of _ mf']) auto
qed


section \<open>Requests at the root\<close>

text \<open>The reply for the outcome of a handler.\<close>

definition reply_of :: "'w handled \<Rightarrow> 'w registry \<times> response outcome" where
  "reply_of h =
     (case h of
        (st', resp, Done None) \<Rightarrow> (st', Done resp)
      | (st', resp, Done (Some rerr)) \<Rightarrow> (st', Done (reg_error_write rerr resp))
      | (st', resp, Panicked) \<Rightarrow> (st', Panicked)
      | (st', resp, Blocked) \<Rightarrow> (st', Blocked))"

lemma reply_of_simps [simp]:
  "reply_of (st, resp, Done None) = (st, Done resp)"
  "reply_of (st, resp, Done (Some e)) = (st, Done (reg_error_write e resp))"
  "reply_of (st, resp, Panicked) = (st, Panicked)" "reply_of (st, resp, Blocked) = (st, Blocked)"
  by (simp_all add: reply_of_def)

lemma root_v2: "\<not> isDig req \<Longrightarrow> root cfg req st = reply_of (v2 cfg req st new_response)"
  by (simp add: root_def reply_of_def)

lemma root_blob:
  "\<not> isDig req \<Longrightarrow> isBlob req = Done True \<Longrightarrow> root cfg req st = reply_of (blobs_handle cfg req st new_response)"
  by (simp add: root_v2 v2_def)

lemma root_manifest:
  "\<not> isDig req \<Longrightarrow> isBlob req = Done False \<Longrightarrow> isManifest req \<Longrightarrow>
     root cfg req st = reply_of (manifests_handle cfg req st new_response)"
  by (simp add: root_v2 v2_def)

lemma not_isDig:
  "\<not> isDig (blob_req m repo d)" "\<not> isDig (upload_req m repo u q h b)" "\<not> isDig (manifest_req m repo t ct b)"
  by (simp_all add: isDig_def blob_req_def upload_req_def manifest_req_def blob_path_def upload_path_def)

lemma isBlob_blob: "d \<noteq> [] \<Longrightarrow> CHR ''/'' \<notin> set d \<Longrightarrow> isBlob (blob_req m repo d) = Done True"
  by (simp add: isBlob_def blob_req_def blob_elems_blob from_end_blob)

lemma isBlob_upload: "u \<noteq> [] \<Longrightarrow> CHR ''/'' \<notin> set u \<Longrightarrow> isBlob (upload_req m repo u q h b) = Done True"
  using from_end_append(3) [of "''v2'' # split_on (CHR ''/'') repo" "''blobs''" "''uploads''" u]
  by (simp add: isBlob_def upload_req_def blob_elems_upload from_end_upload)

lemma blob_elems_manifest:
  assumes "t \<noteq> []" and "CHR ''/'' \<notin> set t"
  shows "blob_elems (''/v2/'' @ repo @ ''/manifests/'' @ t) = Done (''v2'' # split_on (CHR ''/'') repo @ [''manifests'', t])"
proof -
  have "tl (split_on (CHR ''/'') (''/v2/'' @ repo @ ''/manifests/'' @ t)) = ''v2'' # split_on (CHR ''/'') repo @ [''manifests'', t]"
    using manifest_elems_path [OF assms(2), of repo] unfolding manifest_elems_def .
  then show ?thesis using assms(1) unfolding blob_elems_def Let_def by simp
qed

lemma manifest_req_route:
  assumes "t \<noteq> []" and "CHR ''/'' \<notin> set t"
  shows "isBlob (manifest_req m repo t ct b) = Done False" and "isManifest (manifest_req m repo t ct b)"
proof -
  show "isBlob (manifest_req m repo t ct b) = Done False"
    unfolding isBlob_def manifest_req_def request.simps blob_elems_manifest [OF assms] by (simp add: from_end_manifest)
  have "4 \<le> length (''v2'' # split_on (CHR ''/'') repo @ [''manifests'', t])"
    using split_on_nonempty [of "CHR ''/''" repo] by (cases "split_on (CHR ''/'') repo") auto
  then show "isManifest (manifest_req m repo t ct b)"
    unfolding isManifest_def manifest_req_def request.simps manifest_elems_path [OF assms(2)] Let_def
    by (simp add: from_end_manifest)
qed

lemmas route = not_isDig isBlob_blob isBlob_upload manifest_req_route

section \<open>The server after a push without layers\<close>

text \<open>Once the mutex of the blobs is lost, no request that needs it is ever answered.\<close>

lemma wedged_blocks:
  assumes "blobs_locked st1" and "reaches cfg st1 st2" and "CHR ''/'' \<notin> set u" and "u \<noteq> []" and "dg \<noteq> []"
  shows "root cfg (blob_req ''HEAD'' repo u) st2 = (st2, Blocked) \<and>
    root cfg (upload_req ''PATCH'' repo u [] [] c) st2 = (st2, Blocked) \<and> root cfg (put_req repo u dg c) st2 = (st2, Blocked)"
proof -
  have "blobs_locked st2" using reaches_ok [OF assms(2)] assms(1) by (simp add: reg_step_ok_def)
  note b = blobs_locked_blocks [OF this assms(3,4)]
  have "root cfg (put_req repo u dg c) st2 = (st2, Blocked)"
    using b(3) [OF assms(5)] assms(3,4) by (simp add: root_blob route put_req_def)
  with b(1,2) assms(3,4) show ?thesis by (simp add: root_blob route)
qed

text \<open>
  C8: One request can put the server out of service. A \<open>PUT\<close> of any manifest to a
  repository without a complete set of uploaded layers is answered 404. After it, in every
  state the server can ever reach, looking for a blob, sending a part of an upload and
  closing an upload are never answered, and neither is the next \<open>PUT\<close> of a manifest; and
  from that one on no \<open>GET\<close>, \<open>HEAD\<close> or \<open>PUT\<close> of a manifest is answered either.
\<close>
theorem push_without_layers_wedges_server:
  assumes "CHR ''/'' \<notin> set t" and "t \<noteq> []" and "\<not> manifests_locked st" and "\<not> blobs_locked st"
    and "\<not> is_index_type ct" and "\<nexists>ds. ready_layers (reg_blobs st) repo ds"
    and "root cfg (manifest_req ''PUT'' repo t ct b) st = (st1, r)" and "reaches cfg st1 st2"
    and "CHR ''/'' \<notin> set u" and "u \<noteq> []" and "dg \<noteq> []"
  shows "(\<exists>resp. r = Done resp \<and> reply_status resp = StatusNotFound) \<and>
    root cfg (blob_req ''HEAD'' repo' u) st2 = (st2, Blocked) \<and>
    root cfg (upload_req ''PATCH'' repo' u [] [] c) st2 = (st2, Blocked) \<and>
    root cfg (put_req repo' u dg c) st2 = (st2, Blocked) \<and>
    (\<exists>st3. root cfg (manifest_req ''PUT'' repo' u ct c) st2 = (st3, Blocked) \<and>
      (\<forall>st4 m. reaches cfg st3 st4 \<longrightarrow> m \<in> {''GET'', ''HEAD'', ''PUT''} \<longrightarrow>
         root cfg (manifest_req m repo' u ct c) st4 = (st4, Blocked)))"
proof -
  have "root cfg (manifest_req ''PUT'' repo t ct b) st =
      reply_of (manifests_handle cfg (manifest_req ''PUT'' repo t ct b) st new_response)"
    using assms(1,2) by (simp add: root_manifest route)
  with assms(7) manifest_put_unready [OF assms(1,3-6), of cfg b new_response]
  have r: "\<exists>resp. r = Done resp \<and> reply_status resp = StatusNotFound" and l1: "blobs_locked st1"
    by (auto simp: reg_err_def reg_error_write_def resp_simps)
  have l2: "blobs_locked st2" using reaches_ok [OF assms(8)] l1 by (simp add: reg_step_ok_def)
  have "\<exists>st3. manifests_handle cfg (manifest_req ''PUT'' repo' u ct c) st2 new_response = (st3, new_response, Blocked) \<and> manifests_locked st3"
    using manifests_locked_blocks [of st2 u "''PUT''"] blobs_locked_blocks_push [OF l2 _ assms(9,5)] assms(9)
    by (cases "manifests_locked st2") auto
  then obtain st3 where p: "root cfg (manifest_req ''PUT'' repo' u ct c) st2 = (st3, Blocked)" and l3: "manifests_locked st3"
    using assms(9,10) by (auto simp: root_manifest route)
  have "root cfg (manifest_req m repo' u ct c) st4 = (st4, Blocked)"
    if "reaches cfg st3 st4" "m \<in> {''GET'', ''HEAD'', ''PUT''}" for st4 m
    using manifests_locked_blocks [of st4 u m] reaches_ok [OF that(1)] l3 that(2) assms(9,10)
    by (simp add: reg_step_ok_def root_manifest route)
  with p have "\<exists>st3. root cfg (manifest_req ''PUT'' repo' u ct c) st2 = (st3, Blocked) \<and>
      (\<forall>st4 m. reaches cfg st3 st4 \<longrightarrow> m \<in> {''GET'', ''HEAD'', ''PUT''} \<longrightarrow> root cfg (manifest_req m repo' u ct c) st4 = (st4, Blocked))"
    by blast
  with r wedged_blocks [OF l1 assms(8-11)] show ?thesis by blast
qed

theorem push_without_layers_wedges_server_witness:
  "\<exists>st1 r. root (local_config offline) (manifest_req ''PUT'' ''a'' ''v1'' ''m'' ''{}'') local_registry = (st1, r) \<and>
     root (local_config offline) (blob_req ''HEAD'' ''b'' ''sha256:00'') st1 = (st1, Blocked)"
proof -
  have n: "\<not> is_index_type ''m''" by (simp add: is_index_type_def)
  have l: "\<nexists>ds. ready_layers (reg_blobs local_registry) ''a'' ds" by (simp add: ready_layers_def)
  obtain st1 r where p: "root (local_config offline) (manifest_req ''PUT'' ''a'' ''v1'' ''m'' ''{}'') local_registry = (st1, r)"
    by fastforce
  have "reaches (local_config offline) st1 st1" by (simp add: reaches_def)
  from push_without_layers_wedges_server [OF _ _ _ _ n l p this, of "''sha256:00''" "''x''"] p show ?thesis by auto
qed

section \<open>Looking up\<close>

text \<open>
  C33: The lookup service discloses files. Whatever the directory of the CID store is, one
  request without credentials, \<open>/dig?q=<name>:<file>&short=true\<close> with a name made of \<open>..\<close>
  components, returns the content of any file of the machine that the server can read, if
  the names of its directories hold no colon and the server has not stored that name.
\<close>
theorem dig_discloses_any_file:
  assumes "rooted (location (reg_cids st))" and "list_all plain_comp (cs @ [c])"
    and "\<forall>x \<in> set cs. CHR '':'' \<notin> set x"
    and "\<forall>n \<le> length cs. is_dir (disk st) (take n cs)" and "fs_node (disk st) (cs @ [c]) = Some (File content)"
    and "\<not> no_read (disk st) (cs @ [c])" and "cids_held st (escape_name (location (reg_cids st)) cs) c = None"
    and "req = \<lparr>req_method = ''GET'', url_path = ''/dig'',
       url_query = [(''q'', key (escape_name (location (reg_cids st)) cs) c), (''short'', ''true'')], req_header = [], req_body = []\<rparr>"
  shows "\<exists>resp. root cfg req st = (st, Done resp) \<and> reply_status resp = StatusOK \<and> out resp = content @ [CHR 0x0A]"
proof -
  let ?n = "escape_name (location (reg_cids st)) cs"
  note n = escape_name_facts [OF assms(3), of "location (reg_cids st)"]
  have c: "c \<noteq> []" using assms(2) by (simp add: plain_comp_def)
  have "cids_get st ?n c = Some content"
    using store_get_escape [of "(reg_cids st, disk st)" cs c content] assms(1-7) by (simp add: cids_get_def cids_held_def)
  then have r: "resolve cfg st ?n c = (world st, Some [content])" by (rule resolve_held)
  have q: "split_name (query_get req ''q'') = (?n, c)" "parse_bool (query_get req ''short'')"
    using n(1) by (simp_all add: assms(8) query_get_def first_value_def split_name_def key_def splitn2_append parse_bool_def Let_def)
  have "dig cfg req st new_response = (st, println content (set_header ''X-Docker-Content-ID'' content (write_header StatusOK new_response)))"
    using n(2) c by (simp add: dig_def q r dig_found_def Let_def)
  moreover have "isDig req" by (simp add: assms(8) isDig_def)
  ultimately show ?thesis
    by (simp add: root_def println_def resp_simps reply_status_def)
qed

theorem dig_discloses_any_file_witness:
  "\<exists>resp. root (local_config offline)
     \<lparr>req_method = ''GET'', url_path = ''/dig'', url_query = [(''q'', ''../../../etc:shadow''), (''short'', ''true'')],
      req_header = [], req_body = []\<rparr> (new_registry ''/var/cids'' secret_disk ()) =
     (new_registry ''/var/cids'' secret_disk (), Done resp) \<and> out resp = ''root'' @ [CHR 0x0A]"
proof -
  let ?st = "new_registry ''/var/cids'' secret_disk ()"
  have s: "location (reg_cids ?st) = ''/var/cids''" "disk ?st = secret_disk"
    "cids_held ?st n t = None" for n t
    by (simp_all add: new_registry_def new_cid_store_def cids_held_def store_held_def)
  show ?thesis
    using dig_discloses_any_file [of ?st "[''etc'']" "''shadow''" "''root''" _ "local_config offline", OF _ _ _ _ _ _ _ refl]
      secret_disk_simps
    by (auto simp: s escape_name_etc key_def rooted_def plain_comp_def)
qed

text \<open>
  The lookup service never sends the CID header: for every lookup of a name with a tag
  that finds something, the reply is 200 and has no \<open>X-Docker-Content-ID\<close>, because the header
  is set after the status line was written. The body of a short lookup is the CID.
\<close>
theorem dig_omits_cid_header:
  assumes "isDig req" and "split_name (query_get req ''q'') = (name, tag)" and "name \<noteq> []" and "tag \<noteq> []"
    and "resolve cfg st name tag = (w', Some (cid # cs))" and "parse_bool (query_get req ''short'')"
  shows "\<exists>resp. root cfg req st = (st\<lparr>world := w'\<rparr>, Done resp) \<and> reply_status resp = StatusOK \<and>
    reply_header resp ''X-Docker-Content-ID'' = None \<and> out resp = cid @ [CHR 0x0A]"
proof -
  have "dig cfg req st new_response =
      (st\<lparr>world := w'\<rparr>, println cid (set_header ''X-Docker-Content-ID'' cid (write_header StatusOK new_response)))"
    using assms by (simp add: dig_def dig_found_def Let_def)
  then show ?thesis
    using assms(1) by (simp add: root_def println_def resp_simps reply_status_def reply_header_def)
qed

theorem dig_omits_cid_header_witness:
  "\<exists>resp. root (local_config offline)
     \<lparr>req_method = ''GET'', url_path = ''/dig'', url_query = [(''q'', ''a:v1''), (''short'', ''1'')], req_header = [], req_body = []\<rparr>
     (known_registry ''{}'') = (known_registry ''{}'', Done resp) \<and> reply_header resp ''X-Docker-Content-ID'' = None"
proof -
  let ?req = "\<lparr>req_method = ''GET'', url_path = ''/dig'', url_query = [(''q'', ''a:v1''), (''short'', ''1'')], req_header = [], req_body = []\<rparr>"
  have "isDig ?req" "split_name (query_get ?req ''q'') = (''a'', ''v1'')" "parse_bool (query_get ?req ''short'')"
    by (simp_all add: isDig_def split_name_def query_get_def first_value_def splitn2_def parse_bool_def Let_def)
  moreover have "resolve (local_config offline) (known_registry ''{}'') ''a'' ''v1'' = (world (known_registry ''{}''), Some [''bafy''])"
    by (rule resolve_held) simp
  ultimately show ?thesis
    using dig_omits_cid_header [of ?req "''a''" "''v1''"] by fastforce
qed

section \<open>The API root\<close>

text \<open>
  A request that is neither for a blob nor for a manifest is answered 200 exactly when
  its path is \<open>/v2\<close> or \<open>/v2/\<close>, and 404 otherwise; in both cases with the API version and
  without any effect on the server.
\<close>
theorem api_version_check:
  assumes "\<not> isDig req" and "isBlob req = Done False" and "\<not> isManifest req"
  shows "\<exists>resp. root cfg req st = (st, Done resp) \<and>
    reply_header resp ''Docker-Distribution-API-Version'' = Some ''registry/2.0'' \<and>
    reply_status resp = (if url_path req \<in> {''/v2'', ''/v2/''} then StatusOK else StatusNotFound)"
  using assms
  by (auto simp: root_v2 v2_def method_unknown_def reg_err_def reg_error_write_def resp_simps reply_status_def
      reply_header_def Let_def)

theorem api_version_check_witness:
  "\<exists>resp. root (local_config offline) \<lparr>req_method = ''GET'', url_path = ''/v2/'', url_query = [], req_header = [], req_body = []\<rparr>
     local_registry = (local_registry, Done resp) \<and> reply_status resp = StatusOK"
  using api_version_check [where req = "\<lparr>req_method = ''GET'', url_path = ''/v2/'', url_query = [], req_header = [], req_body = []\<rparr>"
      and cfg = "local_config offline" and st = local_registry]
  by (auto simp: isDig_def isBlob_def blob_elems_def isManifest_def manifest_elems_def Let_def)

section \<open>A digest as a reference\<close>

lemma manifest_get_known:
  assumes "\<not> manifests_locked st" and "repo_manifests st repo t = Some mf" and "cids_get st repo t = Some cid" and "t \<noteq> []"
    and "blob_digests (blob mf) = Done ds"
  shows "\<exists>resp. manifest_get cfg repo t st new_response =
      (foldl (\<lambda>s d. cids_add s repo d cid) (make_repo repo st) ds, resp, Done None) \<and>
    reply_status resp = StatusOK \<and> out resp = blob mf"
proof -
  have "cids_get (make_repo repo st) repo t = Some cid"
    using assms(3) by (simp add: cids_get_def frame_simps)
  then have "resolveCID cfg (make_repo repo st) repo t = (make_repo repo st, Inr cid)"
    using assms(4) by (simp add: resolveCID_held)
  then show ?thesis
    using assms(1,5) fetch_hit [OF assms(2), of cfg]
    by (simp add: manifest_get_def resp_simps reply_status_def)
qed

text \<open>What a push has put into memory is pulled from there, under its tag and its digest.\<close>

lemma pushed_manifest_served:
  assumes "\<not> manifests_locked st" and "blob_digests b = Done ms" and "u \<in> {t, compute_digest b}" and "u \<noteq> []" and "CHR ''/'' \<notin> set u"
    and "st1 = pushed_state repo t ct b ds w' cid st"
  obtains resp where "root cfg (manifest_req ''GET'' repo u ct' b') st1 =
      (foldl (\<lambda>s d. cids_add s repo d cid) (make_repo repo st1) ms, Done resp)" "reply_status resp = StatusOK" "out resp = b"
proof -
  let ?mf = "\<lparr>contentType = ct, blob = b, digest = []\<rparr>"
  have k: "\<not> manifests_locked st1" "repo_manifests st1 repo u = Some ?mf"
    using assms(1,3) by (auto simp: assms(6) frame_simps)
  have c: "cids_get st1 repo u = Some cid"
    using assms(3) pushed_state_held [where st = st, THEN rci.get_held] by (auto simp: assms(6))
  have "blob_digests (blob ?mf) = Done ms" "blob ?mf = b" using assms(2) by simp_all
  with manifest_get_known [OF k c assms(4), of ms cfg] obtain resp where
    "manifest_get cfg repo u st1 new_response = (foldl (\<lambda>s d. cids_add s repo d cid) (make_repo repo st1) ms, resp, Done None)"
    "reply_status resp = StatusOK" "out resp = b" by auto
  then show ?thesis using assms(4,5) by (intro that) (simp_all add: root_manifest route handle_manifest)
qed

text \<open>
  C9: A digest is not a safe reference. Whatever bytes \<open>b0\<close> the digest belongs to, a client can put
  a manifest with other bytes to that digest: if the layers are uploaded and IPFS takes the image,
  which has the bytes in the file \<open>manifests/<digest of b0>\<close>, the reply is 201 with the digest of the
  bytes that were sent; and a client that then pulls by the digest of \<open>b0\<close> receives them, with 200.
\<close>
theorem digest_pull_returns_other_bytes:
  assumes "\<not> manifests_locked st" and "\<not> blobs_locked st" and "\<not> is_index_type ct" and "ready_layers (reg_blobs st) repo ds"
    and "AddImage (sv cfg) (world st) (ipfsClient cfg) [compute_digest b0 \<mapsto> b, compute_digest b \<mapsto> b, ''latest'' \<mapsto> b]
           (contents (reg_blobs st) |` set ds) = (w', Inr cid)"
    and "blob_digests b = Done ms"
  shows "\<exists>st1 r1 st2 r2. root cfg (manifest_req ''PUT'' repo (compute_digest b0) ct b) st = (st1, Done r1) \<and>
    reply_status r1 = StatusCreated \<and> reply_header r1 ''Docker-Content-Digest'' = Some (compute_digest b) \<and>
    root cfg (manifest_req ''GET'' repo (compute_digest b0) ct' []) st1 = (st2, Done r2) \<and>
    reply_status r2 = StatusOK \<and> out r2 = b"
proof -
  let ?t = "compute_digest b0" and ?st1 = "pushed_state repo (compute_digest b0) ct b ds w' cid st"
  have t: "CHR ''/'' \<notin> set ?t" "?t \<noteq> []" by (rule compute_digest_no_slash compute_digest_nonempty)+
  have "manifests_handle cfg (manifest_req ''PUT'' repo ?t ct b) st new_response = (?st1, pushed_reply (compute_digest b) cid, Done None)"
    by (rule push_done [OF t(1) assms(1-4)]) (use assms(5) in \<open>simp add: manifest_refs_def\<close>)
  then have put: "root cfg (manifest_req ''PUT'' repo ?t ct b) st = (?st1, Done (pushed_reply (compute_digest b) cid))"
    using t by (simp add: root_manifest route)
  have m: "?t \<in> {?t, compute_digest b}" by (rule insertI1)
  obtain r2 where "root cfg (manifest_req ''GET'' repo ?t ct' []) ?st1 =
      (foldl (\<lambda>s d. cids_add s repo d cid) (make_repo repo ?st1) ms, Done r2)" "reply_status r2 = StatusOK" "out r2 = b"
    by (rule pushed_manifest_served [OF assms(1,6) m t(2,1) refl])
  with put pushed_reply_simps show ?thesis by blast
qed

theorem digest_pull_returns_other_bytes_witness:
  "\<exists>st1 r1 st2 r2. root (local_config adding_services) (manifest_req ''PUT'' ''a'' (compute_digest ''{}'') ''m'' small_manifest) layer_registry = (st1, Done r1) \<and>
     reply_status r1 = StatusCreated \<and>
     root (local_config adding_services) (manifest_req ''GET'' ''a'' (compute_digest ''{}'') [] []) st1 = (st2, Done r2) \<and>
     out r2 = small_manifest \<and> small_manifest \<noteq> ''{}''"
proof -
  have n: "\<not> is_index_type ''m''" by (simp add: is_index_type_def)
  have "length small_manifest \<noteq> length ''{}''" by code_simp
  then have "small_manifest \<noteq> ''{}''" by metis
  with digest_pull_returns_other_bytes [OF layer_registry_simps(1,2) n layer_registry_ready AddImage_adding small_manifest_digests,
      of "''{}''" "[]"] show ?thesis by blast
qed

section \<open>A history\<close>

text \<open>A manifest is put to a new server: it is refused, but it stays in the table.\<close>

lemma refused_put_name: "manifest_name (manifest_req ''PUT'' ''a'' ''v1'' ''m'' ''x'') = (''a'', ''v1'')"
  by code_simp


end
