(* ===== verification/Netutil.thy ===== *)
theory Netutil
  imports GoStrings "HOL-Library.Word"
begin

text \<open>
  \<open>netutil/netutil.go\<close>: the test for private addresses on 8-bit words, the choice of the
  local address among the interfaces the system reports, and the port of a host string. The
  regular expression of \<open>ExtractPort\<close> is written out as the search it stands for. What the kernel
  answers to \<open>GetFreePort\<close> is a parameter; the HTTP client, two timeouts, is left out.
\<close>

unbundle bit_operations_syntax

section \<open>Addresses\<close>

text \<open>A \<open>net.IP\<close> is a slice of 4 or 16 bytes, or nil.\<close>

type_synonym ip = "8 word list"

text \<open>\<open>IP.To4\<close>\<close>

definition To4 :: "ip \<Rightarrow> ip option" where
  "To4 ip =
     (if length ip = 4 then Some ip
      else if length ip = 16 \<and> take 10 ip = replicate 10 0 \<and> ip ! 10 = 255 \<and> ip ! 11 = 255 then Some (drop 12 ip)
      else None)"

text \<open>\<open>net.CIDRMask(n, 8 * l)\<close>, and a block: its network address and mask.\<close>

fun cidr_mask :: "nat \<Rightarrow> nat \<Rightarrow> ip" where
  "cidr_mask 0 n = []"
| "cidr_mask (Suc l) n = (if n \<ge> 8 then 255 # cidr_mask l (n - 8) else NOT (drop_bit n 255) # cidr_mask l 0)"

type_synonym ip_net = "ip \<times> ip"

definition ip_mask :: "ip \<Rightarrow> ip \<Rightarrow> ip" where
  "ip_mask ip m = map2 (AND) ip m"

definition parse_cidr :: "ip \<Rightarrow> nat \<Rightarrow> ip_net" where
  "parse_cidr ip n = (let m = cidr_mask 4 n in (ip_mask ip m, m))"

text \<open>\<open>IPNet.Contains\<close>\<close>

definition Contains :: "ip_net \<Rightarrow> ip \<Rightarrow> bool" where
  "Contains block ip =
     (let x = (case To4 ip of Some y \<Rightarrow> y | None \<Rightarrow> ip) in
      length x = length (fst block) \<and> ip_mask (fst block) (snd block) = ip_mask x (snd block))"

definition private_blocks :: "ip_net list" where
  "private_blocks = [parse_cidr [10, 0, 0, 0] 8, parse_cidr [172, 16, 0, 0] 12, parse_cidr [192, 168, 0, 0] 16]"

definition isPrivateIP :: "ip \<Rightarrow> bool" where
  "isPrivateIP ip = list_ex (\<lambda>block. Contains block ip) private_blocks"

text \<open>
  \<open>net.Interfaces()\<close> and the addresses of each, as the system reports them. An address that
  is neither of the two types leaves \<open>ip\<close> nil.
\<close>

datatype net_addr = IPNet ip | IPAddr ip | OtherAddr

fun addr_ip :: "net_addr \<Rightarrow> ip" where
  "addr_ip (IPNet ip) = ip"
| "addr_ip (IPAddr ip) = ip"
| "addr_ip OtherAddr = []"

fun scan_ifaces :: "net_addr list result list \<Rightarrow> ip result" where
  "scan_ifaces [] = Inl (GoError ''no IP'')"
| "scan_ifaces (Inl e # is) = Inl e"
| "scan_ifaces (Inr addrs # is) =
     (case filter isPrivateIP (map addr_ip addrs) of ip # _ \<Rightarrow> Inr ip | [] \<Rightarrow> scan_ifaces is)"

definition LocalIP :: "net_addr list result list result \<Rightarrow> ip result" where
  "LocalIP ifaces = (case ifaces of Inl e \<Rightarrow> Inl e | Inr is \<Rightarrow> scan_ifaces is)"

text \<open>\<open>IP.String()\<close> of an IPv4 address\<close>

definition ip4_string :: "ip \<Rightarrow> string" where
  "ip4_string ip = join ''.'' (map (\<lambda>b. nat_str (unat b)) ip)"

text \<open>
  \<open>GetFreePort\<close>: \<open>resolve_tcp\<close> and \<open>listen_tcp\<close> are \<open>net.ResolveTCPAddr\<close> and the port that
  \<open>net.ListenTCP\<close> was given; the listener is closed again.
\<close>

definition ip_string :: "ip \<Rightarrow> string" where
  "ip_string ip = ip4_string (case To4 ip of Some x \<Rightarrow> x | None \<Rightarrow> ip)"

definition GetFreePort :: "net_addr list result list result \<Rightarrow> (string \<Rightarrow> 'a result) \<Rightarrow> ('w \<Rightarrow> 'a \<Rightarrow> 'w \<times> int result) \<Rightarrow> 'w \<Rightarrow> 'w \<times> int result" where
  "GetFreePort ifaces resolve_tcp listen_tcp w =
     (case LocalIP ifaces of
        Inl e \<Rightarrow> (w, Inl e)
      | Inr ip \<Rightarrow>
          (case resolve_tcp (ip_string ip @ '':0'') of
             Inl e \<Rightarrow> (w, Inl e)
           | Inr addr \<Rightarrow> listen_tcp w addr))"

section \<open>Ports\<close>

text \<open>
  \<open>(.*:)?(\d+)\<close>: at each start, the group takes as much of the line as it can, so the match
  ends with the digits after the last colon that is followed by a digit; without such a
  colon the digits must stand at the start itself.
\<close>

fun after_colon :: "string \<Rightarrow> string option" where
  "after_colon [] = None"
| "after_colon (c # cs) =
     (if c = CHR 0x0A then None
      else case after_colon cs of
        Some p \<Rightarrow> Some p
      | None \<Rightarrow> if c = CHR '':'' \<and> takeWhile is_digit cs \<noteq> [] then Some (takeWhile is_digit cs) else None)"

fun port_match :: "string \<Rightarrow> string option" where
  "port_match [] = None"
| "port_match (c # cs) =
     (case after_colon (c # cs) of
        Some p \<Rightarrow> Some p
      | None \<Rightarrow> if is_digit c then Some (takeWhile is_digit (c # cs)) else port_match cs)"

text \<open>\<open>strconv.ParseUint(s, 10, 64)\<close> of digits, its error ignored: the maximum if it does not fit.\<close>

definition parse_uint64 :: "string \<Rightarrow> 64 word" where
  "parse_uint64 s = (if str_nat s < 2 ^ 64 then of_nat (str_nat s) else - 1)"

definition ExtractPort :: "string \<Rightarrow> 64 word" where
  "ExtractPort host = (case port_match host of None \<Rightarrow> 0 | Some s \<Rightarrow> parse_uint64 s)"

section \<open>Private addresses\<close>

text \<open>The address as a number.\<close>

definition ip_num :: "ip \<Rightarrow> nat" where
  "ip_num ip = foldl (\<lambda>n b. n * 256 + unat b) 0 ip"

lemma and_not_mask: "b AND NOT (mask n) = push_bit n (drop_bit n (b :: 8 word))"
  by (rule bit_word_eqI) (auto simp: bit_simps)

lemma mask_byte: "b AND 240 = 16 \<longleftrightarrow> unat (b :: 8 word) div 16 = 1"
proof -
  have m: "(240 :: 8 word) = NOT (mask 4)" by (simp add: mask_eq_exp_minus_1)
  have "b AND 240 = 16 \<longleftrightarrow> drop_bit 4 b = 1"
  proof
    assume "b AND 240 = 16"
    then have "drop_bit 4 (b AND NOT (mask 4)) = drop_bit 4 16" by (simp only: m)
    moreover have "drop_bit 4 (b AND NOT (mask 4)) = drop_bit 4 b"
      by (rule bit_word_eqI) (auto simp: bit_simps dest: bit_imp_le_length)
    ultimately show "drop_bit 4 b = 1" by simp
  next
    assume "drop_bit 4 b = 1"
    then show "b AND 240 = 16" unfolding m and_not_mask by simp
  qed
  also have "\<dots> \<longleftrightarrow> unat b div 16 = 1" by (simp add: word_unat_eq_iff unat_drop_bit_eq drop_bit_eq_div unat_div_distrib)
  finally show ?thesis .
qed

lemma cidr_masks: "cidr_mask 4 8 = [255, 0, 0, 0]" "cidr_mask 4 12 = [255, 240, 0, 0]" "cidr_mask 4 16 = [255, 255, 0, 0]"
  by code_simp+

lemma private_blocks_eq:
  "private_blocks = [([10, 0, 0, 0], [255, 0, 0, 0]), ([172, 16, 0, 0], [255, 240, 0, 0]), ([192, 168, 0, 0], [255, 255, 0, 0])]"
  by (simp add: private_blocks_def parse_cidr_def ip_mask_def cidr_masks)

lemma byte_and_ones [simp]: "(b :: 8 word) AND 255 = b"
proof -
  have "(255 :: 8 word) = - 1" by simp
  then show ?thesis by (simp only: and.right_neutral)
qed

lemma isPrivate4:
  "isPrivateIP [a, b, c, d] \<longleftrightarrow> a = 10 \<or> a = 172 \<and> unat b div 16 = 1 \<or> a = 192 \<and> b = 168"
  by (auto simp: isPrivateIP_def private_blocks_eq Contains_def To4_def ip_mask_def mask_byte)

lemma To4_cases:
  "To4 ip = Some x \<longleftrightarrow> length x = 4 \<and> (ip = x \<or> ip = replicate 10 0 @ [255, 255] @ x)"
proof -
  have "take 10 ip = replicate 10 0 \<and> ip ! 10 = 255 \<and> ip ! 11 = 255 \<and> drop 12 ip = x \<longleftrightarrow> ip = replicate 10 0 @ [255, 255] @ x"
    if "length ip = 16" "length x = 4"
  proof
    assume a: "take 10 ip = replicate 10 0 \<and> ip ! 10 = 255 \<and> ip ! 11 = 255 \<and> drop 12 ip = x"
    have "ip = take 10 ip @ ip ! 10 # ip ! 11 # drop 12 ip"
      using that(1) id_take_nth_drop [of 10 ip] Cons_nth_drop_Suc [of 11 ip] by (simp add: numeral_eq_Suc)
    with a show "ip = replicate 10 0 @ [255, 255] @ x" by simp
  qed (simp add: nth_append)
  then show ?thesis by (auto simp: To4_def)
qed

lemma isPrivate_To4: "isPrivateIP ip \<longleftrightarrow> (\<exists>x. To4 ip = Some x \<and> isPrivateIP x)"
proof (cases "To4 ip")
  case None
  then have "length ip \<noteq> 4" by (auto simp: To4_def split: if_splits)
  with None show ?thesis by (auto simp: isPrivateIP_def private_blocks_eq Contains_def)
next
  case (Some x)
  then have "To4 x = Some x" using To4_cases [of ip x] by (simp add: To4_def)
  with Some show ?thesis by (simp add: isPrivateIP_def private_blocks_eq Contains_def)
qed

lemma block_range:
  fixes lo M A R :: nat
  assumes "R < M"
  shows "lo * M \<le> A * M + R \<and> A * M + R \<le> lo * M + (M - 1) \<longleftrightarrow> A = lo"
proof -
  have "(A * M + R) div M = A" using assms by simp
  moreover have "lo * M \<le> N \<and> N \<le> lo * M + (M - 1) \<longleftrightarrow> N div M = lo" for N
  proof
    assume n: "lo * M \<le> N \<and> N \<le> lo * M + (M - 1)"
    then have "N = lo * M + (N - lo * M)" "N - lo * M < M" using assms by auto
    then show "N div M = lo" using assms by (metis add.right_neutral div_less div_mult_self3 not_less_zero)
  next
    assume "N div M = lo"
    then have "N = lo * M + N mod M" using div_mult_mod_eq [of N M] by simp
    moreover have "N mod M < M" using assms by simp
    ultimately show "lo * M \<le> N \<and> N \<le> lo * M + (M - 1)" by linarith
  qed
  ultimately show ?thesis by metis
qed

lemma digit_pair:
  fixes A q A' q' M :: nat
  assumes "q < M" and "q' < M"
  shows "A = A' \<and> q = q' \<longleftrightarrow> A * M + q = A' * M + q'"
proof
  assume eq: "A * M + q = A' * M + q'"
  have "(A * M + q) div M = A" "(A' * M + q') div M = A'" "(A * M + q) mod M = q" "(A' * M + q') mod M = q'"
    using assms by simp_all
  with eq show "A = A' \<and> q = q'" by metis
qed simp

lemma ip_num_splits:
  "ip_num [a, b, c, d] = unat a * 16777216 + (unat b * 65536 + unat c * 256 + unat d)"
  "ip_num [a, b, c, d] = (unat a * 16 + unat b div 16) * 1048576 + (unat b mod 16 * 65536 + unat c * 256 + unat d)"
  "ip_num [a, b, c, d] = (unat a * 256 + unat b) * 65536 + (unat c * 256 + unat d)"
proof -
  define q r where "q = unat b div 16" and "r = unat b mod 16"
  have "unat b = q * 16 + r" unfolding q_def r_def by simp
  then show "ip_num [a, b, c, d] = (unat a * 16 + unat b div 16) * 1048576 + (unat b mod 16 * 65536 + unat c * 256 + unat d)"
    unfolding q_def [symmetric] r_def [symmetric] by (simp add: ip_num_def)
qed (simp_all add: ip_num_def)

lemma byte_less: "unat (b :: 8 word) < 256"
proof -
  have "unat b < 2 ^ LENGTH(8)" by (rule unsigned_less)
  then show ?thesis by simp
qed

lemma ip_num_blocks:
  "ip_num [10, 0, 0, 0] \<le> ip_num [a, b, c, d] \<and> ip_num [a, b, c, d] \<le> ip_num [10, 255, 255, 255] \<longleftrightarrow> unat a = 10"
  "ip_num [172, 16, 0, 0] \<le> ip_num [a, b, c, d] \<and> ip_num [a, b, c, d] \<le> ip_num [172, 31, 255, 255] \<longleftrightarrow>
     unat a * 16 + unat b div 16 = 2753"
  "ip_num [192, 168, 0, 0] \<le> ip_num [a, b, c, d] \<and> ip_num [a, b, c, d] \<le> ip_num [192, 168, 255, 255] \<longleftrightarrow>
     unat a * 256 + unat b = 49320"
proof -
  note lt = byte_less [of b] byte_less [of c] byte_less [of d]
  show "ip_num [10, 0, 0, 0] \<le> ip_num [a, b, c, d] \<and> ip_num [a, b, c, d] \<le> ip_num [10, 255, 255, 255] \<longleftrightarrow> unat a = 10"
    unfolding ip_num_splits(1) [of a] using block_range [of "unat b * 65536 + unat c * 256 + unat d" 16777216 10 "unat a"] lt
    by (simp add: ip_num_def)
  have "unat b mod 16 < 16" by simp
  then show "ip_num [172, 16, 0, 0] \<le> ip_num [a, b, c, d] \<and> ip_num [a, b, c, d] \<le> ip_num [172, 31, 255, 255] \<longleftrightarrow>
     unat a * 16 + unat b div 16 = 2753"
    unfolding ip_num_splits(2) [of a]
    using block_range [of "unat b mod 16 * 65536 + unat c * 256 + unat d" 1048576 2753 "unat a * 16 + unat b div 16"] lt
    by (simp add: ip_num_def)
  show "ip_num [192, 168, 0, 0] \<le> ip_num [a, b, c, d] \<and> ip_num [a, b, c, d] \<le> ip_num [192, 168, 255, 255] \<longleftrightarrow>
     unat a * 256 + unat b = 49320"
    unfolding ip_num_splits(3) [of a] using block_range [of "unat c * 256 + unat d" 65536 49320 "unat a * 256 + unat b"] lt
    by (simp add: ip_num_def)
qed

text \<open>
  C25: \<open>isPrivateIP\<close> accepts exactly the three ranges of RFC 1918, 10.0.0.0 to
  10.255.255.255, 172.16.0.0 to 172.31.255.255 and 192.168.0.0 to 192.168.255.255, whether
  the address is held in four bytes or mapped into sixteen; nil and every other address is
  refused.
\<close>
theorem private_ip_ranges:
  "isPrivateIP ip \<longleftrightarrow>
     (\<exists>x. length x = 4 \<and> (ip = x \<or> ip = replicate 10 0 @ [255, 255] @ x) \<and>
        (ip_num [10, 0, 0, 0] \<le> ip_num x \<and> ip_num x \<le> ip_num [10, 255, 255, 255] \<or>
         ip_num [172, 16, 0, 0] \<le> ip_num x \<and> ip_num x \<le> ip_num [172, 31, 255, 255] \<or>
         ip_num [192, 168, 0, 0] \<le> ip_num x \<and> ip_num x \<le> ip_num [192, 168, 255, 255]))"
proof -
  have "isPrivateIP x \<longleftrightarrow>
      (ip_num [10, 0, 0, 0] \<le> ip_num x \<and> ip_num x \<le> ip_num [10, 255, 255, 255] \<or>
       ip_num [172, 16, 0, 0] \<le> ip_num x \<and> ip_num x \<le> ip_num [172, 31, 255, 255] \<or>
       ip_num [192, 168, 0, 0] \<le> ip_num x \<and> ip_num x \<le> ip_num [192, 168, 255, 255])"
    if x: "length x = 4" for x
  proof -
    obtain a b c d where abcd: "x = [a, b, c, d]"
      using x by (auto simp: numeral_eq_Suc length_Suc_conv)
    have e: "a = 10 \<longleftrightarrow> unat a = 10" "a = 172 \<longleftrightarrow> unat a = 172" "a = 192 \<longleftrightarrow> unat a = 192" "b = 168 \<longleftrightarrow> unat b = 168"
      by (simp_all add: word_unat_eq_iff)
    have "unat a = 172 \<and> unat b div 16 = 1 \<longleftrightarrow> unat a * 16 + unat b div 16 = 172 * 16 + 1"
      using byte_less [of b] by (intro digit_pair) simp_all
    moreover have "unat a = 192 \<and> unat b = 168 \<longleftrightarrow> unat a * 256 + unat b = 192 * 256 + 168"
      using byte_less [of b] by (intro digit_pair) simp_all
    ultimately have "unat a = 172 \<and> unat b div 16 = 1 \<longleftrightarrow> unat a * 16 + unat b div 16 = 2753"
      "unat a = 192 \<and> unat b = 168 \<longleftrightarrow> unat a * 256 + unat b = 49320" by simp_all
    then show ?thesis unfolding abcd isPrivate4 e ip_num_blocks by blast
  qed
  then show ?thesis unfolding isPrivate_To4 [of ip] To4_cases conj_assoc
    by (intro iff_exI conj_cong refl)
qed

section \<open>The port of a host\<close>

lemma takeWhile_digits: "list_all is_digit p \<Longrightarrow> takeWhile is_digit p = p"
  by (induction p) auto

lemma not_digit [simp]: "\<not> is_digit (CHR '':'')" "\<not> is_digit (CHR 0x0A)" "\<not> is_digit (CHR ''.'')"
  by (simp_all add: is_digit_def)

lemma after_colon_digits: "list_all is_digit p \<Longrightarrow> after_colon p = None"
  by (induction p) (auto simp: is_digit_def)

lemma after_colon_host:
  "CHR 0x0A \<notin> set h \<Longrightarrow> list_all is_digit p \<Longrightarrow> p \<noteq> [] \<Longrightarrow> after_colon (h @ CHR '':'' # p) = Some p"
  by (induction h) (auto simp: after_colon_digits takeWhile_digits)

lemma port_match_host:
  assumes "CHR 0x0A \<notin> set h" and "list_all is_digit p" and "p \<noteq> []"
  shows "port_match (h @ '':'' @ p) = Some p"
proof -
  obtain c cs where c: "h @ '':'' @ p = c # cs" by (cases "h @ '':'' @ p") simp_all
  have "after_colon (h @ '':'' @ p) = Some p" using after_colon_host [OF assms] by simp
  then show ?thesis unfolding c by simp
qed

lemma after_colon_None: "CHR '':'' \<notin> set s \<Longrightarrow> after_colon s = None"
  by (induction s) auto

lemma port_match_plain:
  assumes "CHR '':'' \<notin> set (p @ t)" and "list_all is_digit p" and "p \<noteq> []" and "t = [] \<or> \<not> is_digit (hd t)"
  shows "port_match (p @ t) = Some p"
proof -
  obtain c cs where c: "p = c # cs" using assms(3) by (cases p) auto
  have "takeWhile is_digit (p @ t) = p @ takeWhile is_digit t"
    using assms(2) by (induction p) auto
  also have "takeWhile is_digit t = []" using assms(4) by (cases t) auto
  finally have t: "takeWhile is_digit (p @ t) = p" by simp
  have "is_digit c" using assms(2) c by simp
  moreover have "after_colon (p @ t) = None" using assms(1) by (rule after_colon_None)
  ultimately show ?thesis using t unfolding c by simp
qed

lemma parse_uint64_nat_str: "unat (parse_uint64 (nat_str n)) = min n (2 ^ 64 - 1)"
proof (cases "n < 2 ^ 64")
  case True
  then have "unat (of_nat n :: 64 word) = n" by (simp add: unsigned_of_nat take_bit_nat_eq_self)
  with True show ?thesis by (simp add: parse_uint64_def str_simps)
next
  case False
  have "unat (- 1 :: 64 word) = 2 ^ 64 - 1" by (simp add: unsigned_minus_1_eq_mask mask_eq_exp_minus_1)
  with False show ?thesis by (simp add: parse_uint64_def str_simps)
qed

text \<open>
  C26: \<open>ExtractPort\<close> of \<open>host:port\<close> is the port, for any host without a line break (IPv6
  addresses and user names included) and any port that fits 64 bits; a larger number is not
  an error but comes back as the largest 64-bit value, and a name without digits as 0.
\<close>
theorem extract_port_spec:
  assumes "CHR 0x0A \<notin> set h"
  shows "unat (ExtractPort (h @ '':'' @ nat_str n)) = min n (2 ^ 64 - 1)"
proof -
  have m: "port_match (h @ '':'' @ nat_str n) = Some (nat_str n)"
    using assms nat_str_digits by (intro port_match_host) auto
  then show ?thesis by (simp only: ExtractPort_def option.case parse_uint64_nat_str)
qed

theorem extract_port_spec_witness:
  "unat (ExtractPort (''docker.local'' @ '':'' @ nat_str 5000)) = 5000 \<and>
   unat (ExtractPort (''h'' @ '':'' @ nat_str (2 ^ 70))) = 2 ^ 64 - 1"
  using extract_port_spec [of "''docker.local''" 5000] extract_port_spec [of "''h''" "2 ^ 70"] by simp

text \<open>
  Without a configured host the client uses the machine's own address, which has no
  port, and \<open>ExtractPort\<close> then takes the first number of the address for the port: the
  server that \<open>PullImage\<close> starts listens on 10, 172 or 192 instead of 5000.
\<close>
theorem local_ip_port:
  assumes "LocalIP ifaces = Inr ip" and "To4 ip = Some [a, b, c, d]"
  shows "unat (ExtractPort (ip4_string [a, b, c, d])) = unat a \<and> a \<in> {10, 172, 192}"
proof
  have np: "CHR '':'' \<notin> set (nat_str n)" for n using nat_str_digits [of n] by (auto simp: list_all_iff)
  have s: "ip4_string [a, b, c, d] = nat_str (unat a) @ ''.'' @ nat_str (unat b) @ ''.'' @ nat_str (unat c) @ ''.'' @ nat_str (unat d)"
    by (simp add: ip4_string_def)
  have "port_match (ip4_string [a, b, c, d]) = Some (nat_str (unat a))"
    unfolding s using np nat_str_digits by (intro port_match_plain) auto
  then have "unat (ExtractPort (ip4_string [a, b, c, d])) = min (unat a) (2 ^ 64 - 1)"
    by (simp only: ExtractPort_def option.case parse_uint64_nat_str)
  with byte_less [of a] show "unat (ExtractPort (ip4_string [a, b, c, d])) = unat a" by simp
  have "scan_ifaces is = Inr ip \<Longrightarrow> isPrivateIP ip" for "is"
    by (induction "is" rule: scan_ifaces.induct) (auto split: list.splits simp: filter_eq_Cons_iff)
  then have "isPrivateIP ip" using assms(1) by (auto simp: LocalIP_def split: sum.splits)
  then have "isPrivateIP [a, b, c, d]" using assms(2) isPrivate_To4 [of ip] by simp
  then show "a \<in> {10, 172, 192}" by (auto simp: isPrivate4)
qed

theorem local_ip_port_witness:
  "LocalIP (Inr [Inr [IPNet [127, 0, 0, 1], IPAddr [192, 168, 0, 7]]]) = Inr [192, 168, 0, 7] \<and>
   unat (ExtractPort ''192.168.0.7'') = 192"
proof -
  have l: "LocalIP (Inr [Inr [IPNet [127, 0, 0, 1], IPAddr [192, 168, 0, 7]]]) = Inr [192, 168, 0, 7]"
    by (simp add: LocalIP_def isPrivate4)
  have "ip4_string [192, 168, 0, 7] = ''192.168.0.7''" by code_simp
  with local_ip_port [OF l, of 192 168 0 7] l show ?thesis by (simp add: To4_def)
qed

end
