(* ===== verification/Server.thy ===== *)
theory Server
  imports Registry Urls Netutil
begin

text \<open>
  \<open>server/server.go\<close>: the configuration of the server, starting it, and the way of a
  request through \<open>http.ServeMux\<close>, which cleans paths, to the health check or the registry.
  Waiting for connections and TLS are not modelled.
\<close>

section \<open>The server and its configuration\<close>

record server =
  srv_debug :: bool
  srv_listening :: bool
  srv_host :: string
  srv_ipfsHost :: string
  srv_ipfsGateway :: string
  srv_cidResolvers :: "string list"
  srv_cidStorePath :: string
  srv_tlsCertPath :: string
  srv_tlsKeyPath :: string

record server_config =
  sc_Debug :: bool
  sc_Port :: "64 word"
  sc_IPFSHost :: string
  sc_IPFSGateway :: string
  sc_CIDResolvers :: "string list"
  sc_CIDStorePath :: string
  sc_TLSCertPath :: string
  sc_TLSKeyPath :: string

definition zero_server_config :: server_config where
  "zero_server_config =
     \<lparr>sc_Debug = False, sc_Port = 0, sc_IPFSHost = [], sc_IPFSGateway = [], sc_CIDResolvers = [],
      sc_CIDStorePath = [], sc_TLSCertPath = [], sc_TLSKeyPath = []\<rparr>"

text \<open>\<open>NewServer\<close>; a nil configuration is \<open>None\<close>, and a gateway that does not parse panics.\<close>

definition NewServer :: "server_config option \<Rightarrow> server outcome" where
  "NewServer config =
     (let c = (case config of None \<Rightarrow> zero_server_config | Some c \<Rightarrow> c);
          port = (if sc_Port c \<noteq> 0 then sc_Port c else 5000)
      in case NormalizeGatewayURL (sc_IPFSGateway c) of
           Done gw \<Rightarrow>
             Done \<lparr>srv_debug = sc_Debug c, srv_listening = False, srv_host = ''0.0.0.0:'' @ nat_str (unat port),
                   srv_ipfsHost = sc_IPFSHost c, srv_ipfsGateway = gw, srv_cidResolvers = sc_CIDResolvers c,
                   srv_cidStorePath = sc_CIDStorePath c, srv_tlsCertPath = sc_TLSCertPath c, srv_tlsKeyPath = sc_TLSKeyPath c\<rparr>
         | Panicked \<Rightarrow> Panicked
         | Blocked \<Rightarrow> Blocked)"

text \<open>
  \<open>Start\<close> up to serving. The handlers go into the process-wide \<open>http.DefaultServeMux\<close>, here
  \<open>mux\<close>, the registry it leads to, if there is one: a second registration panics. \<open>lst\<close> is
  the outcome of \<open>net.Listen\<close>.
\<close>

type_synonym 'w mux = "('w reg_config \<times> 'w registry) option"

definition reg_Config :: "server \<Rightarrow> config" where
  "reg_Config s =
     \<lparr>IPFSHost = srv_ipfsHost s, cfg_gateway = srv_ipfsGateway s, CIDResolvers = srv_cidResolvers s,
      CIDStorePath = srv_cidStorePath s\<rparr>"

definition Start :: "'w services \<Rightarrow> (string \<Rightarrow> go_error option) \<Rightarrow> file_system \<Rightarrow> 'w \<Rightarrow> 'w mux \<Rightarrow> server \<Rightarrow>
    ('w \<times> 'w mux \<times> server) \<times> go_error option outcome" where
  "Start svc lst fs w mux s =
     (if srv_listening s then ((w, mux, s), Done None)
      else if mux \<noteq> None then ((w, mux, s), Panicked)
      else (case New svc fs w (reg_Config s) of
              (w', Done reg) \<Rightarrow>
                (case lst (srv_host s) of
                   Some e \<Rightarrow> ((w', Some reg, s), Done (Some e))
                 | None \<Rightarrow> ((w', Some reg, s\<lparr>srv_listening := True\<rparr>), Done None))
            | (w', Panicked) \<Rightarrow> ((w', mux, s), Panicked)
            | (w', Blocked) \<Rightarrow> ((w', mux, s), Blocked)))"

text \<open>\<open>Stop\<close>: whether the listener is closed. The field still holds it afterwards.\<close>

definition Stop :: "server \<Rightarrow> server \<times> bool" where
  "Stop s = (s, srv_listening s)"

text \<open>So a server that was stopped cannot be started again: \<open>Start\<close> takes it for a running one.\<close>

lemma stopped_server_stays_down:
  assumes "Start svc lst fs w mux s = ((w1, mux1, s1), Done None)" and "Stop s1 = (s2, c)"
  shows "c \<and> Start svc' lst' fs' w2 mux2 s2 = ((w2, mux2, s2), Done None)"
  using assms by (auto simp: Start_def Stop_def split: if_splits prod.splits outcome.splits option.splits)

definition use_tls :: "server \<Rightarrow> bool" where
  "use_tls s = (srv_tlsKeyPath s \<noteq> [] \<and> srv_tlsCertPath s \<noteq> [])"

text \<open>The default port in decimal.\<close>

lemma nat_str_5000: "nat_str 5000 = ''5000''"
proof -
  have "digit_char 5 = CHR ''5''" "digit_char 0 = CHR ''0''" by code_simp+
  then show ?thesis by (simp add: nat_str.simps)
qed

section \<open>Routing\<close>

text \<open>\<open>cleanPath\<close> of \<open>net/http\<close>: \<open>path.Clean\<close> of a rooted path, with its final slash kept.\<close>

definition cleanPath :: "string \<Rightarrow> string" where
  "cleanPath p =
     (if p = [] then ''/''
      else let q = (if rooted p then p else CHR ''/'' # p); np = path_clean q in
        if last q = CHR ''/'' \<and> np \<noteq> ''/'' then np @ ''/'' else np)"

datatype route = Health | ToRegistry | MovedTo string | NoRoute | BadRequest

text \<open>\<open>CONNECT\<close> requests are not cleaned.\<close>

definition serve_mux :: "request \<Rightarrow> route" where
  "serve_mux req =
     (let p = url_path req in
      if p = ''*'' then BadRequest
      else if req_method req \<noteq> ''CONNECT'' \<and> cleanPath p \<noteq> p then MovedTo (cleanPath p)
      else if p = ''/health'' then Health
      else if rooted p then ToRegistry else NoRoute)"

text \<open>
  The reply to a request. A redirect names the cleaned path; its query and the short HTML
  body are left out.
\<close>

definition serve :: "'w reg_config \<Rightarrow> request \<Rightarrow> 'w registry \<Rightarrow> 'w registry \<times> response outcome" where
  "serve cfg req st =
     (case serve_mux req of
        Health \<Rightarrow> (st, Done (println ''OK'' new_response))
      | ToRegistry \<Rightarrow> root cfg req st
      | MovedTo p \<Rightarrow> (st, Done (write_header 301 (set_header ''Location'' p new_response)))
      | NoRoute \<Rightarrow> (st, Done (write_header StatusNotFound new_response))
      | BadRequest \<Rightarrow> (st, Done (write_header StatusBadRequest new_response)))"

section \<open>Clean paths\<close>

text \<open>Components that a cleaned path can have: plain ones, then possibly an empty one.\<close>

definition clean_elems :: "string list \<Rightarrow> bool" where
  "clean_elems cs \<longleftrightarrow> list_all plain_comp (butlast cs) \<and> (cs = [] \<or> last cs = [] \<or> plain_comp (last cs))"

lemma clean_elems_abs_path:
  assumes "list_all plain_comp cs"
  shows "clean_elems (tl (split_on (CHR ''/'') (abs_path cs)))"
    "cs \<noteq> [] \<Longrightarrow> clean_elems (tl (split_on (CHR ''/'') (abs_path cs @ ''/'')))"
proof -
  show "clean_elems (tl (split_on (CHR ''/'') (abs_path cs)))"
    using assms by (auto simp: split_abs_path clean_elems_def list_all_iff dest: in_set_butlastD)
  assume "cs \<noteq> []"
  then show "clean_elems (tl (split_on (CHR ''/'') (abs_path cs @ ''/'')))"
    using assms split_on_append_sep [of "CHR ''/''" "abs_path cs" "[]"] by (simp add: split_abs_path clean_elems_def)
qed

lemma cleanPath_elems: "clean_elems (tl (split_on (CHR ''/'') (cleanPath p)))"
proof (cases "p = []")
  case True
  then show ?thesis by (simp add: cleanPath_def clean_elems_def)
next
  case False
  define q where "q = (if rooted p then p else CHR ''/'' # p)"
  have "rooted q" by (simp add: q_def rooted_def)
  then have np: "path_clean q = abs_path (clean_path_comps q)" by (rule path_clean_rooted)
  have c: "cleanPath p = (if last q = CHR ''/'' \<and> abs_path (clean_path_comps q) \<noteq> ''/''
      then abs_path (clean_path_comps q) @ ''/'' else abs_path (clean_path_comps q))"
    using False unfolding cleanPath_def Let_def q_def [symmetric] np by (simp only: if_False)
  show ?thesis
  proof (cases "clean_path_comps q = []")
    case True
    then show ?thesis unfolding c by (simp add: abs_path_def clean_elems_def)
  next
    case ne: False
    note el = clean_elems_abs_path [OF clean_path_comps_plain [of q]]
    show ?thesis
      using el(1) el(2) [OF ne] unfolding c by (simp only: simp_thms split: if_split)
  qed
qed

lemma served_elems:
  assumes "serve_mux req = ToRegistry" and "req_method req \<noteq> ''CONNECT''"
  shows "rooted (url_path req)" and "clean_elems (tl (split_on (CHR ''/'') (url_path req)))"
proof -
  have "cleanPath (url_path req) = url_path req" "rooted (url_path req)"
    using assms by (auto simp: serve_mux_def Let_def split: if_splits)
  with cleanPath_elems [of "url_path req"] show "rooted (url_path req)" "clean_elems (tl (split_on (CHR ''/'') (url_path req)))"
    by simp_all
qed

lemma clean_elems_plain:
  assumes "clean_elems cs" and "x \<in> set (slice a (length cs - Suc b) cs)"
  shows "plain_comp x"
proof -
  have "x \<in> set (take (length cs - Suc b) cs)" using assms(2) by (auto simp: slice_def dest: in_set_dropD)
  then have "x \<in> set (butlast cs)"
    by (auto simp: butlast_conv_take dest!: set_take_subset_set_take [of "length cs - Suc b" "length cs - 1" cs, THEN subsetD, rotated])
  with assms(1) show ?thesis by (simp add: clean_elems_def list_all_iff)
qed

text \<open>
  C23: A manifest request that \<open>net/http\<close> hands to the registry cannot leave the CID store if the
  name of its repository has no colon. For such a request that passes \<open>ServeMux\<close>, by any method
  but \<open>CONNECT\<close> (whose paths are not cleaned), the store looks the name and the reference up in a
  file strictly below its own directory. (A lookup by \<open>/dig\<close> takes its name from the query, which
  is not cleaned either.)
\<close>
theorem served_manifest_confined:
  assumes "serve_mux req = ToRegistry" and "req_method req \<noteq> ''CONNECT''" and "isManifest req"
    and "elems = manifest_elems (url_path req)" and "repo = join ''/'' (slice 1 (length elems - 2) elems)"
    and "ref = from_end elems 1" and "ref \<noteq> []" and "CHR '':'' \<notin> set repo"
    and "rooted loc" and "fs_key fs (cid_path loc (key repo ref)) = Some k"
  shows "strict_prefix (clean_path_comps loc) k"
proof -
  have el: "clean_elems elems" using served_elems(2) [OF assms(1,2)] by (simp add: assms(4) manifest_elems_def)
  have len: "4 \<le> length elems" using assms(3,4) by (simp add: isManifest_def Let_def)
  let ?mid = "slice 1 (length elems - 2) elems"
  have mid: "list_all plain_comp ?mid"
    using clean_elems_plain [OF el, of _ 1 1] by (simp add: list_all_iff numeral_2_eq_2)
  have ne: "?mid \<noteq> []" using len by (simp add: slice_def)
  have "\<forall>x \<in> set ?mid. CHR ''/'' \<notin> set x" using mid by (auto simp: list_all_iff plain_comp_def)
  then have nc: "name_comps repo = ?mid" unfolding name_comps_def assms(5) by (rule split_on_join [OF ne])
  have "ref = last elems" using len by (cases elems rule: rev_cases) (simp_all add: assms(6) from_end_def)
  moreover have "elems \<noteq> []" using len by auto
  ultimately have ref: "plain_comp ref" using el assms(7) by (auto simp: clean_elems_def)
  have wf: "wf_name repo" using mid assms(8) by (simp add: wf_name_def nc)
  have "cid_path loc (key repo ref) = abs_path (clean_path_comps loc @ name_comps repo @ [ref])"
    by (rule cid_path_wf [OF assms(9) wf ref])
  with assms(10) have "k = clean_path_comps loc @ name_comps repo @ [ref]"
    using mid ref by (auto simp: nc intro!: fs_key_abs_path_SomeD)
  then show ?thesis by (simp add: strict_prefix_def)
qed

theorem served_manifest_confined_witness:
  "strict_prefix (clean_path_comps ''/c'') [''c'', ''lib'', ''hello'', ''v1''] \<and>
   serve_mux (manifest_req ''GET'' ''lib/../../../etc'' ''passwd'' [] []) = MovedTo ''/etc/manifests/passwd''"
proof
  let ?r = "manifest_req ''GET'' ''lib/hello'' ''v1'' [] []"
  let ?d = "fs_put (fs_put (fs_put empty_disk [''c''] Dir) [''c'', ''lib''] Dir) [''c'', ''lib'', ''hello''] Dir"
  have r: "serve_mux ?r = ToRegistry" "isManifest ?r" by code_simp+
  have e: "[''v2'', ''lib'', ''hello'', ''manifests'', ''v1''] = manifest_elems (url_path ?r)" by code_simp
  have n: "''lib/hello'' = join ''/'' (slice 1 (length [''v2'', ''lib'', ''hello'', ''manifests'', ''v1''] - 2)
      [''v2'', ''lib'', ''hello'', ''manifests'', ''v1''])" "''v1'' = from_end [''v2'', ''lib'', ''hello'', ''manifests'', ''v1''] 1"
    by (simp_all add: slice_def from_end_def)
  have k: "fs_key ?d (cid_path ''/c'' (key ''lib/hello'' ''v1'')) = Some [''c'', ''lib'', ''hello'', ''v1'']" by code_simp
  show "strict_prefix (clean_path_comps ''/c'') [''c'', ''lib'', ''hello'', ''v1'']"
    by (rule served_manifest_confined [OF r(1) _ r(2) e n _ _ _ k]) (simp_all add: manifest_req_def rooted_def)
  show "serve_mux (manifest_req ''GET'' ''lib/../../../etc'' ''passwd'' [] []) = MovedTo ''/etc/manifests/passwd''"
    by code_simp
qed

text \<open>A clean path is not redirected.\<close>

lemma abs_path_served:
  assumes "list_all plain_comp cs" and "cs \<noteq> []" and "last cs \<noteq> []" and "url_path req = abs_path cs" and "url_path req \<noteq> ''/health''"
  shows "serve_mux req = ToRegistry"
proof -
  have l: "last (abs_path cs) \<noteq> CHR ''/''"
  proof -
    obtain ds c where cs: "cs = ds @ [c]" using assms(2) by (cases cs rule: rev_cases) simp_all
    have "abs_path cs = (CHR ''/'' # (if ds = [] then [] else join ''/'' ds @ ''/'')) @ last cs"
      using join_snoc [of ds "''/''" c] by (simp add: abs_path_def cs)
    then have "last (abs_path cs) \<in> set (last cs)" using assms(3) by auto
    moreover have "plain_comp (last cs)" using assms(1,2) by (simp add: list_all_iff)
    ultimately show ?thesis by (auto simp: plain_comp_def)
  qed
  have "path_clean (abs_path cs) = abs_path cs"
    using assms(1) by (simp add: path_clean_rooted clean_path_comps_abs_path)
  with l have "cleanPath (abs_path cs) = abs_path cs" by (simp add: cleanPath_def)
  moreover have "abs_path cs \<noteq> ''*''" by (simp add: abs_path_def)
  ultimately show ?thesis using assms(4,5) by (simp add: serve_mux_def)
qed

lemma colon_path:
  assumes "rooted loc" and "clean_path_comps loc = ks @ [k]" and "plain_comp (y @ '':'' @ t)"
  shows "cid_path loc (key ('':../'' @ y) t) = abs_path (ks @ [y @ '':'' @ t])"
proof -
  let ?f = "y @ '':'' @ t" and ?q = "''..'' @ CHR ''/'' # y @ '':'' @ t"
  have "splitn2 (CHR '':'') ([] @ CHR '':'' # ?q) = [[], ?q]" by (rule splitn2_append) simp
  then have "splitn2 (CHR '':'') (key ('':../'' @ y) t) = [[], ?q]" by (simp add: key_def)
  then have "cid_path loc (key ('':../'' @ y) t) = path_clean (loc @ CHR ''/'' # [] @ CHR ''/'' # ?q)"
    using assms(1) by (auto simp: cid_path_def path_join_def rooted_def)
  also have "\<dots> = abs_path (clean_comps True [] (split_on (CHR ''/'') loc @ [[], ''..'', ?f]))"
    using assms(1,3) by (simp add: path_clean_rooted rooted_append clean_path_comps_def split_on_append_sep split_on_id plain_comp_def)
  also have "clean_comps True [] (split_on (CHR ''/'') loc @ [[], ''..'', ?f]) = ks @ [?f]"
  proof -
    have "list_all plain_comp (ks @ [k])" unfolding assms(2) [symmetric] by simp
    then have "k \<noteq> ''..''" by (simp add: plain_comp_def)
    moreover have "clean_comps True [] (split_on (CHR ''/'') loc) = ks @ [k]" using assms(2) by (simp add: clean_path_comps_def)
    ultimately show ?thesis using assms(3) by (simp add: clean_comps_append plain_comp_def)
  qed
  finally show ?thesis .
qed

text \<open>
  C24: With a colon in the name of the repository a request can leave the CID store. The key is
  cut at its first colon, so that a component \<open>:..\<close>, which \<open>ServeMux\<close> takes for a name, becomes
  \<open>..\<close> in the path of the file: \<open>/v2/:../y/manifests/t\<close> is handed to the registry, by any method, as
  a manifest request, and the file that the store reads and writes for it is \<open>y:t\<close> beside its
  own directory.
\<close>
theorem colon_name_leaves_store:
  assumes "plain_comp y" and "plain_comp t" and "rooted loc" and "clean_path_comps loc = ks @ [k]"
    and "req = manifest_req m ('':../'' @ y) t ct b"
  shows "serve_mux req = ToRegistry \<and> isManifest req \<and> manifest_name req = ('':../'' @ y, t) \<and>
    cid_path loc (key ('':../'' @ y) t) = abs_path (ks @ [y @ '':'' @ t])"
proof -
  have y: "CHR ''/'' \<notin> set y" and t: "CHR ''/'' \<notin> set t" "t \<noteq> []" using assms(1,2) by (simp_all add: plain_comp_def)
  have "CHR '':'' \<in> set (y @ '':'' @ t)" "CHR '':'' \<notin> set ''.''" "CHR '':'' \<notin> set ''..''" by simp_all
  then have "y @ '':'' @ t \<noteq> ''.''" "y @ '':'' @ t \<noteq> ''..''" by metis+
  with y t have f: "plain_comp (y @ '':'' @ t)" by (simp add: plain_comp_def)
  have r: "split_on (CHR ''/'') ('':../'' @ y) = ['':..'', y]"
    using split_on_append_sep [of "CHR ''/''" "'':..''" y] y by (simp add: split_on_id)
  have p: "url_path req = ''/v2/'' @ ('':../'' @ y) @ ''/manifests/'' @ t" by (simp add: assms(5) manifest_req_def)
  then have e: "manifest_elems (url_path req) = [''v2'', '':..'', y, ''manifests'', t]"
    using manifest_elems_path [OF t(1), of "'':../'' @ y"] unfolding r by simp
  then have n: "isManifest req" "manifest_name req = ('':../'' @ y, t)"
    by (simp_all add: isManifest_def manifest_name_def from_end_def slice_def)
  have a: "url_path req = abs_path [''v2'', '':..'', y, ''manifests'', t]" by (simp add: p abs_path_def)
  have "serve_mux req = ToRegistry"
    by (rule abs_path_served [OF _ _ _ a]) (use assms(1,2) t in \<open>simp_all add: plain_comp_def a abs_path_def\<close>)
  with n colon_path [OF assms(3,4) f] show ?thesis by simp
qed

theorem colon_name_leaves_store_witness:
  "serve_mux (manifest_req ''GET'' '':../y'' ''t'' [] []) = ToRegistry \<and> cid_path ''/c/d'' (key '':../y'' ''t'') = abs_path [''c'', ''y:t'']"
proof -
  have c: "plain_comp ''y''" "plain_comp ''t''" "rooted ''/c/d''" "clean_path_comps ''/c/d'' = [''c''] @ [''d'']" by code_simp+
  have r: "manifest_req ''GET'' '':../y'' ''t'' [] [] = manifest_req ''GET'' ('':../'' @ ''y'') ''t'' [] []" by simp
  from colon_name_leaves_store [OF c r] show ?thesis by simp
qed

end
