(* ===== verification/PushClient.thy ===== *)
theory PushClient
  imports ImageDir Untar Docker IpfsClient Server
begin

text \<open>
  The push and pull client, \<open>registry/registry.go\<close>: \<open>NewRegistry\<close>, pushing an image from
  the Docker engine (\<open>PushImageByID\<close>, \<open>TagToImageID\<close>, \<open>PushImage\<close>, \<open>uploadDir\<close>),
  downloading, and pulling through a local server (\<open>runServer\<close>, \<open>PullImage\<close>, \<open>retag\<close>). The
  file work is in \<open>ImagePrep\<close>. Reading an archive (\<open>archive/tar\<close>) and compressing are
  parameters: \<open>untars\<close> gives the entries of a stream and what follows them, and \<open>gz\<close> the
  compressed bytes.
\<close>

section \<open>The client\<close>

record 'w client =
  dockerLocalRegistryHost :: string
  cl_ipfs :: ipfs_client
  cl_docker :: "'w engine"
  cl_debug :: bool

record client_config =
  cc_DockerLocalRegistryHost :: string
  cc_IPFSHost :: string
  cc_IPFSGateway :: string
  cc_Debug :: bool

text \<open>
  \<open>env\<close> is the environment variable \<open>DOCKER_LOCAL_REGISTRY_HOST\<close>. Without a local address
  the program ends (\<open>log.Fatalf\<close>, here \<open>Panicked\<close>).
\<close>

definition registry_host :: "string \<Rightarrow> net_addr list result list result \<Rightarrow> client_config \<Rightarrow> string outcome" where
  "registry_host env ifaces c =
     (if cc_DockerLocalRegistryHost c \<noteq> [] then Done (cc_DockerLocalRegistryHost c)
      else if env \<noteq> [] then Done env
      else (case LocalIP ifaces of
              Inl e \<Rightarrow> Panicked
            | Inr ip \<Rightarrow> Done (ip_string ip)))"

definition NewRegistry :: "'w services \<Rightarrow> 'w engine result \<Rightarrow> string \<Rightarrow> net_addr list result list result \<Rightarrow> 'w \<Rightarrow>
    client_config option \<Rightarrow> 'w \<times> 'w client outcome" where
  "NewRegistry s from_env env ifaces w config =
     (let c = (case config of
                 None \<Rightarrow> \<lparr>cc_DockerLocalRegistryHost = [], cc_IPFSHost = [], cc_IPFSGateway = [], cc_Debug = False\<rparr>
               | Some c \<Rightarrow> c)
      in case registry_host env ifaces c of
           Done h \<Rightarrow>
             (case NewRemoteClient s w (cc_IPFSHost c) (cc_IPFSGateway c) of
                (w', Done cl) \<Rightarrow>
                  (case NewDockerClient from_env (Some (cc_Debug c)) of
                     Done (d, dbg) \<Rightarrow> (w', Done \<lparr>dockerLocalRegistryHost = h, cl_ipfs = cl, cl_docker = d, cl_debug = cc_Debug c\<rparr>)
                   | _ \<Rightarrow> (w', Panicked))
              | (w', Panicked) \<Rightarrow> (w', Panicked)
              | (w', Blocked) \<Rightarrow> (w', Blocked))
         | _ \<Rightarrow> (w, Panicked))"

section \<open>The image of a tag\<close>

text \<open>
  The loops of \<open>TagToImageID\<close>; both go on after the first hit, with the variable \<open>imageID\<close>
  changed, and the outer one stops at an image whose ID begins with it.
\<close>

fun tags_loop :: "string list \<Rightarrow> string \<Rightarrow> string \<Rightarrow> string" where
  "tags_loop [] i imageID = imageID"
| "tags_loop (tag # tags) i imageID =
     tags_loop tags i (if tag = imageID \<or> tag = imageID @ '':latest'' then i else imageID)"

fun images_loop :: "image_summary list \<Rightarrow> string \<Rightarrow> string" where
  "images_loop [] imageID = imageID"
| "images_loop (im # ims) imageID =
     (if has_prefix (im_ID im) imageID then imageID
      else images_loop ims (tags_loop (im_Tags im) (im_ID im) imageID))"

definition TagToImageID :: "'w client \<Rightarrow> 'w \<Rightarrow> string \<Rightarrow> 'w \<times> string result" where
  "TagToImageID r w imageID =
     (case ListImages (cl_docker r) w of
        (w', Inl e) \<Rightarrow> (w', Inl e)
      | (w', Inr images) \<Rightarrow> (w', Inr (images_loop images imageID)))"

section \<open>Pushing\<close>

text \<open>
  Ten reads of the channel of references: the first non-empty string, or, when the channel
  is closed without one, the end of the program (\<open>log.Fatal\<close>).
\<close>

definition uploadDir :: "'w services \<Rightarrow> 'w client \<Rightarrow> file_system \<Rightarrow> 'w \<Rightarrow> string \<Rightarrow> 'w \<times> string result outcome" where
  "uploadDir s r fs w rootdir =
     (case AddDir s fs w (cl_ipfs r) rootdir of
        (w1, Inl e) \<Rightarrow> (w1, Done (Inl e))
      | (w1, Inr hash) \<Rightarrow>
          (case Refs s w1 (cl_ipfs r) hash False of
             (w2, Inl e) \<Rightarrow> (w2, Done (Inl e))
           | (w2, Inr refs) \<Rightarrow>
               (case filter (\<lambda>x. x \<noteq> []) (take 10 refs) of
                  ref # _ \<Rightarrow> (w2, Done (Inr ref))
                | [] \<Rightarrow> (w2, Panicked))))"

type_synonym untarrer = "stream \<Rightarrow> tar_entry list \<times> go_error option"

definition push_image :: "'w services \<Rightarrow> (bytes \<Rightarrow> bytes) \<Rightarrow> untarrer \<Rightarrow> 'w client \<Rightarrow> file_system \<Rightarrow> 'w \<Rightarrow> stream \<Rightarrow> string \<Rightarrow>
    (file_system \<times> 'w) \<times> string result outcome" where
  "push_image s gz untars r fs w reader imageID =
     (case mktmp s fs w of
        (st, Inl e) \<Rightarrow> (st, Done (Inl e))
      | ((fs1, w1), Inr tmp) \<Rightarrow>
          (case untar fs1 (fst (untars reader)) (snd (untars reader)) tmp of
             (fs2, Some e) \<Rightarrow> ((fs2, w1), Done (Inl e))
           | (fs2, None) \<Rightarrow>
               (case ipfsPrep s gz fs2 w1 tmp imageID of
                  ((fs3, w2), Done (Inr rootdir)) \<Rightarrow>
                    (case uploadDir s r fs3 w2 rootdir of (w3, x) \<Rightarrow> ((fs3, w3), x))
                | (st, Done (Inl e)) \<Rightarrow> (st, Done (Inl e))
                | (st, Panicked) \<Rightarrow> (st, Panicked)
                | (st, Blocked) \<Rightarrow> (st, Blocked))))"

definition PushImageByID :: "'w services \<Rightarrow> (bytes \<Rightarrow> bytes) \<Rightarrow> untarrer \<Rightarrow> 'w client \<Rightarrow> file_system \<Rightarrow> 'w \<Rightarrow> string \<Rightarrow>
    (file_system \<times> 'w) \<times> string result outcome" where
  "PushImageByID s gz untars r fs w imageID =
     (case TagToImageID r w imageID of
        (w1, Inl e) \<Rightarrow> ((fs, w1), Done (Inl e))
      | (w1, Inr i) \<Rightarrow>
          (case ReadImage (cl_docker r) w1 i of
             (w2, Inl e) \<Rightarrow> ((fs, w2), Done (Inl e))
           | (w2, Inr reader) \<Rightarrow> push_image s gz untars r fs w2 reader imageID))"

section \<open>Downloading and pulling\<close>

definition DownloadImage :: "'w services \<Rightarrow> 'w client \<Rightarrow> file_system \<Rightarrow> 'w \<Rightarrow> string \<Rightarrow> (file_system \<times> 'w) \<times> string result" where
  "DownloadImage s r fs w ipfsHash =
     (case mktmp s fs w of
        (st, Inl e) \<Rightarrow> (st, Inl e)
      | ((fs1, w1), Inr tmp) \<Rightarrow>
          (let p = tmp @ ''/'' @ ipfsHash @ ''.tar'' in
           case Get s fs1 w1 (cl_ipfs r) ipfsHash p of
             ((w2, fs2), Some e) \<Rightarrow> ((fs2, w2), Inl e)
           | ((w2, fs2), None) \<Rightarrow> ((fs2, w2), Inr p)))"

text \<open>
  \<open>runServer\<close>: unless the health check answers 200, a server is made and started in the
  background; it is returned for the caller to run. It knows the gateway but no IPFS host.
\<close>

definition runServer :: "'w services \<Rightarrow> 'w client \<Rightarrow> 'w \<Rightarrow> 'w \<times> server option outcome" where
  "runServer s r w =
     (case http_get s w (''http://'' @ dockerLocalRegistryHost r @ ''/health'') of
        (w1, resp) \<Rightarrow>
          if (case resp of Inl e \<Rightarrow> False | Inr x \<Rightarrow> rp_code x = 200) then (w1, Done None)
          else (case GatewayURL s w1 (cl_ipfs r) of
                  (w2, Done gw) \<Rightarrow>
                    (case NewServer (Some (zero_server_config\<lparr>sc_Port := ExtractPort (dockerLocalRegistryHost r),
                                                         sc_Debug := cl_debug r,
                                                         sc_IPFSGateway := gw\<rparr>)) of
                       Done srv \<Rightarrow> (w2, Done (Some srv))
                     | _ \<Rightarrow> (w2, Panicked))
                | (w2, _) \<Rightarrow> (w2, Panicked)))"

definition pull_image :: "'w services \<Rightarrow> 'w client \<Rightarrow> 'w \<Rightarrow> string \<Rightarrow> 'w \<times> (server option \<times> string result) outcome" where
  "pull_image s r w ipfsHash =
     (case runServer s r w of
        (w1, Done srv) \<Rightarrow>
          (let i = dockerLocalRegistryHost r @ ''/'' @ ipfsHash in
           case Docker.PullImage (cl_docker r) w1 i of
             (w2, Some e) \<Rightarrow> (w2, Done (srv, Inl e))
           | (w2, None) \<Rightarrow> (w2, Done (srv, Inr i)))
      | (w1, Panicked) \<Rightarrow> (w1, Panicked)
      | (w1, Blocked) \<Rightarrow> (w1, Blocked))"

definition retag :: "'w client \<Rightarrow> 'w \<Rightarrow> string \<Rightarrow> string \<Rightarrow> 'w \<times> go_error option" where
  "retag r w dockerPullImageID dockerizedHash =
     (case TagImage (cl_docker r) w dockerPullImageID dockerizedHash of
        (w1, Some e) \<Rightarrow> (w1, Some e)
      | (w1, None) \<Rightarrow> RemoveImage (cl_docker r) w1 dockerPullImageID)"

section \<open>Running \<open>ipfs\<close>\<close>

text \<open>
  \<open>ipfsShellCmd\<close>, which the program does not use. \<open>Wait\<close> closes the pipes, whether or not the two
  goroutines that read them (\<open>copyio\<close>) are done: \<open>copied_out\<close> and \<open>copied_err\<close> are what they had
  copied by then.
\<close>

record shell_run =
  start_error :: "go_error option"
  wait_error :: "go_error option"
  shell_out :: bytes
  shell_err :: bytes
  copied_out :: nat
  copied_err :: nat

definition ipfsShellCmd :: "string result \<Rightarrow> (string list \<Rightarrow> shell_run) \<Rightarrow> string \<Rightarrow> (string \<times> string) result" where
  "ipfsShellCmd lookpath run cmdStr =
     (case lookpath of
        Inl e \<Rightarrow> Inl (GoError ''ipfs command was not found. Please install ipfs'')
      | Inr p \<Rightarrow>
          (let cmd = run [''sh'', ''-c'', p @ '' '' @ cmdStr] in
           case start_error cmd of
             Some e \<Rightarrow> Inl e
           | None \<Rightarrow>
               (case wait_error cmd of
                  Some e \<Rightarrow> Inl e
                | None \<Rightarrow> Inr (trim_space (take (copied_out cmd) (shell_out cmd)),
                               trim_space (take (copied_err cmd) (shell_err cmd))))))"

section \<open>Finding the image\<close>

lemma tags_loop_hit:
  "i \<notin> set tags \<Longrightarrow> i @ '':latest'' \<notin> set tags \<Longrightarrow>
   tags_loop tags i x = (if x \<in> set tags \<or> x @ '':latest'' \<in> set tags then i else x)"
proof (induction tags arbitrary: x)
  case (Cons t ts)
  have keep: "tags_loop ts i i = i" using Cons by simp
  show ?case
  proof (cases "t = x \<or> t = x @ '':latest''")
    case True
    with keep show ?thesis by auto
  next
    case False
    with Cons show ?thesis by auto
  qed
qed simp

lemma images_loop_id:
  "\<forall>im \<in> set ims. i \<notin> set (im_Tags im) \<and> i @ '':latest'' \<notin> set (im_Tags im) \<Longrightarrow> images_loop ims i = i"
proof (induction ims)
  case (Cons im ims)
  have "tags_loop tags j x = x" if "x \<notin> set tags" "x @ '':latest'' \<notin> set tags" for tags j x
    using that by (induction tags) auto
  with Cons show ?case by simp
qed simp

text \<open>
  Pushing by name pushes the right image. When no image ID begins with the given name and
  no tag is itself an image ID, the name resolves to the ID of the first image that has it,
  or it with \<open>:latest\<close>, among its tags, and to itself if there is none; the loop's going on
  after the hit does no harm.
\<close>
theorem tag_to_image_id:
  assumes "ListImages (cl_docker r) w = (w', Inr ims)" and "\<forall>im \<in> set ims. \<not> has_prefix (im_ID im) name"
    and "\<forall>im \<in> set ims. \<forall>jm \<in> set ims. im_ID im \<notin> set (im_Tags jm) \<and> im_ID im @ '':latest'' \<notin> set (im_Tags jm)"
  shows "TagToImageID r w name =
    (w', Inr (case find (\<lambda>im. name \<in> set (im_Tags im) \<or> name @ '':latest'' \<in> set (im_Tags im)) ims of
                Some im \<Rightarrow> im_ID im | None \<Rightarrow> name))"
proof -
  have "images_loop js name = (case find (\<lambda>im. name \<in> set (im_Tags im) \<or> name @ '':latest'' \<in> set (im_Tags im)) js of
      Some im \<Rightarrow> im_ID im | None \<Rightarrow> name)" if "set js \<subseteq> set ims" for js
    using that
  proof (induction js)
    case (Cons im js)
    let ?hit = "name \<in> set (im_Tags im) \<or> name @ '':latest'' \<in> set (im_Tags im)"
    have im: "im \<in> set ims" using Cons.prems by simp
    have t: "tags_loop (im_Tags im) (im_ID im) name = (if ?hit then im_ID im else name)"
      using assms(3) im by (intro tags_loop_hit) blast+
    have "\<not> has_prefix (im_ID im) name" using assms(2) im by blast
    moreover have "images_loop js (im_ID im) = im_ID im"
      using assms(3) Cons.prems im by (intro images_loop_id) auto
    ultimately show ?case using t Cons by auto
  qed simp
  from this [OF subset_refl] show ?thesis by (simp add: TagToImageID_def assms(1))
qed

definition app_client :: "unit client" where
  "app_client =
     \<lparr>dockerLocalRegistryHost = ''docker.local:5000'',
      cl_ipfs = \<lparr>shell_url = ''api'', isRemote = True, host = ''api'', gatewayURL = ''http://gw''\<rparr>, cl_docker = app_engine, cl_debug = False\<rparr>"

theorem tag_to_image_id_witness: "TagToImageID app_client () ''app'' = ((), Inr ''sha256:1'')"
proof -
  have l: "ListImages (cl_docker app_client) () = ((), Inr [\<lparr>im_ID = ''sha256:1'', im_Tags = [''app:latest''], im_Size = 1\<rparr>])"
    by (simp add: ListImages_def app_client_def app_engine_def)
  show ?thesis by (subst tag_to_image_id [OF l]) simp_all
qed

end
