(* ===== verification/Delivery.thy ===== *)
theory Delivery
  imports PushClient
begin

text \<open>
  From the push client to a pull: the directory that \<open>ipfsPrep\<close> lays out is added to IPFS by
  \<open>uploadDir\<close>, and a registry server that is asked for the CID it returns serves the image.
  The IPFS node between them is a parameter; \<open>ipfs_node\<close> states what is documented of it.
\<close>

section \<open>What preparing an image leaves in the root directory\<close>

text \<open>Below the node \<open>k\<close> there is nothing outside its entry \<open>c\<close>.\<close>

definition only_entry :: "file_system \<Rightarrow> string list \<Rightarrow> string \<Rightarrow> bool" where
  "only_entry fs k c \<longleftrightarrow> (\<forall>x y. fs_node fs (k @ x # y) \<noteq> None \<longrightarrow> x = c)"

lemma only_entry_put: "only_entry fs k c \<Longrightarrow> only_entry (fs_put fs ((k @ [c]) @ xs) n) k c"
  by (auto simp: only_entry_def fs_simps split: if_splits)

lemma only_entry_del: "only_entry fs k c \<Longrightarrow> only_entry (fs_del fs k') k c"
  by (auto simp: only_entry_def fs_simps split: if_splits)

text \<open>The directory \<open>p\<close> is at the entry \<open>c\<close> of \<open>k\<close> or below it.\<close>

definition dir_inside :: "file_system \<Rightarrow> string list \<Rightarrow> string \<Rightarrow> string \<Rightarrow> bool" where
  "dir_inside fs k c p \<longleftrightarrow> (\<exists>xs. dir_of fs p = Some ((k @ [c]) @ xs))"

lemma dir_inside_same: "same_dirs fs fs' \<Longrightarrow> dir_inside fs k c p \<Longrightarrow> dir_inside fs' k c p"
  using dir_of_cong [of fs fs' p] by (simp add: dir_inside_def same_dirs_def)

lemma inside_key:
  assumes "dir_inside fs k c p" and "plain_comp t" and "fs_key fs (p @ ''/'' @ t) = Some k'"
  obtains xs where "k' = (k @ [c]) @ xs"
  using assms unfolding dir_inside_def fs_key_child [OF assms(2)] by (auto split: if_splits)

lemma write_only_entry:
  assumes "write_file fs (p @ ''/'' @ t) b = Inr fs'" and "dir_inside fs k c p" and "plain_comp t" and "only_entry fs k c"
  shows "only_entry fs' k c"
proof -
  obtain k' where k': "fs_key fs (p @ ''/'' @ t) = Some k'" "fs' = fs_put fs k' (File b)"
    using assms(1) by (auto simp: write_file_Inr)
  obtain xs where "k' = (k @ [c]) @ xs" using inside_key [OF assms(2,3) k'(1)] .
  then show ?thesis unfolding k'(2) using only_entry_put [OF assms(4)] by simp
qed

lemma rename_only_entry:
  assumes "rename_file fs src (p @ ''/'' @ t) = Inr fs'" and "dir_inside fs k c p" and "plain_comp t" and "only_entry fs k c"
  shows "only_entry fs' k c"
proof -
  obtain ks kd b where r: "fs_key fs (p @ ''/'' @ t) = Some kd"
    "fs' = (if ks = kd then fs else fs_put (fs_del fs ks) kd (File b))"
    using rename_file_InrE [OF assms(1)] by metis
  obtain xs where "kd = (k @ [c]) @ xs" using inside_key [OF assms(2,3) r(1)] .
  then show ?thesis unfolding r(2) using assms(4) only_entry_put [OF only_entry_del [OF assms(4)]] by simp
qed

lemma compressLayer_only_entry:
  assumes "compressLayer gz fs p bd = (fs', Inr x)" and "dir_inside fs k c bd" and "only_entry fs k c"
  shows "only_entry fs' k c"
proof -
  from assms(1) obtain fs1 dg where g: "gzipFile gz fs p (bd @ ''/'' @ tmp_layer) = Inr fs1"
    and dg: "sha256File fs1 (bd @ ''/'' @ tmp_layer) = Inr dg"
    and r: "rename_file fs1 (bd @ ''/'' @ tmp_layer) (bd @ ''/sha256:'' @ dg) = Inr fs'"
    unfolding compressLayer_def tmp_path Let_def by (auto split: sum.splits)
  have w: "write_file fs (bd @ ''/'' @ tmp_layer) (gz (file_body fs p)) = Inr fs1"
    using g by (simp add: gzipFile_def file_body_def Let_def)
  obtain b where d: "dg = hex_encode (sha256 b)" using dg by (auto simp: sha256File_def split: sum.splits)
  note s = same_dirs_write [OF w]
  show ?thesis
    by (rule rename_only_entry [OF r [unfolded d digest_path] dir_inside_same [OF s assms(2)] compute_digest_plain
        write_only_entry [OF w assms(2) tmp_layer_plain(1) assms(3)]])
qed

lemma prepare_layers_only_entry:
  "prepare_layers gz fs ls tmp bd = (fs', Inr objs) \<Longrightarrow> readable fs \<Longrightarrow> dir_inside fs k c bd \<Longrightarrow>
   only_entry fs k c \<Longrightarrow> same_dirs fs fs' \<and> only_entry fs' k c"
proof (induction ls arbitrary: fs objs)
  case (Cons j ls)
  then obtain l where j: "j = JStr l" by (cases j) simp_all
  from Cons.prems(1) obtain fs1 sz dg objs' where cl: "compressLayer gz fs (tmp @ ''/'' @ l) bd = (fs1, Inr (sz, dg))"
    and p: "prepare_layers gz fs1 ls tmp bd = (fs', Inr objs')"
    by (auto simp: j split: prod.splits sum.splits)
  note sd = compressLayer_entry(2) [OF cl Cons.prems(2)]
  have "same_dirs fs1 fs' \<and> only_entry fs' k c"
    by (rule Cons.IH [OF p same_dirs_readable [OF sd Cons.prems(2)] dir_inside_same [OF sd Cons.prems(3)]
        compressLayer_only_entry [OF cl Cons.prems(3,4)]])
  with same_dirs_trans [OF sd] show ?case by blast
qed simp

lemma writeManifest_only_entry:
  assumes "writeManifest fs mf wd imageID = (fs', None)" and "plain_comp (image_ref imageID)"
    and "dir_inside fs k c (wd @ ''/manifests'')" and "only_entry fs k c"
  shows "same_dirs fs fs' \<and> only_entry fs' k c"
proof -
  have lp: "plain_comp ''latest''" by (simp add: plain_comp_def)
  note wo = write_only_entry [where p = "wd @ ''/manifests''", folded manifest_file_child]
  obtain fs1 fs2 where 1: "(if image_ref imageID \<noteq> ''latest'' then writeJSON fs mf (manifest_file wd ''latest'') else Inr fs) = Inr fs1"
    and 2: "writeJSON fs1 mf (manifest_file wd (image_ref imageID)) = Inr fs2"
    and 3: "writeJSON fs2 mf (manifest_file wd (compute_digest (json_print mf))) = Inr fs'"
    using assms(1) unfolding writeManifest_def Let_def by (auto split: sum.splits)
  have s1: "same_dirs fs fs1 \<and> only_entry fs1 k c"
  proof (cases "image_ref imageID = ''latest''")
    case True
    with 1 assms(4) show ?thesis by simp
  next
    case False
    with 1 have w: "write_file fs (manifest_file wd ''latest'') (json_print mf) = Inr fs1" by (simp add: writeJSON_def)
    from same_dirs_write [OF w] wo [OF w assms(3) lp assms(4)] show ?thesis by simp
  qed
  note w2 = 2 [unfolded writeJSON_def] and w3 = 3 [unfolded writeJSON_def]
  note i1 = dir_inside_same [OF conjunct1 [OF s1] assms(3)]
  note i2 = dir_inside_same [OF same_dirs_write [OF w2] i1]
  have "only_entry fs' k c"
    by (rule wo [OF w3 i2 compute_digest_plain wo [OF w2 i1 assms(2) conjunct2 [OF s1]]])
  with s1 same_dirs_trans [OF same_dirs_write [OF w2] same_dirs_write [OF w3]] same_dirs_trans show ?thesis by blast
qed

lemma mkdir_grows: "grows fs (mkdir fs p)"
proof -
  have "grows fs fs" by (simp add: grows_def)
  then show ?thesis
    by (auto simp: mkdir_def mkdir_one_def intro: grows_put split: option.splits)
qed

lemma mkdir_only_entry:
  assumes "only_entry fs k c" and "\<And>k'. fs_key fs p = Some k' \<Longrightarrow> \<exists>xs. k' = (k @ [c]) @ xs"
  shows "only_entry (mkdir fs p) k c"
proof (cases "mkdir fs p = fs")
  case False
  then obtain k' where "fs_key fs p = Some k'" "mkdir fs p = fs_put fs k' Dir"
    by (auto simp: mkdir_def mkdir_one_def split: if_splits option.splits sum.splits)
  with assms(2) only_entry_put [OF assms(1)] show ?thesis by metis
qed (use assms in simp)

lemma work_dirs_only_entry:
  assumes "dir_of fs rootdir = Some k" and "\<And>c x. fs_node fs (k @ c # x) = None" and "plain_comp name"
    and wd: "wd = rootdir @ ''/'' @ name" and fs': "fs' = mkdir (mkdir (mkdir fs wd) (wd @ ''/manifests'')) (blob_dir wd)"
  shows "only_entry fs' k name" "grows fs fs'"
proof -
  have p: "plain_comp ''manifests''" "plain_comp ''blobs''" by (simp_all add: plain_comp_def)
  have c: "blob_dir wd = wd @ ''/'' @ ''blobs''" "wd @ ''/manifests'' = wd @ ''/'' @ ''manifests''"
    by (simp_all add: blob_dir_def)
  have below: "\<exists>xs. k' = (k @ [name]) @ xs" if "dir_of g rootdir = Some k" "fs_key g (wd @ ''/'' @ d) = Some k'" "plain_comp d" for g d k'
    using that(1,2) unfolding fs_key_child [OF that(3)] wd dir_of_child [OF assms(3)] by (auto split: if_splits)
  define f1 where "f1 = mkdir fs wd"
  define f2 where "f2 = mkdir f1 (wd @ ''/manifests'')"
  have g: "grows fs f1" "grows f1 f2" "grows f2 fs'" by (simp_all add: f1_def f2_def fs' mkdir_grows)
  note g2 = grows_trans [OF g(1,2)]
  show "grows fs fs'" by (rule grows_trans [OF g2 g(3)])
  note d = grows_dir_of [OF assms(1) g(1)] grows_dir_of [OF assms(1) g2]
  have "only_entry fs k name" using assms(2) by (simp add: only_entry_def)
  then have "only_entry f1 k name" unfolding f1_def
    by (rule mkdir_only_entry) (use assms(1) in \<open>auto simp: wd fs_key_child [OF assms(3)] simp del: append_Cons split: if_splits\<close>)
  then have "only_entry f2 k name" unfolding f2_def c(2)
    by (rule mkdir_only_entry) (rule below [OF d(1) _ p(1)])
  then show "only_entry fs' k name" unfolding fs' f1_def [symmetric] f2_def [symmetric] c(1)
    by (rule mkdir_only_entry) (rule below [OF d(2) _ p(2)])
qed

lemma prep_image_only_entry:
  assumes "prep_image gz fs mf configFile dg tmp wd imageID = (fs', None)" and "readable fs"
    and "plain_comp (''sha256:'' @ dg)" and "plain_comp (image_ref imageID)"
    and "dir_inside fs k c (blob_dir wd)" and "dir_inside fs k c (wd @ ''/manifests'')" and "only_entry fs k c"
  shows "same_dirs fs fs' \<and> only_entry fs' k c"
proof -
  obtain fs1 fs2 v2 where cp: "copyFile fs (tmp @ ''/'' @ configFile) (blob_dir wd @ ''/'' @ (''sha256:'' @ dg)) = Inr fs1"
    and m: "makeV2Manifest gz fs1 mf (''sha256:'' @ dg) (blob_dir wd @ ''/'' @ (''sha256:'' @ dg)) tmp wd = (fs2, Inr v2)"
    and w: "writeManifest fs2 v2 wd imageID = (fs', None)"
    using prep_image_NoneE [OF assms(1)] .
  obtain b where w1: "write_file fs (blob_dir wd @ ''/'' @ (''sha256:'' @ dg)) b = Inr fs1"
    using cp by (simp only: copyFile_def split: sum.splits) blast
  note s1 = same_dirs_write [OF w1]
  note o1 = write_only_entry [OF w1 assms(5,3,7)]
  from m obtain ls objs where "prepare_layers gz fs1 ls tmp (blob_dir wd) = (fs2, Inr objs)"
    by (auto simp: makeV2Manifest_eq split: prod.splits sum.splits option.splits json.splits)
  note o2 = prepare_layers_only_entry [OF this same_dirs_readable [OF s1 assms(2)] dir_inside_same [OF s1 assms(5)] o1]
  note s12 = same_dirs_trans [OF s1 conjunct1 [OF o2]]
  note o3 = writeManifest_only_entry [OF w assms(4) dir_inside_same [OF s12 assms(6)] conjunct2 [OF o2]]
  with same_dirs_trans [OF s12] show ?thesis by blast
qed

lemma prep_in_NoneE:
  assumes "prep_in gz fs tmp imageID rootdir = (fs', Done None)" and "image_name fs tmp = Inr name"
    and "fs1 = mkdir (mkdir (mkdir fs (rootdir @ ''/'' @ name)) ((rootdir @ ''/'' @ name) @ ''/manifests'')) (blob_dir (rootdir @ ''/'' @ name))"
  obtains mf more configFile dg where "readJSONArray fs1 (tmp @ ''/manifest.json'') = Inr (mf # more)"
    "member mf ''Config'' = Some (JStr configFile)" "strip_json configFile = Some dg"
    "prep_image gz fs1 mf configFile dg tmp (rootdir @ ''/'' @ name) imageID = (fs', None)"
proof -
  from assms(1) have "(case readJSONArray fs1 (tmp @ ''/manifest.json'') of
                Inl e \<Rightarrow> (fs1, Done (Some e))
              | Inr [] \<Rightarrow> (fs1, Done (Some (GoError ''expected manifest to contain data'')))
              | Inr (mf # _) \<Rightarrow>
                  (case member mf ''Config'' of
                     Some (JStr configFile) \<Rightarrow>
                       (case strip_json configFile of
                          None \<Rightarrow> (fs1, Panicked)
                        | Some dg \<Rightarrow>
                            (case prep_image gz fs1 mf configFile dg tmp (rootdir @ ''/'' @ name) imageID of
                               (fs2, x) \<Rightarrow> (fs2, Done x)))
                   | _ \<Rightarrow> (fs1, Done (Some (GoError ''image archive must be produced by docker > 1.10''))))) = (fs', Done None)"
    unfolding prep_in_def assms(2) sum.case Let_def assms(3) .
  then show ?thesis
    using that by (auto split: sum.splits list.splits option.splits json.splits prod.splits)
qed

lemma prep_in_only_entry:
  assumes p: "prep_in gz fs tmp imageID rootdir = (fs', Done None)" and "archive_at fs tmp dg conf ls"
    and "image_name fs tmp = Inr name" and "empty_dir fs rootdir" and "plain_comp name" and "plain_comp (''sha256:'' @ dg)"
    and "writable fs" and "readable fs" and "plain_comp (image_ref imageID)"
  shows "readable fs' \<and> (\<exists>k. dir_of fs' rootdir = Some k \<and> is_dir fs' k \<and> only_entry fs' k name)"
proof -
  let ?wd = "rootdir @ ''/'' @ name"
  obtain k where k: "dir_of fs rootdir = Some k" "\<And>c x. fs_node fs (k @ c # x) = None" and kd: "is_dir fs k"
    using assms(4) unfolding empty_dir_def by blast
  define fs1 where "fs1 = mkdir (mkdir (mkdir fs ?wd) (?wd @ ''/manifests'')) (blob_dir ?wd)"
  note o1 = work_dirs_only_entry [OF k assms(5) refl fs1_def]
  note wk = work_dirs [OF assms(4,5,7), folded fs1_def]
  obtain mf more configFile dg' where r: "readJSONArray fs1 (tmp @ ''/manifest.json'') = Inr (mf # more)"
    "member mf ''Config'' = Some (JStr configFile)" "strip_json configFile = Some dg'"
    and pi: "prep_image gz fs1 mf configFile dg' tmp ?wd imageID = (fs', None)"
    using prep_in_NoneE [OF p assms(3) fs1_def] .
  obtain mf0 more0 cf0 where a: "readJSONArray fs (tmp @ ''/manifest.json'') = Inr (mf0 # more0)"
    "member mf0 ''Config'' = Some (JStr cf0)" "strip_json cf0 = Some dg"
    using assms(2) unfolding archive_at_def by blast
  have "dg' = dg" using readJSONArray_grows [OF a(1) wk(1)] r a(2,3) by simp
  have inside: "dir_inside fs1 k name (?wd @ ''/'' @ d)" if pd: "plain_comp d" and fd: "flat_dir fs1 (?wd @ ''/'' @ d)" for d
  proof -
    obtain x where "dir_of fs1 (?wd @ ''/'' @ d) = Some x" using fd by (auto simp: flat_dir_def)
    then show ?thesis
      unfolding dir_inside_def dir_of_child [OF pd] dir_of_child [OF assms(5)] grows_dir_of [OF k(1) wk(1)]
      by (auto split: if_splits)
  qed
  have "plain_comp ''blobs''" "plain_comp ''manifests''" by (simp_all add: plain_comp_def)
  from inside [OF this(1)] inside [OF this(2)] wk(2,3)
  have i: "dir_inside fs1 k name (blob_dir ?wd)" "dir_inside fs1 k name (?wd @ ''/manifests'')" by (simp_all add: blob_dir_def)
  have r1: "readable fs1" using wk(1) assms(8) by (simp add: grows_def readable_def)
  with prep_image_only_entry [OF pi _ _ assms(9) i o1(1)] assms(6) \<open>dg' = dg\<close>
  have s: "same_dirs fs1 fs'" and o: "only_entry fs' k name" by blast+
  have "dir_of fs' rootdir = Some k" "is_dir fs' k"
    using grows_dir_of [OF k(1) wk(1)] grows_dir [OF wk(1) kd] s dir_of_cong [of fs1 fs' rootdir] by (simp_all add: same_dirs_def)
  with o same_dirs_readable [OF s r1] show ?thesis by blast
qed

section \<open>The tree that is sent\<close>

lemma sort_remdups_single: "set xs = {a} \<Longrightarrow> sort (remdups xs) = [a]"
  by (simp add: sorted_list_of_set_sort_remdups [symmetric])

lemma visible_single:
  assumes "only_entry fs k c" and "fs_node fs (k @ [c]) \<noteq> None" and "\<not> has_prefix c ''.''"
  shows "visible_names fs k = [c]"
proof -
  have "map fst (dir_entries fs k) = [c]"
  proof -
    have s: "set (map fst (dir_entries fs k)) = {c}"
      using entry_node [of _ fs k] entry_of_node [OF assms(2)] assms(1) by (auto simp: only_entry_def simp del: set_map)
    have d: "map fst (dir_entries fs k) = sort (remdups (map last (filter (\<lambda>k'. k' \<noteq> [] \<and> butlast k' = k) (map fst (nodes fs)))))"
      by (simp add: dir_entries_def comp_def)
    show ?thesis unfolding d by (rule sort_remdups_single) (use s in \<open>simp add: d del: map_map filter_map\<close>)
  qed
  with assms(3) show ?thesis by (simp add: visible_names_def)
qed

lemma child_node:
  assumes "dir_of fs rootdir = Some k" and "plain_comp name" and "plain_comp d" and "plain_comp c"
    and "read_file fs (((rootdir @ ''/'' @ name) @ ''/'' @ d) @ ''/'' @ c) = Inr b"
  shows "fs_node fs ((k @ [name]) @ [d, c]) = Some (File b)" "is_dir fs (k @ [name])" "is_dir fs ((k @ [name]) @ [d])"
proof -
  from assms(5) obtain k' where "fs_key fs (((rootdir @ ''/'' @ name) @ ''/'' @ d) @ ''/'' @ c) = Some k'" "fs_node fs k' = Some (File b)"
    by (rule read_file_InrE)
  then show "fs_node fs ((k @ [name]) @ [d, c]) = Some (File b)" "is_dir fs (k @ [name])" "is_dir fs ((k @ [name]) @ [d])"
    unfolding fs_key_child [OF assms(4)] dir_of_child [OF assms(3)] dir_of_child [OF assms(2)] assms(1)
    by (auto split: if_splits)
qed

text \<open>Not hidden, and without a character that a URL or a path would take for something else.\<close>

definition url_comp :: "string \<Rightarrow> bool" where
  "url_comp c \<longleftrightarrow> plain_comp c \<and> \<not> has_prefix c ''.'' \<and> list_all (\<lambda>x. unreserved x \<or> x = CHR '':'') c"

lemma prepared_tree:
  assumes "dir_of fs rootdir = Some k" and "only_entry fs k name" and "readable fs" and "is_dir fs k" and "url_comp name"
    and "url_comp t" and "read_file fs (((rootdir @ ''/'' @ name) @ ''/'' @ d) @ ''/'' @ t) = Inr b" and "url_comp d"
  obtains tn where "dir_tree (Suc (fs_depth fs)) fs k = Some (FDir [name \<mapsto> tn])"
    "\<And>d c b. url_comp d \<Longrightarrow> url_comp c \<Longrightarrow> read_file fs (((rootdir @ ''/'' @ name) @ ''/'' @ d) @ ''/'' @ c) = Inr b \<Longrightarrow>
      tree_file tn [d, c] = Some b"
proof -
  have p: "plain_comp name" using assms(5) by (simp add: url_comp_def)
  have nd: "is_dir fs (k @ [name])"
    using child_node(2) [OF assms(1) p _ _ assms(7)] assms(6,8) by (simp add: url_comp_def)
  have vis: "visible_names fs k = [name]"
    by (rule visible_single [OF assms(2)]) (use nd assms(5) in \<open>simp_all add: is_dir_def url_comp_def\<close>)
  have "dir_tree (Suc (fs_depth fs)) fs k \<noteq> None"
    by (rule dir_tree_total) (use assms(3,4) in \<open>simp_all add: is_dir_def readable_def\<close>)
  then obtain tn where tn: "dir_tree (fs_depth fs) fs (k @ [name]) = Some tn"
    and t: "dir_tree (Suc (fs_depth fs)) fs k = Some (FDir [name \<mapsto> tn])"
    using assms(3,4) vis by (auto simp: dir_tree.simps [of "Suc _"] readable_def is_dir_def split: option.splits)
  have "tree_file tn [d, c] = Some b"
    if r: "url_comp d" "url_comp c" "read_file fs (((rootdir @ ''/'' @ name) @ ''/'' @ d) @ ''/'' @ c) = Inr b" for d c b
  proof -
    have pc: "plain_comp d" "plain_comp c" using r(1,2) by (simp_all add: url_comp_def)
    note n = child_node [OF assms(1) p pc r(3)]
    show ?thesis
    proof (rule dir_tree_file [OF tn n(1)])
      show "\<forall>x \<in> set [d, c]. \<not> has_prefix x ''.''" using r(1,2) by (simp add: url_comp_def)
      show "\<forall>i < length [d, c]. is_dir fs ((k @ [name]) @ take i [d, c])"
        using n(2,3) by (auto simp: less_Suc_eq_0_disj numeral_2_eq_2)
    qed
  qed
  with t show ?thesis by (rule that)
qed

section \<open>The IPFS node\<close>

text \<open>
  What is documented of an IPFS node and its gateway \<open>gw\<close>, for the directory name \<open>base\<close>
  and its entry \<open>name\<close>; \<open>has w c t\<close> says that in the world \<open>w\<close> the node has the tree \<open>t\<close>
  under the CID \<open>c\<close>. Adding a directory reports its CID last; \<open>refs\<close> of a directory with one
  entry lists the CID of that entry, a version 1 CID in base 32 (as \<open>AddDir\<close> asks for), which
  the CID package takes as it is; the gateway serves the files of a tree below its CID.
\<close>

definition refs_url :: "ipfs_client \<Rightarrow> string \<Rightarrow> string" where
  "refs_url cl h = ''http://'' @ host cl @ ''/api/v0/refs?arg='' @ h @ ''&max-depth='' @ ''1''"

definition refs_reply :: "string \<Rightarrow> json_reply" where
  "refs_reply c =
     \<lparr>jr_code = 200, jr_status = ''200 OK'', jr_values = [JObj [(''Ref'', JStr c), (''Err'', JStr [])]], jr_error = None\<rparr>"

definition ipfs_node :: "'w services \<Rightarrow> ipfs_client \<Rightarrow> string \<Rightarrow> string \<Rightarrow> string \<Rightarrow> ('w \<Rightarrow> string \<Rightarrow> ftree \<Rightarrow> bool) \<Rightarrow> bool" where
  "ipfs_node s cl gw base name has \<longleftrightarrow>
     (\<forall>w t. \<exists>w' js h. api_add s w (shell_url cl) (FDir [base \<mapsto> t]) = (w', ReplyOutput js None) \<and>
        final_hash js None [] = Inr h \<and> h \<noteq> [] \<and> has w' h t) \<and>
     (\<forall>w h t. has w h (FDir [name \<mapsto> t]) \<longrightarrow>
        (\<exists>w' c. http_post s w (refs_url cl h) = (w', Inr (refs_reply c)) \<and>
           c \<noteq> [] \<and> ToB32 (cid_pkg s) c = c \<and> has w' c t)) \<and>
     (\<forall>w c t p b. has w c t \<longrightarrow> tree_file t p = Some b \<longrightarrow> p \<noteq> [] \<longrightarrow> list_all url_comp p \<longrightarrow>
        (\<exists>w' r. http_get s w (IpfsURL gw (c # p)) = (w', Inr r) \<and> rp_code r = StatusOK \<and> rp_body r = Inr b \<and> has w' c t))"

lemma ref_stream_one: "c \<noteq> [] \<Longrightarrow> ref_stream [JObj [(''Ref'', JStr c), (''Err'', JStr [])]] [] = [c]"
  by (simp add: field_is_def to_lower_def to_lower_char_def)

lemma upload_returns_entry:
  assumes "ipfs_node s (cl_ipfs r) gw (path_base rootdir) name has" and "isRemote (cl_ipfs r)"
    and "rootdir \<noteq> []" and "dir_of fs rootdir = Some k" and "is_dir fs k" and "readable fs"
    and "dir_tree (Suc (fs_depth fs)) fs k = Some (FDir [name \<mapsto> tn])"
  shows "\<exists>w' c. uploadDir s r fs w rootdir = (w', Done (Inr c)) \<and> c \<noteq> [] \<and> ToB32 (cid_pkg s) c = c \<and> has w' c tn"
proof -
  obtain w1 js h where a: "api_add s w (shell_url (cl_ipfs r)) (FDir [path_base rootdir \<mapsto> FDir [name \<mapsto> tn]]) = (w1, ReplyOutput js None)"
    "final_hash js None [] = Inr h" "h \<noteq> []" "has w1 h (FDir [name \<mapsto> tn])"
    using assms(1) unfolding ipfs_node_def by blast
  obtain w2 c where c: "http_post s w1 (refs_url (cl_ipfs r) h) = (w2, Inr (refs_reply c))" "c \<noteq> []" "ToB32 (cid_pkg s) c = c" "has w2 c tn"
    using assms(1) a(4) unfolding ipfs_node_def by blast
  have key: "fs_key fs rootdir = Some k" using assms(3,4) by (simp add: fs_key_def dir_of_def)
  have "AddDir s fs w (cl_ipfs r) rootdir = (w1, Inr h)"
    using key assms(5,6,7) a(1-3) by (simp add: AddDir_def is_dir_def readable_def)
  moreover have "Refs s w1 (cl_ipfs r) h False = (w2, Inr [c])"
    using assms(2) c(1) ref_stream_one [OF c(2)]
    by (simp add: Refs_def remoteRefs_def refs_url_def refs_reply_def del: ref_stream.simps)
  ultimately have "uploadDir s r fs w rootdir = (w2, Done (Inr c))"
    using c(2) by (simp add: uploadDir_def)
  with c show ?thesis by blast
qed

section \<open>Serving what was added\<close>

text \<open>A server that has nothing yet for the repository \<open>cid\<close>.\<close>

definition fresh_for :: "'w registry \<Rightarrow> string \<Rightarrow> bool" where
  "fresh_for st cid \<longleftrightarrow> \<not> manifests_locked st \<and> (\<forall>t. repo_manifests st cid t = None) \<and> (\<forall>t. cids_get st cid t = None)"

text \<open>A client that pulls: it gets the manifest and then, one after the other, the blobs.\<close>

fun pull_blobs :: "'w reg_config \<Rightarrow> string \<Rightarrow> (string \<times> bytes) list \<Rightarrow> 'w registry \<Rightarrow> bool" where
  "pull_blobs cfg repo [] st = True"
| "pull_blobs cfg repo ((d, c) # bs) st =
     (case root cfg (blob_req ''GET'' repo d) st of
        (st', Done resp) \<Rightarrow> reply_status resp = StatusOK \<and> out resp = c \<and> pull_blobs cfg repo bs st'
      | _ \<Rightarrow> False)"

definition pulls :: "'w reg_config \<Rightarrow> string \<Rightarrow> string \<Rightarrow> bytes \<Rightarrow> (string \<times> bytes) list \<Rightarrow> 'w registry \<Rightarrow> bool" where
  "pulls cfg repo t b bs st =
     (case root cfg (manifest_req ''GET'' repo t [] []) st of
        (st', Done resp) \<Rightarrow> reply_status resp = StatusOK \<and> out resp = b \<and> pull_blobs cfg repo bs st'
      | _ \<Rightarrow> False)"

lemma cids_get_own_cid:
  assumes "cids_get st c t = None"
  shows "cids_get (cids_add st c d c) c t = (if key c t = key c d then Some c else None)"
  using assms
  by (cases "cids (reg_cids st) (key c t)")
    (auto simp: cids_get_def cids_add_def store_add_def store_get_def read_cid_def Let_def split: sum.splits)

lemma resolve_own_cid:
  assumes "cids_get st c t \<in> {None, Some c}" and "ToB32 (cidlib cfg) c = c" and "c \<noteq> []" and "t \<noteq> []"
  shows "resolveCID cfg st c t = (st, Inr c)"
  using assms by (auto simp: resolveCID_def resolve_def)

lemma world_add_all: "world (foldl (\<lambda>s d. cids_add s r d c) st ds) = world st"
  by (induction ds arbitrary: st) (simp_all add: frame_simps)

lemma manifest_served:
  assumes "fresh_for st c" and "ToB32 (cidlib cfg) c = c" and "c \<noteq> []" and "t \<noteq> []" and "CHR ''/'' \<notin> set t"
    and g: "http_get (sv cfg) (world st) (IpfsURL (IPFSGateway cfg) [c, ''manifests'', t]) = (w', Inr r)"
      "rp_code r = StatusOK" "rp_body r = Inr b"
    and "DecodeManifest b = Inr mf" and "blob_digests b = Done ds"
  obtains st' resp where "root cfg (manifest_req ''GET'' c t [] []) st = (st', Done resp)" "reply_status resp = StatusOK" "out resp = b"
    "world st' = w'" "\<And>d. d \<in> set ds \<Longrightarrow> cids_get st' c d = Some c"
proof -
  let ?mf = "\<lparr>contentType = mf_mediaType mf, blob = b, digest = compute_digest b\<rparr>"
  let ?s0 = "make_repo c st"
  define s1 where "s1 = put_manifest c (compute_digest b) ?mf (put_manifest c t ?mf (?s0\<lparr>world := w'\<rparr>))"
  have fresh: "\<not> manifests_locked st" "repo_manifests st c t = None" "\<And>t. cids_get st c t = None"
    using assms(1) by (simp_all add: fresh_for_def)
  have n0: "cids_get ?s0 c t = None" "repo_manifests ?s0 c t = None" "world ?s0 = world st"
    using fresh by (simp_all add: cids_get_def frame_simps)
  have r0: "resolveCID cfg ?s0 c t = (?s0, Inr c)" by (rule resolve_own_cid) (use n0 assms(2-4) in simp_all)
  have "getContent (sv cfg) (world st) (IPFSGateway cfg) c [''manifests'', t] = (w', Inr b)"
    using g by (simp add: getContent_def)
  then have "getManifest cfg (world st) c t = (w', Inr ?mf)" using assms(9) by (simp add: getManifest_def)
  then have f: "fetch cfg c t st = (cids_add s1 c (compute_digest b) c, Inr ?mf)"
    using n0 r0 by (simp add: fetch_def s1_def Let_def)
  have "cids_get s1 c t = None" using n0(1) by (simp add: s1_def put_manifest_def cids_get_def)
  then have "cids_get (cids_add s1 c (compute_digest b) c) c t \<in> {None, Some c}"
    using cids_get_own_cid [of s1 c t "compute_digest b"] by (cases "key c t = key c (compute_digest b)") simp_all
  note r1 = resolve_own_cid [OF this assms(2-4)]
  let ?st' = "foldl (\<lambda>s d. cids_add s c d c) (cids_add s1 c (compute_digest b) c) ds"
  obtain resp where m: "manifest_get cfg c t st new_response = (?st', resp, Done None)" "reply_status resp = StatusOK" "out resp = b"
    using fresh(1) f r1 assms(10) by (auto simp: manifest_get_def resp_simps reply_status_def)
  have r: "root cfg (manifest_req ''GET'' c t [] []) st = (?st', Done resp)"
    using m(1) assms(4,5) by (simp add: root_manifest route handle_manifest)
  have "world ?st' = w'" by (simp add: world_add_all frame_simps s1_def put_manifest_def)
  from that [OF r m(2,3) this rci.get_add_all] show ?thesis .
qed

lemma blob_served:
  assumes "cids_get st repo d = Some c" and "d \<noteq> []" and "CHR ''/'' \<notin> set d"
    and g: "http_get (sv cfg) (world st) (IpfsURL (IPFSGateway cfg) [c, ''blobs'', d]) = (w', Inr r)"
      "rp_code r = StatusOK" "rp_body r = Inr b"
  obtains resp where "root cfg (blob_req ''GET'' repo d) st = (st\<lparr>world := w'\<rparr>, Done resp)" "reply_status resp = StatusOK" "out resp = b"
proof -
  obtain resp where resp: "relay_blob d new_response (Inr r) = (resp, Done None)" "reply_status resp = StatusOK" "out resp = b"
    using relay_ok [OF g(2,3), of new_response d] by (auto simp: resp_simps)
  have "resolveCID cfg st repo d = (st, Inr c)" using assms(1,2) by (simp add: resolveCID_held)
  then have "blob_get cfg repo d st new_response = (st\<lparr>world := w'\<rparr>, resp, Done None)"
    using g(1) resp(1) by (simp add: blob_get_def ipfsURL_def)
  then have "root cfg (blob_req ''GET'' repo d) st = (st\<lparr>world := w'\<rparr>, Done resp)"
    using assms(2,3) by (simp add: root_blob route handle_blob_read)
  then show ?thesis using resp(2,3) by (rule that)
qed

lemma gateway_serves:
  assumes "ipfs_node s cl gw base name has" and "has w c t" and "tree_file t [d, e] = Some b" and "url_comp d" and "url_comp e"
  obtains w' r where "http_get s w (IpfsURL gw [c, d, e]) = (w', Inr r)" "rp_code r = StatusOK" "rp_body r = Inr b" "has w' c t"
proof -
  have "\<forall>w c t p b. has w c t \<longrightarrow> tree_file t p = Some b \<longrightarrow> p \<noteq> [] \<longrightarrow> list_all url_comp p \<longrightarrow>
        (\<exists>w' r. http_get s w (IpfsURL gw (c # p)) = (w', Inr r) \<and> rp_code r = StatusOK \<and> rp_body r = Inr b \<and> has w' c t)"
    using assms(1) by (simp add: ipfs_node_def)
  from this [rule_format, OF assms(2,3)] assms(4,5) that show ?thesis by auto
qed

lemma url_comp_facts: "url_comp d \<Longrightarrow> d \<noteq> [] \<and> CHR ''/'' \<notin> set d" "url_comp ''blobs''" "url_comp ''manifests''"
  "url_comp ''latest''"
  by (auto simp: url_comp_def plain_comp_def unreserved_def is_alnum_def is_alpha_def is_digit_def)

lemma blobs_served:
  "ipfs_node (sv cfg) cl (IPFSGateway cfg) base name has \<Longrightarrow> has (world st) c tn \<Longrightarrow>
   (\<And>d x. (d, x) \<in> set bs \<Longrightarrow> url_comp d \<and> tree_file tn [''blobs'', d] = Some x \<and> cids_get st repo d = Some c) \<Longrightarrow>
   pull_blobs cfg repo bs st"
proof (induction bs arbitrary: st)
  case (Cons e bs)
  obtain d x where e: "e = (d, x)" by fastforce
  have dx: "url_comp d" "tree_file tn [''blobs'', d] = Some x" "cids_get st repo d = Some c" using Cons.prems(3) [of d x] e by simp_all
  obtain w' r where g: "http_get (sv cfg) (world st) (IpfsURL (IPFSGateway cfg) [c, ''blobs'', d]) = (w', Inr r)"
    "rp_code r = StatusOK" "rp_body r = Inr x" "has w' c tn"
    using gateway_serves [OF Cons.prems(1,2) dx(2) url_comp_facts(2) dx(1)] .
  obtain resp where r: "root cfg (blob_req ''GET'' repo d) st = (st\<lparr>world := w'\<rparr>, Done resp)" "reply_status resp = StatusOK" "out resp = x"
    using blob_served [OF dx(3) _ _ g(1-3)] url_comp_facts(1) [OF dx(1)] by blast
  have "pull_blobs cfg repo bs (st\<lparr>world := w'\<rparr>)"
  proof (rule Cons.IH [OF Cons.prems(1)])
    show "has (world (st\<lparr>world := w'\<rparr>)) c tn" using g(4) by simp
    show "url_comp d \<and> tree_file tn [''blobs'', d] = Some x \<and> cids_get (st\<lparr>world := w'\<rparr>) repo d = Some c" if "(d, x) \<in> set bs" for d x
      using Cons.prems(3) [of d x] that by (simp add: cids_get_def)
  qed
  with r show ?case by (simp add: e)
qed simp

lemma url_comp_digest: "url_comp (compute_digest b)"
proof -
  have "unreserved x \<or> x = CHR '':''" if "x \<in> set (compute_digest b)" for x
  proof -
    have "list_all (\<lambda>x. unreserved x \<or> x = CHR '':'') (''0123456789abcdef'' @ ''sha256:'')" by code_simp
    moreover have "x \<in> set (''0123456789abcdef'' @ ''sha256:'')"
      using compute_digest_chars [OF that] unfolding is_hex_char_def set_append Un_iff .
    ultimately show ?thesis unfolding list_all_iff by (rule bspec)
  qed
  moreover have "\<not> has_prefix (compute_digest b) ''.''"
    using compute_digest_prefix [of b] by (cases "compute_digest b") auto
  ultimately show ?thesis by (simp add: url_comp_def list_all_iff)
qed

text \<open>A server on the gateway of a node that has the tree of an image serves the image.\<close>

lemma tree_pulls:
  assumes node: "ipfs_node (sv cfg) cl (IPFSGateway cfg) base name has" and h: "has (world st) cid tn" and "fresh_for st cid"
    and "cid \<noteq> []" and "ToB32 (cidlib cfg) cid = cid" and "url_comp t" and "tree_file tn [''manifests'', t] = Some b"
    and "DecodeManifest b = Inr mf" and "blob_digests b = Done (map fst bs)"
    and blobs: "\<And>d x. (d, x) \<in> set bs \<Longrightarrow> url_comp d \<and> tree_file tn [''blobs'', d] = Some x"
  shows "pulls cfg cid t b bs st"
proof -
  obtain w2 r2 where g: "http_get (sv cfg) (world st) (IpfsURL (IPFSGateway cfg) [cid, ''manifests'', t]) = (w2, Inr r2)"
    "rp_code r2 = StatusOK" "rp_body r2 = Inr b" and h2: "has w2 cid tn"
    using gateway_serves [OF node h assms(7) url_comp_facts(3) assms(6)] .
  obtain st' resp where m: "root cfg (manifest_req ''GET'' cid t [] []) st = (st', Done resp)" "reply_status resp = StatusOK" "out resp = b"
    "world st' = w2" "\<And>d. d \<in> set (map fst bs) \<Longrightarrow> cids_get st' cid d = Some cid"
    using manifest_served [OF assms(3,5,4) _ _ g assms(8,9)] url_comp_facts(1) [OF assms(6)] by blast
  have "pull_blobs cfg cid bs st'"
  proof (rule blobs_served [OF node])
    show "has (world st') cid tn" using m(4) h2 by simp
    fix d x assume d: "(d, x) \<in> set bs"
    then have "d \<in> set (map fst bs)" by force
    with blobs [OF d] m(5) show "url_comp d \<and> tree_file tn [''blobs'', d] = Some x \<and> cids_get st' cid d = Some cid" by blast
  qed
  with m(1-3) show ?thesis by (simp add: pulls_def)
qed

text \<open>What \<open>image_served\<close> says of the files of a work directory, blob by blob.\<close>

lemma image_served_blob:
  assumes "image_served fs wd ref cdg conf zs" and "inj_on compute_digest (set zs)" and "url_comp cdg"
    and "(d, x) \<in> set ((cdg, conf) # map (\<lambda>z. (compute_digest z, z)) zs)"
  shows "url_comp d \<and> read_file fs ((wd @ ''/'' @ ''blobs'') @ ''/'' @ d) = Inr x"
proof -
  have bd: "blob_dir wd = wd @ ''/'' @ ''blobs''" by (simp add: blob_dir_def)
  have cf: "read_file fs (blob_dir wd @ ''/'' @ cdg) = Inr conf" and bl: "blobs_on_disk fs (blob_dir wd) (set zs)"
    using assms(1) unfolding image_served_def by blast+
  show ?thesis
  proof (cases "(d, x) = (cdg, conf)")
    case True
    with cf assms(3) show ?thesis unfolding bd by (simp only: prod.inject simp_thms)
  next
    case False
    with assms(4) obtain z where z: "z \<in> set zs" "d = compute_digest z" "x = z" by auto
    with bl obtain y where y: "y \<in> set zs" "read_file fs (blob_dir wd @ ''/'' @ d) = Inr y" "compute_digest y = compute_digest z"
      unfolding blobs_on_disk_def by blast
    have "y = x" using inj_onD [OF assms(2) y(3) y(1) z(1)] z(3) by simp
    with y(2) url_comp_digest show ?thesis unfolding bd z(2) by (simp only: simp_thms)
  qed
qed

text \<open>
  C3: An image pushed by the client is served by every registry server. When the archive of an
  image was unpacked, \<open>ipfsPrep\<close> and \<open>uploadDir\<close> succeed with an IPFS node that behaves as
  documented, and return a CID with which any server on the gateway of that node, that has
  nothing stored for this name yet, can be asked for the image: the manifest, by its tag or as
  \<open>latest\<close>, and then in order every blob it lists are answered 200 with the configuration and
  the compressed layers of the archive (no two of which are a collision of SHA-256).
\<close>
theorem pushed_image_is_served:
  assumes "archive_at fs tmp dg conf ls" and "image_name fs tmp = Inr name" and "empty_dir fs rootdir" and "rootdir \<noteq> []"
    and "url_comp name" and "url_comp (''sha256:'' @ dg)" and "writable fs" and "readable fs"
    and "length conf < 2 ^ 63" and "\<forall>b. length (gz b) < 2 ^ 63"
    and "''sha256:'' @ dg \<notin> (\<lambda>l. compute_digest (layer_bytes gz fs tmp l)) ` set ls"
    and "url_comp (image_ref imageID)" and "t \<in> {''latest'', image_ref imageID}"
    and "ipfs_node (sv cfg) (cl_ipfs r) (IPFSGateway cfg) (path_base rootdir) name has" and "isRemote (cl_ipfs r)"
    and "zs = map (layer_bytes gz fs tmp) ls" and "inj_on compute_digest (set zs)"
  shows "\<exists>fs' w' cid b. prep_in gz fs tmp imageID rootdir = (fs', Done None) \<and>
    uploadDir (sv cfg) r fs' w rootdir = (w', Done (Inr cid)) \<and>
    blob_digests b = Done ((''sha256:'' @ dg) # map compute_digest zs) \<and>
    (\<forall>st. world st = w' \<longrightarrow> fresh_for st cid \<longrightarrow>
       pulls cfg cid t b ((''sha256:'' @ dg, conf) # map (\<lambda>z. (compute_digest z, z)) zs) st)"
proof -
  define cdg where "cdg = ''sha256:'' @ dg"
  let ?wd = "rootdir @ ''/'' @ name"
  have pn: "plain_comp name" "plain_comp (''sha256:'' @ dg)" "plain_comp (image_ref imageID)"
    using assms(5,6,12) by (simp_all add: url_comp_def)
  obtain fs' where p: "prep_in gz fs tmp imageID rootdir = (fs', Done None)"
    and served: "image_served fs' ?wd (image_ref imageID) cdg conf zs"
    using prep_in_serves [OF assms(1-3) pn(1,2) assms(7-11) pn(3)] unfolding cdg_def assms(16) by blast
  obtain b where b: "\<forall>u \<in> {''latest'', image_ref imageID, compute_digest b}. read_file fs' (manifest_file ?wd u) = Inr b"
    "DecodeManifest b = Inr (entry_manifest cdg (length conf) (map blob_entry zs))" "blob_digests b = Done (cdg # map compute_digest zs)"
    using served unfolding image_served_def by blast
  obtain k where r': "readable fs'" and k: "dir_of fs' rootdir = Some k" "is_dir fs' k" and o: "only_entry fs' k name"
    using prep_in_only_entry [OF p assms(1-3) pn(1,2) assms(7,8) pn(3)] by blast
  have ut: "url_comp t" using assms(12,13) url_comp_facts(4) by blast
  have mt: "read_file fs' ((?wd @ ''/'' @ ''manifests'') @ ''/'' @ t) = Inr b"
    using b(1) assms(13) by (auto simp: manifest_file_def)
  obtain tn where tn: "dir_tree (Suc (fs_depth fs')) fs' k = Some (FDir [name \<mapsto> tn])"
    and files: "\<And>d c x. url_comp d \<Longrightarrow> url_comp c \<Longrightarrow> read_file fs' ((?wd @ ''/'' @ d) @ ''/'' @ c) = Inr x \<Longrightarrow> tree_file tn [d, c] = Some x"
    using prepared_tree [OF k(1) o r' k(2) assms(5) ut mt url_comp_facts(3)] by blast
  obtain w' cid where up: "uploadDir (sv cfg) r fs' w rootdir = (w', Done (Inr cid))"
    and cid: "cid \<noteq> []" "ToB32 (cidlib cfg) cid = cid" "has w' cid tn"
    using upload_returns_entry [OF assms(14,15,4) k r' tn] by blast
  let ?bs = "(cdg, conf) # map (\<lambda>z. (compute_digest z, z)) zs"
  have ds: "cdg # map compute_digest zs = map fst ?bs" by (simp add: comp_def)
  have blobs: "url_comp d \<and> tree_file tn [''blobs'', d] = Some x" if "(d, x) \<in> set ?bs" for d x
    using image_served_blob [OF served assms(17) assms(6) [folded cdg_def] that] files url_comp_facts(2) by blast
  have "pulls cfg cid t b ?bs st" if st: "world st = w'" "fresh_for st cid" for st
    by (rule tree_pulls [OF assms(14) _ st(2) cid(1,2) ut files [OF url_comp_facts(3) ut mt] b(2) b(3) [unfolded ds] blobs])
      (simp_all add: st(1) cid(3))
  with p up b(3) show ?thesis unfolding cdg_def by blast
qed

section \<open>An IPFS node\<close>

text \<open>
  A node that keeps the last directory that was added under the name \<open>base\<close>: its world is
  the CID it answers to at the moment and the tree below it.
\<close>

definition node_base :: string where
  "node_base = ''http://gw/ipfs/''"

definition one_tree_node :: "string \<Rightarrow> string \<Rightarrow> (string \<times> ftree) services" where
  "one_tree_node base name =
     \<lparr>http_get = (\<lambda>w u.
        (w, case tree_file (snd w) (split_on (CHR ''/'') (drop (length node_base + length (fst w) + 1) u)) of
              None \<Rightarrow> Inl (GoError ''no link'')
            | Some b \<Rightarrow> Inr \<lparr>rp_code = 200, rp_status = ''200 OK'', rp_body = Inr b\<rparr>)),
      http_head = (\<lambda>w u. (w, Inl (GoError ''no route''))),
      http_post = (\<lambda>w u.
        (case snd w of
           FDir m \<Rightarrow>
             (case m name of
                Some t \<Rightarrow> ((''bafychild'', t), Inr (refs_reply ''bafychild''))
              | None \<Rightarrow> (w, Inl (GoError ''no link'')))
         | FFile b \<Rightarrow> (w, Inl (GoError ''no link'')))),
      api_add = (\<lambda>w u t.
        (case t of
           FDir m \<Rightarrow>
             (case m base of
                Some d \<Rightarrow> ((''bafyroot'', d), ReplyOutput [JObj [(''Name'', JStr base), (''Hash'', JStr ''bafyroot'')]] None)
              | None \<Rightarrow> (w, ReplyOutput [] None))
         | FFile b \<Rightarrow> (w, ReplyOutput [] None))),
      api_ls = (\<lambda>w u p. (w, Inl (GoError ''no route''))), api_cat = (\<lambda>w u p. (w, Inl (GoError ''no route''))),
      api_refs = (\<lambda>w u h r. (w, Inl (GoError ''no route''))),
      api_get = (\<lambda>w fs u h p. ((w, fs), Some (GoError ''no route''))),
      lookup_txt = (\<lambda>w d. (w, Inl (GoError ''no such host''))), rand_int63 = (\<lambda>w. (w, 7)),
      tmp_name = (\<lambda>w. (w, ''/r'')), exec_output = (\<lambda>w a. (w, Inl (GoError ''not found''))),
      cid_pkg = \<lparr>cid_decode = (\<lambda>s. Inr (112, s)), cid_v1_b32 = (\<lambda>c h. Inr h), mh_b58 = Encode58\<rparr>\<rparr>"

lemma one_tree_node_get:
  assumes "tree_file t p = Some b" and "p \<noteq> []" and "list_all url_comp p"
  shows "http_get (one_tree_node base name) (c, t) (IpfsURL ''http://gw'' (c # p)) =
    ((c, t), Inr \<lparr>rp_code = 200, rp_status = ''200 OK'', rp_body = Inr b\<rparr>)"
proof -
  obtain x xs where p: "p = x # xs" using assms(2) by (cases p) simp_all
  have "\<forall>y \<in> set p. CHR ''/'' \<notin> set y" using assms(3) by (auto simp: list_all_iff dest: url_comp_facts(1))
  then have sp: "split_on (CHR ''/'') (join ''/'' p) = p" by (rule split_on_join [OF assms(2)])
  have "IpfsURL ''http://gw'' (c # p) = (node_base @ c @ ''/'') @ join ''/'' p" by (simp add: IpfsURL_def p node_base_def)
  then have "drop (length node_base + length c + 1) (IpfsURL ''http://gw'' (c # p)) = join ''/'' p" by simp
  then show ?thesis by (simp add: one_tree_node_def sp assms(1))
qed

lemma one_tree_node_ok:
  "ipfs_node (one_tree_node base name) cl ''http://gw'' base name (\<lambda>w c t. w = (c, t))"
proof -
  have h: "final_hash [JObj [(''Name'', JStr base), (''Hash'', JStr ''bafyroot'')]] None [] = Inr ''bafyroot''"
    by (simp add: field_is_def to_lower_def to_lower_char_def)
  have t: "ToB32 (cid_pkg (one_tree_node base name)) c = c" for c by (simp add: one_tree_node_def ToB32_def)
  have a: "\<exists>w' js h. api_add (one_tree_node base name) w (shell_url cl) (FDir [base \<mapsto> t]) = (w', ReplyOutput js None) \<and>
      final_hash js None [] = Inr h \<and> h \<noteq> [] \<and> w' = (h, t)" for w t
    using h by (simp add: one_tree_node_def del: final_hash.simps)
  have r: "\<exists>w' c. http_post (one_tree_node base name) (h, FDir [name \<mapsto> t]) (refs_url cl h) = (w', Inr (refs_reply c)) \<and>
      c \<noteq> [] \<and> ToB32 (cid_pkg (one_tree_node base name)) c = c \<and> w' = (c, t)" for h t
    unfolding t by (simp add: one_tree_node_def)
  show ?thesis
    unfolding ipfs_node_def using a r one_tree_node_get by fastforce
qed

text \<open>The small archive is pushed to this node and pulled by a server on its gateway.\<close>

definition node_server :: "(string \<times> ftree) \<Rightarrow> (string \<times> ftree) registry" where
  "node_server w = new_registry ''/c'' empty_disk w"

definition node_client :: "(string \<times> ftree) client" where
  "node_client =
     \<lparr>dockerLocalRegistryHost = [], cl_ipfs = \<lparr>shell_url = ''api'', isRemote = True, host = ''api'', gatewayURL = ''http://gw''\<rparr>,
      cl_docker = app_engine, cl_debug = False\<rparr>"

lemma node_server_fresh: "world (node_server w) = w" "fresh_for (node_server w) c"
  using read_empty_disk
  by (auto simp: node_server_def new_registry_def fresh_for_def repo_manifests_def cids_get_def store_get_def read_cid_def
      new_cid_store_def Let_def split: sum.splits)

theorem pushed_image_is_served_witness:
  "\<exists>fs' w' cid b. prep_in (\<lambda>b. ''z'') small_archive ''/t'' ''app:v1'' ''/r'' = (fs', Done None) \<and>
    uploadDir (one_tree_node ''r'' ''default'') node_client fs' ([], FFile []) ''/r'' = (w', Done (Inr cid)) \<and>
    pulls (local_config (one_tree_node ''r'' ''default'')) cid ''v1'' b [(''sha256:ab'', ''{}''), (compute_digest ''z'', ''z'')]
      (node_server w')"
proof -
  let ?cfg = "local_config (one_tree_node ''r'' ''default'')"
  have ref: "image_ref ''app:v1'' = ''v1''" by code_simp
  have u: "url_comp ''default''" "url_comp (''sha256:'' @ ''ab'')" "url_comp (image_ref ''app:v1'')" unfolding ref by code_simp+
  have node: "ipfs_node (sv ?cfg) (cl_ipfs node_client) (IPFSGateway ?cfg) (path_base ''/r'') ''default'' (\<lambda>w c t. w = (c, t))"
  proof -
    have "path_base ''/r'' = ''r''" by code_simp
    then show ?thesis using one_tree_node_ok by (simp add: local_config_def)
  qed
  have rem: "isRemote (cl_ipfs node_client)" by (simp add: node_client_def)
  have z: "[''z''] = map (layer_bytes (\<lambda>b. ''z'') small_archive ''/t'') [''l.tar'']" by simp
  from pushed_image_is_served [OF small_archive_at small_archive_facts(1,2) _ u(1,2) small_archive_facts(3,4) _ _ small_digest u(3) _ node rem z,
      of "''v1''" "([], FFile [])"]
  obtain fs' w' cid b where
    "prep_in (\<lambda>b. ''z'') small_archive ''/t'' ''app:v1'' ''/r'' = (fs', Done None)"
    "uploadDir (sv ?cfg) node_client fs' ([], FFile []) ''/r'' = (w', Done (Inr cid))"
    "\<forall>st. world st = w' \<longrightarrow> fresh_for st cid \<longrightarrow>
       pulls ?cfg cid ''v1'' b ((''sha256:'' @ ''ab'', ''{}'') # map (\<lambda>z. (compute_digest z, z)) [''z'']) st"
    by (auto simp: ref)
  with node_server_fresh(1) [of w'] node_server_fresh(2) [of w' cid] show ?thesis
    by (intro exI [of _ fs'] exI [of _ w'] exI [of _ cid] exI [of _ b]) (simp add: local_config_def)
qed

end
