(* ===== verification/WfDisk.thy ===== *)
theory WfDisk
  imports FileSys
begin

text \<open>
  What every file tree satisfies and every operation of \<open>FileSys\<close> keeps: a node lies in a
  directory, under a name that is a single path component, and the working directory is a
  directory.
\<close>

section \<open>The invariant\<close>

definition wf_fs :: "file_system \<Rightarrow> bool" where
  "wf_fs fs \<longleftrightarrow> is_dir fs (cwd fs) \<and> (\<forall>k c. fs_node fs (k @ [c]) \<noteq> None \<longrightarrow> is_dir fs k \<and> plain_comp c)"

text \<open>A place where a node may be put.\<close>

definition ok_key :: "file_system \<Rightarrow> string list \<Rightarrow> bool" where
  "ok_key fs k \<longleftrightarrow> (k = [] \<or> is_dir fs (butlast k) \<and> plain_comp (last k))"

lemma ok_key_snoc [simp]: "ok_key fs (k @ [c]) \<longleftrightarrow> is_dir fs k \<and> plain_comp c" "ok_key fs []"
  by (simp_all add: ok_key_def)

lemma node_ok_key: "wf_fs fs \<Longrightarrow> fs_node fs k \<noteq> None \<Longrightarrow> ok_key fs k"
  by (cases k rule: rev_cases) (auto simp: wf_fs_def)

lemma dir_ok_key: "wf_fs fs \<Longrightarrow> is_dir fs k \<Longrightarrow> ok_key fs k"
  by (rule node_ok_key) (simp_all add: is_dir_def)

text \<open>All directories on the way to a node are there.\<close>

lemma wf_prefix_dir:
  assumes "wf_fs fs"
  shows "fs_node fs (k @ xs) \<noteq> None \<Longrightarrow> xs \<noteq> [] \<Longrightarrow> is_dir fs k"
proof (induction xs rule: rev_induct)
  case (snoc x xs)
  then have d: "is_dir fs (k @ xs)" using assms by (simp add: wf_fs_def flip: append_assoc)
  show ?case
  proof (cases "xs = []")
    case False
    with snoc.IH d show ?thesis by (simp add: is_dir_def)
  qed (use d in simp)
qed simp

lemma wf_comps_plain:
  assumes "wf_fs fs"
  shows "fs_node fs k \<noteq> None \<Longrightarrow> list_all plain_comp k"
proof (induction k rule: rev_induct)
  case (snoc c k)
  then have "is_dir fs k" "plain_comp c" using assms by (auto simp: wf_fs_def)
  with snoc.IH show ?case by (simp add: is_dir_def)
qed simp

section \<open>Walking\<close>

lemma wf_walk:
  "fs_walk fs cur cs = Some k \<Longrightarrow> wf_fs fs \<Longrightarrow> ok_key fs cur \<Longrightarrow> \<forall>c \<in> set cs. CHR ''/'' \<notin> set c \<Longrightarrow> ok_key fs k"
proof (induction fs cur cs rule: fs_walk.induct)
  case (2 fs cur c cs)
  from "2.prems"(1) have d: "is_dir fs cur" by (auto split: if_splits)
  have up: "ok_key fs (butlast cur)"
  proof (cases cur rule: rev_cases)
    case (snoc k x)
    with "2.prems"(3) have "is_dir fs k" by simp
    with snoc dir_ok_key [OF "2.prems"(2)] show ?thesis by simp
  qed simp
  show ?case
    using 2 d up by (auto simp: plain_comp_def split: if_splits)
qed simp

lemma wf_fs_key: "fs_key fs p = Some k \<Longrightarrow> wf_fs fs \<Longrightarrow> ok_key fs k"
  unfolding fs_key_def
  by (rule wf_walk) (auto simp: wf_fs_def dir_ok_key dest: split_on_sep split: if_splits)

section \<open>The operations keep it\<close>

lemma wf_put:
  assumes "wf_fs fs" and "ok_key fs k" and "n = Dir \<or> \<not> is_dir fs k"
  shows "wf_fs (fs_put fs k n)"
proof -
  have d: "is_dir (fs_put fs k n) k'" if "is_dir fs k'" for k'
    using assms(3) that by (auto simp: is_dir_def fs_simps)
  show ?thesis
    unfolding wf_fs_def
  proof (rule conjI; (intro allI impI)?)
    show "is_dir (fs_put fs k n) (cwd (fs_put fs k n))" using assms(1) d by (simp add: wf_fs_def fs_simps)
  next
    fix k' c assume a: "fs_node (fs_put fs k n) (k' @ [c]) \<noteq> None"
    have "is_dir fs k' \<and> plain_comp c"
    proof (cases "k' @ [c] = k")
      case True
      with assms(2) show ?thesis by auto
    next
      case False
      with a assms(1) show ?thesis by (simp add: fs_simps wf_fs_def)
    qed
    then show "is_dir (fs_put fs k n) k' \<and> plain_comp c" using d by blast
  qed
qed

lemma wf_del_file:
  assumes "wf_fs fs" and "\<not> is_dir fs k"
  shows "wf_fs (fs_del fs k)"
  using assms unfolding wf_fs_def
  by (auto simp: is_dir_del_file fs_del_frame fs_node_del split: if_splits)

lemma wf_write: "write_file fs p b = Inr fs' \<Longrightarrow> wf_fs fs \<Longrightarrow> wf_fs fs'"
  by (auto simp: write_file_Inr intro!: wf_put wf_fs_key)

lemma wf_open_and_write: "open_and_write fs p b = Inr fs' \<Longrightarrow> wf_fs fs \<Longrightarrow> wf_fs fs'"
  by (auto simp: open_and_write_def is_dir_def intro!: wf_put wf_fs_key split: option.splits fnode.splits if_splits)

lemma wf_mkdir_one: "mkdir_one fs p = Inr fs' \<Longrightarrow> wf_fs fs \<Longrightarrow> wf_fs fs'"
  by (auto simp: mkdir_one_def intro!: wf_put wf_fs_key split: option.splits if_splits)

lemma wf_rename:
  assumes "rename_file fs src dst = Inr fs'" and "wf_fs fs"
  shows "wf_fs fs'"
proof -
  obtain k k' b where r: "fs_key fs src = Some k" "fs_key fs dst = Some k'" "fs_node fs k = Some (File b)" "\<not> is_dir fs k'"
    "fs' = (if k = k' then fs else fs_put (fs_del fs k) k' (File b))"
    using rename_file_InrE [OF assms(1)] .
  have nd: "\<not> is_dir fs k" using r(3) by (simp add: is_dir_def)
  have "ok_key (fs_del fs k) k'" using wf_fs_key [OF r(2) assms(2)] nd by (simp add: ok_key_def is_dir_del_file)
  then have "wf_fs (fs_put (fs_del fs k) k' (File b))"
    by (intro wf_put wf_del_file [OF assms(2) nd]) (simp_all add: is_dir_del_file nd r(4))
  with r(5) assms(2) show ?thesis by simp
qed

lemma wf_mk_dirs:
  "wf_fs fs \<Longrightarrow> is_dir fs cur \<Longrightarrow> list_all plain_comp cs \<Longrightarrow> wf_fs (fst (mk_dirs fs cur cs))"
proof (induction fs cur cs rule: mk_dirs.induct)
  case (2 fs cur c cs)
  show ?case
  proof (cases "fs_node fs (cur @ [c])")
    case None
    have w: "wf_fs (fs_put fs (cur @ [c]) Dir)" by (rule wf_put) (use "2.prems" in simp_all)
    have "is_dir (fs_put fs (cur @ [c]) Dir) (cur @ [c])" by (simp add: is_dir_def fs_simps)
    with None 2 w show ?thesis by simp
  next
    case (Some nd)
    with 2 show ?thesis by (cases nd) (simp_all add: is_dir_def)
  qed
qed simp

lemma wf_mkdir_all: "mkdir_all fs p = (fs', e) \<Longrightarrow> wf_fs fs \<Longrightarrow> wf_fs fs'"
proof -
  assume m: "mkdir_all fs p = (fs', e)" and w: "wf_fs fs"
  have "list_all plain_comp (cwd fs)" using w wf_comps_plain [of fs "cwd fs"] by (simp add: wf_fs_def is_dir_def)
  then have "list_all plain_comp (abs_comps fs p)"
    unfolding abs_comps_def by (intro clean_comps_all_plain) (auto simp: list_all_iff plain_comp_def dest: split_on_sep)
  with wf_mk_dirs [OF w is_dir_Nil] have "wf_fs (fst (mk_dirs fs [] (abs_comps fs p)))" by simp
  then show ?thesis using m w by (simp add: mkdir_all_def split: if_splits)
qed

end
