(* ===== verification/CidMap.thy ===== *)
theory CidMap
  imports CidStore WfDisk
begin

text \<open>
  The CID store as an abstract map. For the names and tags that the registry API knows, the
  store with its directory of files behaves like one finite map from name and reference to
  CID: \<open>Get\<close> looks it up and \<open>Add\<close> updates it at one point, whatever lies on the disk.
\<close>

section \<open>The abstraction\<close>

text \<open>The abstract store: what is known under each well-formed name and reference.\<close>

type_synonym cid_map = "string \<times> string \<rightharpoonup> string"

definition proper :: "string \<Rightarrow> string \<Rightarrow> bool" where
  "proper repo ref \<longleftrightarrow> wf_name repo \<and> plain_comp ref"

definition map_of_store :: "cid_store \<times> file_system \<Rightarrow> cid_map" where
  "map_of_store s = (\<lambda>(repo, ref). if proper repo ref then store_get s repo ref else None)"

text \<open>What a concrete store must satisfy: an absolute directory on a well-formed disk.\<close>

definition store_ok :: "cid_store \<times> file_system \<Rightarrow> bool" where
  "store_ok s \<longleftrightarrow> rooted (location (fst s)) \<and> wf_fs (snd s)"

abbreviation file_of :: "string \<Rightarrow> string \<Rightarrow> string \<Rightarrow> string list" where
  "file_of loc repo ref \<equiv> clean_path_comps loc @ name_comps repo @ [ref]"

lemma file_of_plain: "proper repo ref \<Longrightarrow> list_all plain_comp (file_of loc repo ref)"
  by (simp add: proper_def wf_name_def)

lemma file_of_inject: "file_of loc r t = file_of loc r' t' \<longleftrightarrow> r = r' \<and> t = t'"
proof
  assume "file_of loc r t = file_of loc r' t'"
  then have "name_comps r = name_comps r'" "t = t'" by simp_all
  then show "r = r' \<and> t = t'" unfolding name_comps_def by (metis join_split_on)
qed simp

section \<open>Reading\<close>

text \<open>On a well-formed disk a file is found by its path alone.\<close>

lemma read_abs_path:
  assumes "wf_fs fs" and "list_all plain_comp cs"
  shows "read_file fs (abs_path cs) = Inr b \<longleftrightarrow> \<not> no_read fs cs \<and> fs_node fs cs = Some (File b)"
proof
  assume "read_file fs (abs_path cs) = Inr b"
  then obtain k where "fs_key fs (abs_path cs) = Some k" "\<not> no_read fs k" "fs_node fs k = Some (File b)"
    by (auto simp: read_file_def split: option.splits if_splits fnode.splits)
  moreover from this(1) have "k = cs" by (rule fs_key_abs_path_SomeD [OF _ assms(2)])
  ultimately show "\<not> no_read fs cs \<and> fs_node fs cs = Some (File b)" by simp
next
  assume f: "\<not> no_read fs cs \<and> fs_node fs cs = Some (File b)"
  have "is_dir fs (take n cs)" if "n < length cs" for n
    using wf_prefix_dir [OF assms(1), of "take n cs" "drop n cs"] f that by simp
  with fs_key_abs_path [OF assms(2)] have "fs_key fs (abs_path cs) = Some cs" by blast
  with f show "read_file fs (abs_path cs) = Inr b" by (simp add: read_file_def)
qed

lemma store_get_abs:
  assumes "store_ok s" and "proper r t"
  shows "store_get s r t = Some c \<longleftrightarrow>
    (case cids (fst s) (key r t) of
       Some v \<Rightarrow> v = c
     | None \<Rightarrow> \<not> no_read (snd s) (file_of (location (fst s)) r t) \<and>
         fs_node (snd s) (file_of (location (fst s)) r t) = Some (File c))"
proof -
  have p: "cid_path (location (fst s)) (key r t) = abs_path (file_of (location (fst s)) r t)"
    using assms by (intro cid_path_wf) (simp_all add: store_ok_def proper_def)
  have w: "wf_fs (snd s)" using assms(1) by (simp add: store_ok_def)
  have "(case read_file (snd s) (abs_path cs) of Inl e \<Rightarrow> None | Inr v \<Rightarrow> Some v) = Some c \<longleftrightarrow>
      read_file (snd s) (abs_path cs) = Inr c" for cs
    by (auto split: sum.splits)
  then show ?thesis
    using read_abs_path [OF w file_of_plain [OF assms(2)]]
    by (simp add: store_get_def read_cid_def p Let_def split: option.splits)
qed

section \<open>Adding\<close>

lemma write_cid_other:
  assumes "list_all plain_comp (cs @ [x])" and "cid_path (location st) k = abs_path (cs @ [x])" and "wf_fs fs"
    and "k' \<noteq> cs @ [x]" and "k' \<noteq> []"
  shows "(fs_node (fst (write_cid st fs k v)) k' = Some (File b)) = (fs_node fs k' = Some (File b))"
    and "no_read (fst (write_cid st fs k v)) = no_read fs"
proof -
  let ?g = "fst (mk_dirs fs [] cs)"
  have m: "mkdir_all fs (path_dir (abs_path (cs @ [x]))) = mk_dirs fs [] cs"
    using assms(1) by (simp add: mkdir_all_def path_dir_abs_path abs_comps_abs_path)
  have r: "no_read ?g = no_read fs" using mk_dirs_frame [of fs "[]" cs] by simp
  have w: "fst (write_cid st fs k v) = ?g \<or> write_file ?g (abs_path (cs @ [x])) v = Inr (fst (write_cid st fs k v))"
    using assms(2) m by (auto simp: write_cid_def Let_def split: prod.splits option.splits sum.splits)
  have "(fs_node fs'' k' = Some (File b)) = (fs_node ?g k' = Some (File b)) \<and> no_read fs'' = no_read ?g"
    if w': "write_file ?g (abs_path (cs @ [x])) v = Inr fs''" for fs''
  proof -
    obtain kk where "fs_key ?g (abs_path (cs @ [x])) = Some kk" "fs'' = fs_put ?g kk (File v)"
      using w' by (auto simp: write_file_Inr)
    with fs_key_abs_path_SomeD [OF _ assms(1)] assms(4,5) show ?thesis by (auto simp: fs_simps)
  qed
  with w r mk_dirs_files [of fs "[]" cs k' b]
  show "(fs_node (fst (write_cid st fs k v)) k' = Some (File b)) = (fs_node fs k' = Some (File b))"
    "no_read (fst (write_cid st fs k v)) = no_read fs" by metis+
qed

lemma wf_write_cid: "wf_fs fs \<Longrightarrow> wf_fs (fst (write_cid st fs k v))"
  by (auto simp: write_cid_def Let_def dest: wf_mkdir_all wf_write split: prod.splits option.splits sum.splits)

lemma store_add_ok: "store_ok s \<Longrightarrow> store_ok (store_add s r t c)"
  using wf_write_cid by (simp add: store_ok_def) (simp add: store_add_def Let_def)

lemma store_add_other:
  assumes "store_ok s" and "proper r t" and "proper r' t'" and "(r', t') \<noteq> (r, t)"
  shows "store_get (store_add s r t c) r' t' = store_get s r' t'"
proof -
  let ?loc = "location (fst s)" and ?s' = "store_add s r t c"
  have k: "key r' t' \<noteq> key r t" using key_eq_iff [of r' r t' t] assms(2-4) by (auto simp: proper_def wf_name_def)
  have l: "location (fst ?s') = ?loc" by simp
  have c: "cids (fst ?s') (key r' t') = cids (fst s) (key r' t')" using k by (simp add: store_add_def Let_def)
  have f: "file_of ?loc r' t' \<noteq> (clean_path_comps ?loc @ name_comps r) @ [t]" using assms(4) file_of_inject by auto
  have p: "list_all plain_comp ((clean_path_comps ?loc @ name_comps r) @ [t])" using file_of_plain [OF assms(2)] by simp
  have path: "cid_path ?loc (key r t) = abs_path ((clean_path_comps ?loc @ name_comps r) @ [t])"
    using cid_path_wf [of ?loc r t] assms(1,2) by (simp add: store_ok_def proper_def)
  have w: "wf_fs (snd s)" using assms(1) by (simp add: store_ok_def)
  note o = write_cid_other [OF p _ w f]
  have d: "(fs_node (snd ?s') (file_of ?loc r' t') = Some (File b)) = (fs_node (snd s) (file_of ?loc r' t') = Some (File b))"
    "no_read (snd ?s') = no_read (snd s)" for b
    using o path by (simp_all add: store_add_def Let_def)
  have "(store_get ?s' r' t' = Some x) = (store_get s r' t' = Some x)" for x
    unfolding store_get_abs [OF store_add_ok [OF assms(1)] assms(3)] store_get_abs [OF assms(1,3)] l c d by (rule refl)
  then show ?thesis by (cases "store_get s r' t'") (metis option.exhaust)+
qed

text \<open>
  C14: The CID store refines a finite map. On a well-formed disk, and for names and references as
  the registry API has them, \<open>Get\<close> is the lookup in the abstract map and \<open>Add\<close> is its update at
  one point: no other name or reference is affected by the directories and files that are
  written, also when writing fails or stops half-way. Both keep the disk well formed.
\<close>
theorem cid_store_refines_map:
  assumes "store_ok s" and "proper r t"
  shows "store_get s r t = map_of_store s (r, t) \<and>
    map_of_store (store_add s r t c) = (map_of_store s)((r, t) \<mapsto> c) \<and> store_ok (store_add s r t c)"
proof (intro conjI)
  show "store_get s r t = map_of_store s (r, t)" using assms(2) by (simp add: map_of_store_def)
  show "store_ok (store_add s r t c)" by (rule store_add_ok [OF assms(1)])
  have "map_of_store (store_add s r t c) (r', t') = ((map_of_store s)((r, t) \<mapsto> c)) (r', t')" for r' t'
    using store_add_other [OF assms, of r' t' c] assms(2)
    by (cases "proper r' t'") (auto simp: map_of_store_def ci.get_add_same)
  then show "map_of_store (store_add s r t c) = (map_of_store s)((r, t) \<mapsto> c)" by (intro ext) (metis surj_pair)
qed

lemma wf_empty_disk: "wf_fs empty_disk"
proof -
  have "cwd empty_disk = []" by (simp add: empty_disk_def)
  then show ?thesis by (simp add: wf_fs_def fs_node_empty_disk)
qed

theorem cid_store_refines_map_witness:
  "map_of_store (store_add (store_add (new_cid_store ''/c'', empty_disk) ''a'' ''b'' ''bafy'') ''a/b'' ''c'' ''bag'') =
     (map_of_store (store_add (new_cid_store ''/c'', empty_disk) ''a'' ''b'' ''bafy''))((''a/b'', ''c'') \<mapsto> ''bag'')"
proof (rule cid_store_refines_map [THEN conjunct2, THEN conjunct1])
  have "store_ok (new_cid_store ''/c'', empty_disk)"
    by (simp add: store_ok_def new_cid_store_def rooted_def wf_empty_disk)
  then show "store_ok (store_add (new_cid_store ''/c'', empty_disk) ''a'' ''b'' ''bafy'')" by (rule store_add_ok)
  show "proper ''a/b'' ''c''" by (simp add: proper_def wf_name_def name_comps_def plain_comp_def)
qed

end
