(* ===== verification/Files.thy ===== *)
theory Files
  imports Delivery CidMap
begin

text \<open>
  Client and server on well-formed disks: everything they do to files keeps the disk well
  formed, and \<open>AddDir\<close> reads a directory to its end and sends what is in it.
\<close>

section \<open>The client keeps the disk well formed\<close>

lemma wf_mktmp: "wf_fs fs \<Longrightarrow> wf_fs (fst (fst (mktmp s fs w)))"
  by (auto simp: mktmp_def intro: wf_mkdir_one split: prod.splits sum.splits)

lemma wf_mkdir: "wf_fs fs \<Longrightarrow> wf_fs (mkdir fs p)"
  by (auto simp: mkdir_def intro: wf_mkdir_one split: sum.splits)

lemma wf_untar: "wf_fs fs \<Longrightarrow> wf_fs (fst (untar fs es err dst))"
proof (induction fs es err dst rule: untar.induct)
  case (2 fs e es err dst)
  show ?case
  proof (cases "te_type e")
    case TypeDir
    have "wf_fs (fst (mkdir_all fs (path_join [dst, te_name e])))"
      by (rule wf_mkdir_all [OF surjective_pairing "2.prems"])
    with 2 TypeDir show ?thesis by (auto split: prod.splits option.splits)
  next
    case TypeReg
    with 2 show ?thesis by (auto intro: wf_open_and_write split: sum.splits option.splits)
  qed (use 2 in simp)
qed simp

lemma wf_compressLayer: "wf_fs fs \<Longrightarrow> wf_fs (fst (compressLayer gz fs p bd))"
  by (auto simp: compressLayer_def gzipFile_def Let_def intro: wf_write wf_rename split: sum.splits)

lemma wf_prepare_layers: "wf_fs fs \<Longrightarrow> wf_fs (fst (prepare_layers gz fs ls tmp bd))"
proof (induction gz fs ls tmp bd rule: prepare_layers.induct)
  case (2 gz fs layer ls tmp bd)
  obtain fs1 x where c: "compressLayer gz fs (tmp @ ''/'' @ layer) bd = (fs1, x)" by fastforce
  have "wf_fs fs1" using wf_compressLayer [OF "2.prems", of gz "tmp @ ''/'' @ layer" bd] c by simp
  with 2 c show ?case by (auto split: sum.splits prod.splits)
qed simp_all

lemma wf_makeV2Manifest:
  assumes "wf_fs fs" shows "wf_fs (fst (makeV2Manifest gz fs mf cd dest tmp wd))"
  using assms wf_prepare_layers [OF assms, of gz _ tmp "blob_dir wd"]
  by (auto simp: makeV2Manifest_eq split: option.splits json.splits prod.splits sum.splits) (metis fst_conv)+

lemma wf_writeManifest: "wf_fs fs \<Longrightarrow> wf_fs (fst (writeManifest fs mf wd i))"
  by (auto simp: writeManifest_def writeJSON_def Let_def dest!: wf_write split: sum.splits if_splits)

lemma wf_prep_image: "wf_fs fs \<Longrightarrow> wf_fs (fst (prep_image gz fs mf cf dg tmp wd i))"
proof -
  assume w: "wf_fs fs"
  let ?cd = "''sha256:'' @ dg" and ?dest = "blob_dir wd @ ''/'' @ ''sha256:'' @ dg"
  show ?thesis
  proof (cases "copyFile fs (tmp @ ''/'' @ cf) ?dest")
    case (Inl e)
    with w show ?thesis unfolding prep_image_def Let_def Inl sum.case by simp
  next
    case (Inr fs1)
    then have w1: "wf_fs fs1" using w wf_write by (simp only: copyFile_def split: sum.splits) blast
    obtain fs2 x where m: "makeV2Manifest gz fs1 mf ?cd ?dest tmp wd = (fs2, x)" by (rule prod.exhaust)
    have w2: "wf_fs fs2" using wf_makeV2Manifest [OF w1, of gz mf ?cd ?dest tmp wd] unfolding m by simp
    show ?thesis
      unfolding prep_image_def Let_def Inr sum.case m prod.case
      using w2 wf_writeManifest [OF w2] by (cases x) simp_all
  qed
qed

lemma wf_prep_in: "wf_fs fs \<Longrightarrow> wf_fs (fst (prep_in gz fs tmp i rootdir))"
proof -
  assume w: "wf_fs fs"
  have p: "wf_fs fs2" if "prep_image gz fs1 mf cf dg tmp wd i = (fs2, x)" "wf_fs fs1" for fs1 fs2 mf cf dg wd x
    using wf_prep_image [OF that(2), of gz mf cf dg tmp wd i] that(1) by simp
  have m: "wf_fs (mkdir (mkdir (mkdir fs a) b) c)" for a b c by (intro wf_mkdir w)
  show ?thesis
    using w m by (auto simp: prep_in_def Let_def split: sum.splits list.splits option.splits json.splits prod.splits dest: p)
qed

lemma wf_ipfsPrep: "wf_fs fs \<Longrightarrow> wf_fs (fst (fst (ipfsPrep s gz fs w tmp i)))"
proof -
  assume wf: "wf_fs fs"
  obtain fs1 w1 x where m: "mktmp s fs w = ((fs1, w1), x)" by (metis prod_cases3 prod.collapse)
  have w1: "wf_fs fs1" using wf_mktmp [OF wf, of s w] m by simp
  have "wf_fs fs2" if "prep_in gz fs1 tmp i rootdir = (fs2, y)" for fs2 rootdir y
    using wf_prep_in [OF w1, of gz tmp i rootdir] that by simp
  with w1 m show ?thesis by (auto simp: ipfsPrep_def split: sum.splits prod.splits outcome.splits option.splits)
qed

lemma wf_push_image: "wf_fs fs \<Longrightarrow> wf_fs (fst (fst (push_image s gz untars r fs w reader i)))"
proof -
  assume wf: "wf_fs fs"
  obtain fs1 w1 x where m: "mktmp s fs w = ((fs1, w1), x)" by (metis prod_cases3 prod.collapse)
  have w1: "wf_fs fs1" using wf_mktmp [OF wf, of s w] m by simp
  have u: "wf_fs fs2" if "untar fs1 es err tmp = (fs2, e)" for es err tmp fs2 e
    using wf_untar [OF w1, of es err tmp] that by simp
  have p: "wf_fs fs3" if "ipfsPrep s gz fs2 w1 tmp i = ((fs3, w2), y)" "wf_fs fs2" for fs2 fs3 w2 tmp y
    using wf_ipfsPrep [OF that(2), of s gz w1 tmp i] that(1) by simp
  show ?thesis
    using w1 m by (auto simp: push_image_def split: sum.splits prod.splits outcome.splits option.splits dest: u p)
qed

lemma wf_PushImageByID: "wf_fs fs \<Longrightarrow> wf_fs (fst (fst (PushImageByID s gz untars r fs w i)))"
  using wf_push_image by (auto simp: PushImageByID_def split: prod.splits sum.splits)

lemma wf_SaveImageTar: "wf_fs fs \<Longrightarrow> wf_fs (fst (fst (SaveImageTar d fs w i dest)))"
  by (auto simp: SaveImageTar_def intro: wf_write split: prod.splits sum.splits)

section \<open>The server keeps the disk well formed\<close>

lemma wf_cids_add: "wf_fs (disk st) \<Longrightarrow> wf_fs (disk (cids_add st r t c))"
  using wf_write_cid by (auto simp: cids_add_def store_add_def Let_def)

lemma wf_cids_add_all: "wf_fs (disk st) \<Longrightarrow> wf_fs (disk (foldl (\<lambda>s d. cids_add s r d c) st ds))"
  by (induction ds arbitrary: st) (simp_all add: wf_cids_add)

lemma wf_fetch: "wf_fs (disk st) \<Longrightarrow> fetch cfg repo t st = (st', x) \<Longrightarrow> wf_fs (disk st')"
proof -
  assume w: "wf_fs (disk st)" and f: "fetch cfg repo t st = (st', x)"
  obtain st1 y where r: "resolveCID cfg (make_repo repo st) repo t = (st1, y)" by fastforce
  have d: "disk st1 = disk st" using resolveCID_frame [of cfg "make_repo repo st" repo t] r by (simp add: frame_simps)
  have "wf_fs (disk (put_manifest repo a mf (put_manifest repo b mf (st1\<lparr>world := v\<rparr>))))" for a b mf v
    using w d by (simp add: frame_simps)
  from wf_cids_add [OF this] show ?thesis
    using f r w d by (auto simp: fetch_def frame_simps Let_def split: option.splits prod.splits sum.splits)
qed

lemma wf_manifests_handle: "wf_fs (disk st) \<Longrightarrow> wf_fs (disk (fst (manifests_handle cfg req st resp)))"
proof -
  assume w: "wf_fs (disk st)"
  have get: "wf_fs (disk (fst (manifest_get cfg repo t st resp)))" "wf_fs (disk (fst (manifest_head cfg repo t st resp)))" for repo t
  proof -
    obtain st1 x where f: "fetch cfg repo t st = (st1, x)" by fastforce
    obtain st2 y where r: "resolveCID cfg st1 repo t = (st2, y)" by fastforce
    have w1: "wf_fs (disk st1)" by (rule wf_fetch [OF w f])
    have w2: "wf_fs (disk st2)" using resolveCID_frame [of cfg st1 repo t] r w1 by simp
    show "wf_fs (disk (fst (manifest_get cfg repo t st resp)))" "wf_fs (disk (fst (manifest_head cfg repo t st resp)))"
      using w w1 w2 wf_cids_add_all [OF w2] f r
      by (auto simp: manifest_get_def manifest_head_def split: sum.splits outcome.splits)
  qed
  have add: "wf_fs (disk (fst (add_image cfg repo t dg b ls s resp)))" if "disk s = disk st" for repo t dg b ls and s :: "'a registry"
    using w that by (auto simp: add_image_def intro!: wf_cids_add split: prod.splits sum.splits)
  have commit: "wf_fs (disk (fst (manifest_commit cfg repo t dg b s resp)))" if d: "disk s = disk st" for repo t dg b and s :: "'a registry"
    by (rule manifest_commit_cases [of s repo cfg t dg b resp]) (use add w d in simp_all)
  have "wf_fs (disk (fst (manifest_put cfg repo t req st resp)))" for repo t
    using w commit by (auto simp: manifest_put_def frame_simps Let_def split: option.splits)
  with get w show ?thesis by (simp add: manifests_handle_def Let_def)
qed

lemma wf_root: "wf_fs (disk st) \<Longrightarrow> wf_fs (disk (fst (root cfg req st)))"
proof -
  assume w: "wf_fs (disk st)"
  have b: "disk (fst (blobs_handle cfg req st resp)) = disk st" for resp
    using blobs_handle_step [of st cfg req resp] by (simp add: blobs_step_ok_def blobs_frame_def)
  have "wf_fs (disk (fst (v2 cfg req st new_response)))"
    using w b wf_manifests_handle [OF w] by (auto simp: v2_def Let_def split: outcome.splits)
  moreover have "disk (fst (dig cfg req st new_response)) = disk st"
    by (auto simp: dig_def dig_found_def Let_def split: prod.splits option.splits sum.splits)
  ultimately show ?thesis
    using w by (auto simp: root_def split: prod.splits outcome.splits option.splits)
qed

text \<open>
  Files and directories stay in order. On a disk where every node lies in a directory and
  has a single plain name, pushing an image from the engine (whatever its archive holds and
  wherever the push fails), saving one, and any request to the server leave such a disk.
\<close>
theorem disk_stays_well_formed:
  assumes "wf_fs fs" and "disk st = fs"
  shows "wf_fs (fst (fst (PushImageByID s gz untars r fs w i))) \<and> wf_fs (fst (fst (SaveImageTar d fs w' i dest))) \<and>
    wf_fs (disk (fst (root cfg req st)))"
  by (intro conjI wf_PushImageByID wf_SaveImageTar wf_root) (simp_all add: assms)

theorem disk_stays_well_formed_witness:
  "wf_fs (fst (fst (PushImageByID offline (\<lambda>b. b) (\<lambda>s. ([], None)) app_client empty_disk () ''app''))) \<and>
   wf_fs (disk (fst (root (local_config offline) (manifest_req ''PUT'' ''a'' ''v1'' ''m'' []) local_registry)))"
  using disk_stays_well_formed [OF wf_empty_disk, where st = local_registry and s = offline and gz = "\<lambda>b. b"
      and untars = "\<lambda>s. ([], None)" and r = app_client and w = "()" and i = "''app''" and cfg = "local_config offline"
      and req = "manifest_req ''PUT'' ''a'' ''v1'' ''m'' []" and d = app_engine and w' = "()" and dest = "''/x''"] by simp

section \<open>Reading a directory\<close>

text \<open>A tree that was read has no file that the disk does not have, and no hidden one.\<close>

lemma map_opt_keys: "map_opt (\<lambda>c. map_option (Pair c) (f c)) xs = Some ys \<Longrightarrow> map_of ys c = Some y \<Longrightarrow> c \<in> set xs \<and> f c = Some y"
  by (induction xs arbitrary: ys) (auto split: option.splits if_splits)

lemma dir_tree_sound:
  "dir_tree n fs k = Some t \<Longrightarrow> tree_file t cs = Some b \<Longrightarrow>
   fs_node fs (k @ cs) = Some (File b) \<and> (\<forall>c \<in> set cs. \<not> has_prefix c ''.'')"
proof (induction cs arbitrary: n k t)
  case Nil
  then show ?case
    by (cases t) (auto simp: dir_tree.simps [of n] split: if_splits option.splits fnode.splits nat.splits)
next
  case (Cons c cs)
  then obtain m where t: "t = FDir m" by (cases t) auto
  with Cons.prems(1) obtain n' kids where
    kids: "map_opt (\<lambda>c. map_option (Pair c) (dir_tree n' fs (k @ [c]))) (visible_names fs k) = Some kids" "m = map_of kids"
    by (auto simp: dir_tree.simps [of n] split: if_splits option.splits fnode.splits nat.splits)
  from Cons.prems(2) t obtain t' where t': "m c = Some t'" "tree_file t' cs = Some b" by (auto split: option.splits)
  from map_opt_keys [OF kids(1), of c t'] t'(1) kids(2)
  have c: "c \<in> set (visible_names fs k)" "dir_tree n' fs (k @ [c]) = Some t'" by simp_all
  from Cons.IH [OF c(2) t'(2)] c(1) show ?case by (simp add: visible_names_def)
qed

text \<open>
  C22: \<open>AddDir\<close> reads every directory to its end, however deep it is, and sends what is there. On a
  well-formed disk whose files can be read it sends one tree, and the files of that tree are
  exactly the files below the directory that are not hidden, each at its path with its
  content. The answer is the last hash the daemon reports, if there is one, and otherwise an error;
  but when the request to the daemon fails it is the empty hash, without an error.
\<close>
theorem directory_sent_completely:
  assumes "wf_fs fs" and "readable fs" and "fs_key fs dir = Some k" and "fs_node fs k \<noteq> None"
  shows "\<exists>t. (\<forall>cs b. tree_file t cs = Some b \<longleftrightarrow>
      fs_node fs (k @ cs) = Some (File b) \<and> (\<forall>c \<in> set cs. \<not> has_prefix c ''.'')) \<and>
    AddDir s fs w cl dir =
      (case api_add s w (shell_url cl) (FDir [path_base dir \<mapsto> t]) of
         (w', SendFailed e) \<Rightarrow> (w', Inr [])
       | (w', ReplyError e) \<Rightarrow> (w', Inl e)
       | (w', ReplyOutput js e) \<Rightarrow>
           (w', case final_hash js e [] of
                  Inl e' \<Rightarrow> Inl e'
                | Inr h \<Rightarrow> if h = [] then Inl (GoError ''no results received'') else Inr h))"
proof -
  have "dir_tree (Suc (fs_depth fs)) fs k \<noteq> None"
    by (rule dir_tree_total) (use assms(2,4) in \<open>simp_all add: readable_def\<close>)
  then obtain t where t: "dir_tree (Suc (fs_depth fs)) fs k = Some t" by blast
  have "tree_file t cs = Some b \<longleftrightarrow> fs_node fs (k @ cs) = Some (File b) \<and> (\<forall>c \<in> set cs. \<not> has_prefix c ''.'')" for cs b
  proof
    assume f: "fs_node fs (k @ cs) = Some (File b) \<and> (\<forall>c \<in> set cs. \<not> has_prefix c ''.'')"
    have "is_dir fs (k @ take i cs)" if "i < length cs" for i
      using wf_prefix_dir [OF assms(1), of "k @ take i cs" "drop i cs"] f that by simp
    with f show "tree_file t cs = Some b" by (intro dir_tree_file [OF t]) simp_all
  qed (rule dir_tree_sound [OF t])
  moreover have "AddDir s fs w cl dir =
      (case api_add s w (shell_url cl) (FDir [path_base dir \<mapsto> t]) of
         (w', SendFailed e) \<Rightarrow> (w', Inr [])
       | (w', ReplyError e) \<Rightarrow> (w', Inl e)
       | (w', ReplyOutput js e) \<Rightarrow>
           (w', case final_hash js e [] of
                  Inl e' \<Rightarrow> Inl e'
                | Inr h \<Rightarrow> if h = [] then Inl (GoError ''no results received'') else Inr h))"
    using assms(2-4) t by (auto simp: AddDir_def readable_def split: prod.splits api_reply.splits sum.splits)
  ultimately show ?thesis by blast
qed

text \<open>A directory with a file, a hidden file, and a file two levels down.\<close>

definition small_dir :: file_system where
  "small_dir = fs_put (fs_put (fs_put (fs_put (fs_put empty_disk [''d''] Dir) [''d'', ''f''] (File ''1''))
     [''d'', ''.h''] (File ''2'')) [''d'', ''e''] Dir) [''d'', ''e'', ''g''] (File ''3'')"

theorem directory_sent_completely_witness:
  "\<exists>t. tree_file t [''f''] = Some ''1'' \<and> tree_file t [''e'', ''g''] = Some ''3'' \<and> tree_file t [''.h''] = None \<and>
    AddDir (offline\<lparr>api_add := (\<lambda>w u t. (w, ReplyOutput [] None))\<rparr>) small_dir () (cl_ipfs app_client) ''/d'' = ((), Inl (GoError ''no results received''))"
proof -
  have "wf_fs small_dir"
    unfolding small_dir_def by (intro wf_put wf_empty_disk) (simp_all add: ok_key_def is_dir_def fs_simps plain_comp_def fs_node_empty_disk)
  moreover have "readable small_dir" by (simp add: readable_def small_dir_def fs_simps empty_disk_def)
  moreover have "fs_key small_dir ''/d'' = Some [''d'']" "fs_node small_dir [''d''] \<noteq> None" by code_simp+
  ultimately obtain t where
    t: "\<And>cs b. tree_file t cs = Some b \<longleftrightarrow> fs_node small_dir ([''d''] @ cs) = Some (File b) \<and> (\<forall>c \<in> set cs. \<not> has_prefix c ''.'')"
    and a: "AddDir (offline\<lparr>api_add := (\<lambda>w u t. (w, ReplyOutput [] None))\<rparr>) small_dir () (cl_ipfs app_client) ''/d'' =
      ((), Inl (GoError ''no results received''))"
    using directory_sent_completely [of small_dir "''/d''" "[''d'']" "offline\<lparr>api_add := (\<lambda>w u t. (w, ReplyOutput [] None))\<rparr>" "()"
        "cl_ipfs app_client"] by auto
  have "fs_node small_dir [''d'', ''f''] = Some (File ''1'')" "fs_node small_dir [''d'', ''e'', ''g''] = Some (File ''3'')"
    by code_simp+
  with t [of "[''f'']" "''1''"] t [of "[''e'', ''g'']" "''3''"]
  have f: "tree_file t [''f''] = Some ''1''" "tree_file t [''e'', ''g''] = Some ''3''" by simp_all
  have "tree_file t [''.h''] \<noteq> Some b" for b using t [of "[''.h'']" b] by simp
  then have "tree_file t [''.h''] = None" by (metis option.exhaust)
  with f a show ?thesis by blast
qed

end
