(* ===== verification/CommandLine.thy ===== *)
theory CommandLine
  imports Files
begin

text \<open>
  The command line, \<open>cmd/ipdr/ipdr.go\<close>: the flags with their defaults and what each command
  does with them. Parsing the command line and printing usage and errors is \<open>cobra\<close>'s work.
\<close>

section \<open>Flags\<close>

text \<open>
  The variables that the flags of all commands share. A flag that a command does not declare
  has the default that another command declared for it.
\<close>

record flags =
  silent :: bool
  ipfsHost :: string
  ipfsGateway :: string
  format :: string
  dockerRegistryHost :: string
  port :: "64 word"
  tlsCertPath :: string
  tlsKeyPath :: string
  cidResolvers :: "string list"
  cidStorePath :: string
  shortFormat :: bool

text \<open>\<open>home\<close> is what \<open>os.UserHomeDir\<close> returns, empty on an error.\<close>

definition defaultCIDStore :: "string \<Rightarrow> string" where
  "defaultCIDStore home = (if home \<noteq> [] then path_join [home, ''.ipdr/cids''] else [])"

definition default_flags :: "string \<Rightarrow> flags" where
  "default_flags home =
     \<lparr>silent = False, ipfsHost = ''127.0.0.1:5001'', ipfsGateway = ''127.0.0.1:8080'', format = [],
      dockerRegistryHost = ''docker.local:5000'', port = 5000, tlsCertPath = [], tlsKeyPath = [],
      cidResolvers = [''file:'' @ defaultCIDStore home], cidStorePath = defaultCIDStore home, shortFormat = True\<rparr>"

section \<open>Arguments\<close>

definition ErrImageIDRequired :: go_error where
  "ErrImageIDRequired = GoError ''image hash or name is required''"

definition ErrOnlyOneArgumentRequired :: go_error where
  "ErrOnlyOneArgumentRequired = GoError ''only one argument is required''"

definition ErrInvalidConvertFormat :: go_error where
  "ErrInvalidConvertFormat =
     GoError (''convert format must be either '' @ [CHR 0x22] @ ''docker'' @ [CHR 0x22] @ '' or '' @ [CHR 0x22] @ ''ipfs'' @ [CHR 0x22])"

text \<open>The check of \<open>push\<close> and \<open>pull\<close>, and those of \<open>convert\<close> and \<open>dig\<close>.\<close>

definition image_args :: "string list \<Rightarrow> go_error option" where
  "image_args args =
     (if length args = 0 then Some ErrImageIDRequired
      else if length args \<noteq> 1 then Some ErrOnlyOneArgumentRequired else None)"

definition convert_args :: "flags \<Rightarrow> string list \<Rightarrow> go_error option" where
  "convert_args fl args =
     (if length args \<noteq> 1 then Some ErrOnlyOneArgumentRequired
      else if \<not> (format fl = ''docker'' \<or> format fl = ''ipfs'') then Some ErrInvalidConvertFormat else None)"

definition dig_args :: "string list \<Rightarrow> go_error option" where
  "dig_args args = (if length args \<noteq> 1 then Some ErrOnlyOneArgumentRequired else None)"

section \<open>Commands\<close>

text \<open>What is printed on the terminal, in the colour that \<open>green\<close> gives it, and the error.\<close>

type_synonym cmd_result = "string \<times> go_error option"

definition line :: "string \<Rightarrow> string" where
  "line s = s @ [CHR 0x0A]"

definition client_flags :: "flags \<Rightarrow> client_config" where
  "client_flags fl =
     \<lparr>cc_DockerLocalRegistryHost = dockerRegistryHost fl, cc_IPFSHost = ipfsHost fl, cc_IPFSGateway = ipfsGateway fl, cc_Debug = \<not> silent fl\<rparr>"

definition push_cmd :: "'w services \<Rightarrow> (bytes \<Rightarrow> bytes) \<Rightarrow> untarrer \<Rightarrow> 'w engine result \<Rightarrow> string \<Rightarrow> net_addr list result list result \<Rightarrow>
    (string \<Rightarrow> string) \<Rightarrow> flags \<Rightarrow> string list \<Rightarrow> file_system \<Rightarrow> 'w \<Rightarrow> (file_system \<times> 'w) \<times> cmd_result outcome" where
  "push_cmd s gz untars from_env env ifaces green fl args fs w =
     (case image_args args of
        Some e \<Rightarrow> ((fs, w), Done ([], Some e))
      | None \<Rightarrow>
          (case NewRegistry s from_env env ifaces w (Some (client_flags fl)) of
             (w1, Done reg) \<Rightarrow>
               (case PushImageByID s gz untars reg fs w1 (args ! 0) of
                  (st, Done (Inl e)) \<Rightarrow> (st, Done ([], Some e))
                | (st, Done (Inr hash)) \<Rightarrow>
                    (st, Done (if silent fl then line hash
                               else line (green (line [] @ line ''Successfully pushed Docker image to IPFS:'' @ ''/ipfs/'' @ hash)), None))
                | (st, Panicked) \<Rightarrow> (st, Panicked)
                | (st, Blocked) \<Rightarrow> (st, Blocked))
           | (w1, Panicked) \<Rightarrow> ((fs, w1), Panicked)
           | (w1, Blocked) \<Rightarrow> ((fs, w1), Blocked)))"

text \<open>\<open>pull\<close> may have started a server, which is returned with the result.\<close>

definition pull_cmd :: "'w services \<Rightarrow> 'w engine result \<Rightarrow> string \<Rightarrow> net_addr list result list result \<Rightarrow>
    (string \<Rightarrow> string) \<Rightarrow> flags \<Rightarrow> string list \<Rightarrow> 'w \<Rightarrow> 'w \<times> (server option \<times> cmd_result) outcome" where
  "pull_cmd s from_env env ifaces green fl args w =
     (case image_args args of
        Some e \<Rightarrow> (w, Done (None, [], Some e))
      | None \<Rightarrow>
          (case NewRegistry s from_env env ifaces w (Some (client_flags fl)) of
             (w1, Done reg) \<Rightarrow>
               (case pull_image s reg w1 (args ! 0) of
                  (w2, Done (srv, Inl e)) \<Rightarrow> (w2, Done (srv, [], Some e))
                | (w2, Done (srv, Inr tag)) \<Rightarrow>
                    (w2, Done (srv, if silent fl then line tag
                                    else line (green (line [] @ line ''Successfully pulled Docker image from IPFS:'' @ tag)), None))
                | (w2, Panicked) \<Rightarrow> (w2, Panicked)
                | (w2, Blocked) \<Rightarrow> (w2, Blocked))
           | (w1, Panicked) \<Rightarrow> (w1, Panicked)
           | (w1, Blocked) \<Rightarrow> (w1, Blocked)))"

definition ensureCIDStorePath :: "file_system \<Rightarrow> string \<Rightarrow> file_system \<times> go_error option" where
  "ensureCIDStorePath fs loc = mkdir_all fs loc"

definition server_flags :: "flags \<Rightarrow> server_config" where
  "server_flags fl =
     \<lparr>sc_Debug = \<not> silent fl, sc_Port = port fl, sc_IPFSHost = ipfsHost fl, sc_IPFSGateway = ipfsGateway fl,
      sc_CIDResolvers = cidResolvers fl, sc_CIDStorePath = cidStorePath fl, sc_TLSCertPath = tlsCertPath fl,
      sc_TLSKeyPath = tlsKeyPath fl\<rparr>"

text \<open>\<open>server\<close> up to the point where it serves the registry of the new \<open>mux\<close>.\<close>

definition server_cmd :: "'w services \<Rightarrow> (string \<Rightarrow> go_error option) \<Rightarrow> flags \<Rightarrow> file_system \<Rightarrow> 'w \<Rightarrow>
    (file_system \<times> 'w \<times> 'w mux) \<times> go_error option outcome" where
  "server_cmd s lst fl fs w =
     (case ensureCIDStorePath fs (cidStorePath fl) of
        (fs1, Some e) \<Rightarrow> ((fs1, w, None), Done (Some e))
      | (fs1, None) \<Rightarrow>
          (case NewServer (Some (server_flags fl)) of
             Done srv \<Rightarrow> (case Start s lst fs1 w None srv of ((w1, m, srv'), r) \<Rightarrow> ((fs1, w1, m), r))
           | Panicked \<Rightarrow> ((fs1, w, None), Panicked)
           | Blocked \<Rightarrow> ((fs1, w, None), Blocked)))"

definition convert_cmd :: "flags \<Rightarrow> string list \<Rightarrow> cmd_result" where
  "convert_cmd fl args =
     (case convert_args fl args of
        Some e \<Rightarrow> ([], Some e)
      | None \<Rightarrow>
          if format fl = ''docker'' then (line (DockerizeHash (args ! 0)), None)
          else if format fl = ''ipfs'' then (line (IpfsifyHash (args ! 0)), None)
          else ([], Some ErrInvalidConvertFormat))"

text \<open>A failed lookup is printed, but it is not an error of the command.\<close>

definition dig_cmd :: "'w services \<Rightarrow> flags \<Rightarrow> string list \<Rightarrow> 'w \<Rightarrow> 'w \<times> cmd_result" where
  "dig_cmd s fl args w =
     (case dig_args args of
        Some e \<Rightarrow> (w, [], Some e)
      | None \<Rightarrow>
          (case Dig s w (dockerRegistryHost fl) (shortFormat fl) (args ! 0) of
             (w', Inl err) \<Rightarrow> (w', line (err_msg err), None)
           | (w', Inr x) \<Rightarrow> (w', x, None)))"

text \<open>The exit code of the program.\<close>

definition exit_code :: "go_error option \<Rightarrow> nat" where
  "exit_code e = (if e = None then 0 else 1)"

section \<open>The directory of the store\<close>

lemma mk_dirs_exist: "(\<And>n. n \<le> length cs \<Longrightarrow> is_dir fs (cur @ take n cs)) \<Longrightarrow> mk_dirs fs cur cs = (fs, None)"
proof (induction cs arbitrary: cur)
  case (Cons c cs)
  have "fs_node fs (cur @ [c]) = Some Dir" using Cons.prems [of 1] by (simp add: is_dir_def)
  moreover have "is_dir fs ((cur @ [c]) @ take n cs)" if "n \<le> length cs" for n
    using Cons.prems [of "Suc n"] that by simp
  ultimately show ?case using Cons.IH [of "cur @ [c]"] by simp
qed simp

lemma disk_ready_mk_dirs:
  assumes "disk_ready fs (cs @ ds)" and "ds \<noteq> []"
  shows "snd (mk_dirs fs [] cs) = None" and "disk_ready (fst (mk_dirs fs [] cs)) (cs @ ds)"
proof -
  have "fs_node fs (take n cs) \<noteq> Some (File b)" if "n \<le> length cs" for n b
    using assms that unfolding disk_ready_def by (cases ds) (auto dest!: spec [of _ n])
  with assms show "snd (mk_dirs fs [] cs) = None" by (intro mk_dirs_ok) (auto simp: disk_ready_def)
  have "cs @ ds \<noteq> take n cs" for n
  proof
    assume "cs @ ds = take n cs"
    then have "length (cs @ ds) \<le> length cs" by simp
    with assms(2) show False by simp
  qed
  then have "\<not> is_dir (fst (mk_dirs fs [] cs)) (cs @ ds)"
    using mk_dirs_only [of fs "[]" cs "cs @ ds"] assms by (auto simp: disk_ready_def)
  with assms(1) show "disk_ready (fst (mk_dirs fs [] cs)) (cs @ ds)"
    using mk_dirs_frame [of fs "[]" cs] by (simp add: disk_ready_def mk_dirs_files)
qed

lemma write_cid_dirs: "is_dir fs d \<Longrightarrow> is_dir (fst (write_cid st fs k v)) d"
proof -
  assume d: "is_dir fs d"
  have "is_dir (fst (mkdir_all fs q)) d" for q using mk_dirs_mono [OF d] d by (simp add: mkdir_all_def)
  then show ?thesis
    by (auto simp: write_cid_def Let_def write_file_frame(4) split: prod.splits option.splits sum.splits
        dest!: eq_fst_iff [THEN iffD2, OF exI])
qed

lemma store_add_dirs: "is_dir (snd s) d \<Longrightarrow> is_dir (snd (store_add s r t c)) d"
  by (simp add: store_add_def Let_def write_cid_dirs)

lemma mkdir_all_rooted: "rooted p \<Longrightarrow> mkdir_all fs p = mk_dirs fs [] (clean_path_comps p)"
  by (auto simp: mkdir_all_def abs_comps_def clean_path_comps_def rooted_def)

section \<open>Starting the server\<close>

lemma rooted_defaultCIDStore: "rooted home \<Longrightarrow> rooted (defaultCIDStore home)"
proof -
  assume r: "rooted home"
  then have "home \<noteq> []" by (cases home) (simp_all add: rooted_def)
  moreover have "rooted (home @ CHR ''/'' # q)" for q using r by (cases home) (simp_all add: rooted_def)
  ultimately show ?thesis
    unfolding defaultCIDStore_def path_join_def by (simp add: path_clean_rooted rooted_abs_path)
qed

lemma defaultCIDStore_comps: "rooted home \<Longrightarrow> clean_path_comps (defaultCIDStore home) = clean_path_comps home @ [''.ipdr'', ''cids'']"
proof -
  assume r: "rooted home"
  have p: "list_all plain_comp [''.ipdr'', ''cids'']" by (simp add: plain_comp_def)
  have "home \<noteq> []" using r by (auto simp: rooted_def)
  then have "defaultCIDStore home = abs_path (clean_path_comps home @ [''.ipdr'', ''cids''])"
    using path_join_plain [OF r _ p] by (simp add: defaultCIDStore_def)
  then show ?thesis using p by (simp add: clean_path_comps_abs_path)
qed

text \<open>The IPFS client of a server that runs with the default hosts.\<close>

definition default_ipfs :: ipfs_client where
  "default_ipfs =
     \<lparr>shell_url = ''127.0.0.1:5001'', isRemote = True, host = ''127.0.0.1:5001'', gatewayURL = ''http://127.0.0.1:8080''\<rparr>"

text \<open>The command with the default flags, but any list of resolvers.\<close>

lemma server_cmd_serves:
  assumes "rooted home" and "mkdir_all fs (defaultCIDStore home) = (fs1, None)" and "lst ''0.0.0.0:5000'' = None"
    and "NewResolver s w default_ipfs l = (w1, rs)"
  shows "server_cmd s lst ((default_flags home)\<lparr>cidResolvers := l\<rparr>) fs w =
    ((fs1, w1, Some (\<lparr>sv = s, IPFSGateway = ''http://127.0.0.1:8080'', ipfsClient = default_ipfs, resolvers = rs\<rparr>,
        new_registry (defaultCIDStore home) fs1 w1)), Done None)"
proof -
  let ?fl = "(default_flags home)\<lparr>cidResolvers := l\<rparr>" and ?loc = "defaultCIDStore home"
  have mk: "ensureCIDStorePath fs ?loc = (fs1, None)" using assms(2) by (simp add: ensureCIDStorePath_def)
  have f: "cidStorePath ?fl = ?loc" "ipfsHost ?fl = ''127.0.0.1:5001''" "ipfsGateway ?fl = ''127.0.0.1:8080''" "port ?fl = 5000"
    "cidResolvers ?fl = l"
    unfolding default_flags_def by (simp_all only: flags.simps)
  have p: "nat_str (unat (5000 :: 64 word)) = ''5000''" by (simp add: nat_str_5000)
  define srv where "srv = \<lparr>srv_debug = sc_Debug (server_flags ?fl), srv_listening = False, srv_host = ''0.0.0.0:'' @ nat_str (unat (5000 :: 64 word)),
    srv_ipfsHost = ''127.0.0.1:5001'', srv_ipfsGateway = ''http://127.0.0.1:8080'', srv_cidResolvers = l,
    srv_cidStorePath = ?loc, srv_tlsCertPath = tlsCertPath ?fl, srv_tlsKeyPath = tlsKeyPath ?fl\<rparr>"
  have nz: "(5000 :: 64 word) \<noteq> 0" by simp
  have new: "NewServer (Some (server_flags ?fl)) = Done srv"
    unfolding NewServer_def server_flags_def srv_def Let_def
    by (simp only: f option.case server_config.simps normalize_examples(1) outcome.case nz simp_thms if_True)
  have "srv_host srv = ''0.0.0.0:'' @ nat_str (unat (5000 :: 64 word))" unfolding srv_def by (simp only: server.simps)
  then have host: "srv_host srv = ''0.0.0.0:5000''" unfolding p by simp
  have c: "reg_Config srv = \<lparr>IPFSHost = ''127.0.0.1:5001'', cfg_gateway = ''http://127.0.0.1:8080'', CIDResolvers = l, CIDStorePath = ?loc\<rparr>"
    "\<not> srv_listening srv"
    unfolding srv_def reg_Config_def by (simp_all only: server.simps simp_thms)
  have "New s fs1 w (reg_Config srv) =
      (w1, Done (\<lparr>sv = s, IPFSGateway = ''http://127.0.0.1:8080'', ipfsClient = default_ipfs, resolvers = rs\<rparr>, new_registry ?loc fs1 w1))"
    unfolding c(1) using assms(4) by (simp add: New_def NewRemoteClient_def default_ipfs_def)
  with mk new host c(2) assms(3) show ?thesis by (simp add: server_cmd_def Start_def f)
qed

lemma server_starts:
  assumes "rooted home" and "mkdir_all fs (defaultCIDStore home) = (fs1, None)" and "lst ''0.0.0.0:5000'' = None"
  obtains w1 cfg where "server_cmd s lst (default_flags home) fs w =
    ((fs1, w1, Some (cfg, new_registry (defaultCIDStore home) fs1 w1)), Done None)"
proof -
  obtain w1 rs where "NewResolver s w default_ipfs (cidResolvers (default_flags home)) = (w1, rs)" by fastforce
  from server_cmd_serves [where lst = lst, OF assms this] that show ?thesis by simp
qed

text \<open>
  C16: The command \<open>server\<close> keeps what it learns. Started with the default flags on a disk that can
  be written, and with its port free, it serves with its CID store at \<open>.ipdr/cids\<close> below the home
  directory, which is a directory of the disk then, with every directory above it. A name and tag
  that are then added to its store are resolved to the same CID by the server that the same command
  starts, later, on the disk that the first one left.
\<close>
theorem server_restart_keeps_names:
  assumes "rooted home" and "proper r t" and "\<not> has_prefix t ''sha256:''" and "r \<noteq> c"
    and "disk_ready fs (file_of (defaultCIDStore home) r t)" and "lst ''0.0.0.0:5000'' = None"
  shows "\<exists>fs1 w1 cfg st. server_cmd s lst (default_flags home) fs w = ((fs1, w1, Some (cfg, st)), Done None) \<and>
    clean_path_comps (location (reg_cids st)) = clean_path_comps home @ [''.ipdr'', ''cids''] \<and>
    (\<forall>n. is_dir fs1 (take n (clean_path_comps home @ [''.ipdr'', ''cids'']))) \<and> disk st = fs1 \<and>
    (\<exists>w2 cfg2 st2. server_cmd s lst (default_flags home) (disk (cids_add st r t c)) w' =
        ((disk (cids_add st r t c), w2, Some (cfg2, st2)), Done None) \<and>
      resolveCID cfg2 st2 r t = (st2, Inr c))"
proof -
  let ?loc = "defaultCIDStore home"
  let ?cs = "clean_path_comps ?loc"
  define fs1 where "fs1 = fst (mk_dirs fs [] ?cs)"
  note loc = rooted_defaultCIDStore [OF assms(1)]
  have ready: "disk_ready fs (?cs @ name_comps r @ [t])" using assms(5) by simp
  have ok: "snd (mk_dirs fs [] ?cs) = None" and ready1: "disk_ready fs1 (?cs @ name_comps r @ [t])"
    using disk_ready_mk_dirs [OF ready] by (simp_all add: fs1_def)
  have mk: "mkdir_all fs ?loc = (fs1, None)" using ok by (simp add: mkdir_all_rooted [OF loc] fs1_def prod_eq_iff)
  obtain w1 cfg where st1: "server_cmd s lst (default_flags home) fs w =
      ((fs1, w1, Some (cfg, new_registry ?loc fs1 w1)), Done None)"
    by (rule server_starts [OF assms(1) mk, where lst = lst, OF assms(6)])
  let ?st = "new_registry ?loc fs1 w1"
  define d where "d = disk (cids_add ?st r t c)"
  have d: "d = snd (store_add (new_cid_store ?loc, fs1) r t c)"
    using cids_add_store [of ?st r t c] by (simp add: d_def new_registry_def prod_eq_iff)
  have "is_dir d (take n ?cs)" if "n \<le> length ?cs" for n
    using store_add_dirs [of "(new_cid_store ?loc, fs1)"] mk_dirs_dirs [OF ok _ that] by (simp add: d fs1_def)
  then have "mkdir_all d ?loc = (d, None)" by (simp add: mkdir_all_rooted [OF loc] mk_dirs_exist)
  then obtain w2 cfg2 where st2: "server_cmd s lst (default_flags home) d w' =
      ((d, w2, Some (cfg2, new_registry ?loc d w2)), Done None)"
    by (rule server_starts [OF assms(1), where lst = lst, OF _ assms(6)])
  have pr: "wf_name r" "plain_comp t" "t \<noteq> []" using assms(2) by (auto simp: proper_def plain_comp_def)
  have "read_file d (abs_path (file_of ?loc r t)) = Inr c"
    using store_add_read [of "(new_cid_store ?loc, fs1)" r t c] loc pr assms(3,4) ready1 by (simp add: d new_cid_store_def)
  then have "cids_get (new_registry ?loc d w2) r t = Some c"
    by (simp add: cids_get_def store_get_def read_cid_def new_registry_def new_cid_store_def cid_path_wf [OF loc pr(1,2)])
  then have r2: "resolveCID cfg2 (new_registry ?loc d w2) r t = (new_registry ?loc d w2, Inr c)"
    using pr(3) by (intro resolveCID_held) simp
  note cs = defaultCIDStore_comps [OF assms(1)]
  have "is_dir fs1 (take n ?cs)" for n
    using mk_dirs_dirs [OF ok _, of n] mk_dirs_dirs [OF ok _, of "length ?cs"] by (cases "n \<le> length ?cs") (simp_all add: fs1_def)
  then have dirs: "\<forall>n. is_dir fs1 (take n (clean_path_comps home @ [''.ipdr'', ''cids'']))" unfolding cs by simp
  have "clean_path_comps (location (reg_cids ?st)) = clean_path_comps home @ [''.ipdr'', ''cids'']" "disk ?st = fs1"
    using cs by (simp_all add: new_registry_def new_cid_store_def)
  with st1 st2 r2 dirs show ?thesis unfolding d_def by blast
qed

theorem server_restart_keeps_names_witness:
  "\<exists>fs1 w1 cfg st. server_cmd offline (\<lambda>h. None) (default_flags ''/root'') empty_disk () = ((fs1, w1, Some (cfg, st)), Done None) \<and>
    is_dir fs1 [''root'', ''.ipdr'', ''cids''] \<and>
    (\<exists>w2 cfg2 st2. server_cmd offline (\<lambda>h. None) (default_flags ''/root'') (disk (cids_add st ''a'' ''v1'' ''bafy'')) () =
        ((disk (cids_add st ''a'' ''v1'' ''bafy''), w2, Some (cfg2, st2)), Done None) \<and>
      resolveCID cfg2 st2 ''a'' ''v1'' = (st2, Inr ''bafy''))"
proof -
  have "\<exists>fs1 w1 cfg st. server_cmd offline (\<lambda>h. None) (default_flags ''/root'') empty_disk () = ((fs1, w1, Some (cfg, st)), Done None) \<and>
    clean_path_comps (location (reg_cids st)) = clean_path_comps ''/root'' @ [''.ipdr'', ''cids''] \<and>
    (\<forall>n. is_dir fs1 (take n (clean_path_comps ''/root'' @ [''.ipdr'', ''cids'']))) \<and> disk st = fs1 \<and>
    (\<exists>w2 cfg2 st2. server_cmd offline (\<lambda>h. None) (default_flags ''/root'') (disk (cids_add st ''a'' ''v1'' ''bafy'')) () =
        ((disk (cids_add st ''a'' ''v1'' ''bafy''), w2, Some (cfg2, st2)), Done None) \<and>
      resolveCID cfg2 st2 ''a'' ''v1'' = (st2, Inr ''bafy''))"
    by (rule server_restart_keeps_names)
      (simp_all add: rooted_def proper_def wf_name_def name_comps_def plain_comp_def disk_ready_empty)
  moreover have "take 3 (clean_path_comps ''/root'' @ [''.ipdr'', ''cids'']) = [''root'', ''.ipdr'', ''cids'']" by code_simp
  ultimately show ?thesis by metis
qed

end
