(* ===== verification/Base58.thy ===== *)
theory Base58
  imports BaseEnc
begin

text \<open>
  Base 58 as the CID package computes it, \<open>vendor/github.com/mr-tron/base58/base58/base58.go\<close>:
  decoding into 32-bit limbs and encoding by carrying through a buffer of digits, both with
  machine arithmetic. The theorem states that they agree with the reference definitions
  \<open>DecodeAlphabet\<close> and \<open>EncodeAlphabet\<close>, so none of the overflow errors and none of the index
  errors that the code could have ever happens.
\<close>

section \<open>Decoding\<close>

text \<open>
  One character, the digit \<open>c\<close>: \<open>outi\<close> is multiplied by 58. The list holds the limbs from the
  last, where the loop over \<open>j\<close> starts, to the first.
\<close>

fun limb_step :: "w32 \<Rightarrow> w32 list \<Rightarrow> w32 list \<times> w32" where
  "limb_step c [] = ([], c)"
| "limb_step c (x # xs) =
     (let t = ucast x * 58 + ucast c :: 64 word;
          (ys, c') = limb_step (ucast (drop_bit 32 t) AND 0x3f) xs
      in (ucast (t AND 0xffffffff) # ys, c'))"

text \<open>The loop over the characters; the message of an invalid digit also names the digit.\<close>

fun limb_loop :: "string \<Rightarrow> w32 \<Rightarrow> string \<Rightarrow> w32 list \<Rightarrow> w32 list result" where
  "limb_loop al zmask [] outi = Inr outi"
| "limb_loop al zmask (r # rs) outi =
     (if 127 < byte_val r then Inl (GoError ''High-bit set on invalid digit'')
      else (case index_of al r of
              None \<Rightarrow> Inl (GoError ''Invalid base58 digit'')
            | Some d \<Rightarrow>
                (let (outi', c) = limb_step (of_nat d) outi in
                 if 0 < c then Inl (GoError ''Output number too big (carry to the next int32)'')
                 else if last outi' AND zmask \<noteq> 0
                   then Inl (GoError ''Output number too big (last int32 filled too far)'')
                 else limb_loop al zmask rs outi')))"

definition limb_bytes :: "nat \<Rightarrow> w32 \<Rightarrow> bytes" where
  "limb_bytes k x = map (\<lambda>m. byte_of (unat (ucast (drop_bit (8 * m) x) :: 8 word))) (rev [0..<k])"

text \<open>The bytes of the limbs, and without leading zero bytes but for \<open>zcount\<close> of them.\<close>

definition limbs_out :: "nat \<Rightarrow> w32 list \<Rightarrow> bytes" where
  "limbs_out bytesleft outi =
     (case rev outi of
        [] \<Rightarrow> []
      | x # xs \<Rightarrow> limb_bytes bytesleft x @ concat (map (limb_bytes 4) xs))"

definition skip_zeros :: "nat \<Rightarrow> bytes \<Rightarrow> bytes" where
  "skip_zeros zcount binu =
     (let n = length (takeWhile (\<lambda>v. v = byte_of 0) binu) in
      if n < length binu then drop (n - zcount) binu else binu)"

definition FastBase58Decoding :: "string \<Rightarrow> string \<Rightarrow> bytes result" where
  "FastBase58Decoding al str =
     (if str = [] then Inl (GoError ''zero length string'')
      else
        (let b58sz = length str;
             outisz = (b58sz + 3) div 4;
             bytesleft = b58sz mod 4;
             zmask = (if 0 < bytesleft then push_bit (bytesleft * 8) 0xffffffff else 0);
             zcount = length (takeWhile (\<lambda>r. r = al ! 0) str)
         in case limb_loop al zmask str (replicate outisz 0) of
              Inl e \<Rightarrow> Inl e
            | Inr outi \<Rightarrow> Inr (skip_zeros zcount (limbs_out (if 0 < bytesleft then bytesleft else 4) outi))))"

section \<open>Encoding\<close>

text \<open>
  One byte, the first carry \<open>c\<close>: the digits of \<open>tmp\<close>, from the last one, are multiplied by 256.
  The first \<open>k\<close> are those above \<open>high\<close>; the loop goes on until they are done and nothing is
  carried. The result has the number of digits visited; \<open>None\<close> is an index out of range.
\<close>

fun b58_carry :: "nat \<Rightarrow> w32 \<Rightarrow> 8 word list \<Rightarrow> (8 word list \<times> nat) option" where
  "b58_carry k c tmp =
     (if k = 0 \<and> c = 0 then Some (tmp, 0)
      else (case tmp of
              [] \<Rightarrow> None
            | x # xs \<Rightarrow>
                (let c1 = c + 256 * ucast x in
                 map_option (\<lambda>(ys, n). (ucast (c1 mod 58) # ys, Suc n)) (b58_carry (k - 1) (c1 div 58) xs))))"

declare b58_carry.simps [simp del]

fun b58_bytes :: "bytes \<Rightarrow> nat \<Rightarrow> 8 word list \<Rightarrow> 8 word list option" where
  "b58_bytes [] k tmp = Some tmp"
| "b58_bytes (b # bs) k tmp =
     (case b58_carry k (of_nat (byte_val b)) tmp of
        None \<Rightarrow> None
      | Some (tmp', k') \<Rightarrow> b58_bytes bs k' tmp')"

definition FastBase58Encoding :: "string \<Rightarrow> bytes \<Rightarrow> string option" where
  "FastBase58Encoding al bin =
     (let zcount = length (takeWhile (\<lambda>b. b = byte_of 0) bin);
          size = (length bin - zcount) * 138 div 100 + 1
      in map_option (\<lambda>tmp. replicate zcount (al ! 0) @ map (\<lambda>d. al ! unat d) (dropWhile (\<lambda>d. d = 0) (rev tmp)))
           (b58_bytes (drop zcount bin) 0 (replicate size 0)))"

section \<open>Limbs as numbers\<close>

lemma from_be_le: "from_be b ds = from_le b (rev ds)"
  by (induction ds rule: rev_induct) (simp_all add: algebra_simps)

lemma from_le_be: "from_le b ds = from_be b (rev ds)"
  by (simp add: from_be_le)

lemma from_le_less: "\<forall>d \<in> set ds. d < b \<Longrightarrow> from_le b ds < b ^ length ds"
  using from_be_less [of "rev ds" b] by (simp add: from_le_be)

definition limbs_nat :: "w32 list \<Rightarrow> nat" where
  "limbs_nat xs = from_le (2 ^ 32) (map unat xs)"

lemma limbs_nat_simps [simp]: "limbs_nat [] = 0" "limbs_nat (x # xs) = unat x + 2 ^ 32 * limbs_nat xs"
  "limbs_nat (replicate n 0) = 0"
  by (simp_all add: limbs_nat_def)

lemma w32_less: "unat x < 2 ^ 32" for x :: w32
proof -
  have "unat x < 2 ^ LENGTH(32)" by (rule unsigned_less)
  then show ?thesis by simp
qed

lemma limbs_nat_less: "limbs_nat xs < 2 ^ (32 * length xs)"
proof -
  have "\<forall>d \<in> set (map unat xs). d < 2 ^ 32" using w32_less by auto
  from from_le_less [OF this] show ?thesis by (simp add: limbs_nat_def power_mult)
qed

lemma limb_arith:
  fixes x c :: w32 and t :: "64 word"
  assumes "unat c < 64" and "t = ucast x * 58 + ucast c" 
  shows "unat (ucast (t AND 0xffffffff) :: w32) = (unat x * 58 + unat c) mod 2 ^ 32"
    and "unat (ucast (drop_bit 32 t) AND 0x3f :: w32) = (unat x * 58 + unat c) div 2 ^ 32"
    and "(unat x * 58 + unat c) div 2 ^ 32 < 64"
proof -
  have x: "unat x < 2 ^ 32" by (rule w32_less)
  then have b: "unat x * 58 + unat c < 64 * 2 ^ 32" using assms(1) by simp
  then show q: "(unat x * 58 + unat c) div 2 ^ 32 < 64" by (simp add: less_mult_imp_div_less)
  have t: "unat t = unat x * 58 + unat c"
  proof -
    have "uint t = (uint x * 58 + uint c) mod 2 ^ 64"
      unfolding assms(2) by (simp add: uint_word_ariths unsigned_ucast_eq take_bit_eq_mod mod_simps)
    then have "unat t = (unat x * 58 + unat c) mod 2 ^ 64"
      by (metis (mono_tags, lifting) nat_mod_as_int of_nat_add of_nat_mult of_nat_numeral of_nat_power uint_nat nat_int of_nat_mod)
    with b show ?thesis by simp
  qed
  have m: "(0xffffffff :: nat) = mask 32" "(0x3f :: nat) = mask 6" by (simp_all add: mask_eq_exp_minus_1)
  have "unat (ucast (t AND 0xffffffff) :: w32) = take_bit 32 (unat t AND 0xffffffff)"
    by (simp add: unsigned_ucast_eq unsigned_and_eq)
  then show "unat (ucast (t AND 0xffffffff) :: w32) = (unat x * 58 + unat c) mod 2 ^ 32"
    unfolding t m by (simp add: take_bit_eq_mod flip: take_bit_eq_mask)
  have "unat (ucast (drop_bit 32 t) AND 0x3f :: w32) = take_bit 32 (unat t div 2 ^ 32) AND 0x3f"
    by (simp add: unsigned_ucast_eq unsigned_and_eq drop_bit_eq_div unat_div_distrib)
  also have "\<dots> = (unat t div 2 ^ 32) mod 2 ^ 32 mod 2 ^ 6" 
    unfolding m by (simp add: take_bit_eq_mod flip: take_bit_eq_mask)
  finally show "unat (ucast (drop_bit 32 t) AND 0x3f :: w32) = (unat x * 58 + unat c) div 2 ^ 32"
    using q unfolding t by simp
qed


lemma limb_step_spec:
  assumes "unat c < 64" and "limb_step c xs = (ys, c')"
  shows "limbs_nat ys + 2 ^ (32 * length xs) * unat c' = limbs_nat xs * 58 + unat c \<and> unat c' < 64 \<and> length ys = length xs"
  using assms
proof (induction c xs arbitrary: ys c' rule: limb_step.induct)
  case (2 c x xs)
  define t :: "64 word" where "t = ucast x * 58 + ucast c"
  define c1 :: w32 where "c1 = ucast (drop_bit 32 t) AND 0x3f"
  obtain zs where zs: "limb_step c1 xs = (zs, c')" "ys = ucast (t AND 0xffffffff) # zs"
    using "2.prems"(2) by (auto simp: Let_def t_def c1_def split: prod.splits)
  note a = limb_arith [OF "2.prems"(1) t_def]
  have c1: "unat c1 = (unat x * 58 + unat c) div 2 ^ 32" unfolding c1_def by (rule a(2))
  then have "unat c1 < 64" using a(3) by simp
  from "2.IH" [OF t_def, folded c1_def, OF this zs(1)]
  have IH: "limbs_nat zs + 2 ^ (32 * length xs) * unat c' = limbs_nat xs * 58 + unat c1" "unat c' < 64" "length zs = length xs"
    by auto
  let ?u = "unat x * 58 + unat c"
  have "limbs_nat ys + 2 ^ (32 * length (x # xs)) * unat c' =
      ?u mod 2 ^ 32 + 2 ^ 32 * (limbs_nat zs + 2 ^ (32 * length xs) * unat c')"
    unfolding zs(2) limbs_nat_simps a(1) by (simp add: power_add algebra_simps)
  also have "\<dots> = (?u mod 2 ^ 32 + 2 ^ 32 * (?u div 2 ^ 32)) + 2 ^ 32 * (limbs_nat xs * 58)"
    unfolding IH(1) c1 by (simp only: add_mult_distrib2 ac_simps)
  also have "\<dots> = limbs_nat (x # xs) * 58 + unat c"
    by (simp only: mod_mult_div_eq limbs_nat_simps) (simp add: algebra_simps)
  finally show ?case using IH(2,3) zs(2) by simp
qed simp


lemma from_be_Cons: "from_be b (d # ds) = d * b ^ length ds + from_be b ds"
  by (simp add: from_be_le from_le_append)

text \<open>The mask of the first limb: what lies above the bytes that the result can have.\<close>

definition first_mask :: "nat \<Rightarrow> w32" where
  "first_mask n = (if 0 < n mod 4 then push_bit (n mod 4 * 8) 0xffffffff else 0)"

lemma first_mask_zero:
  assumes "unat x < 256 ^ (n mod 4)" shows "x AND first_mask n = 0"
proof (cases "n mod 4 = 0")
  case False
  let ?k = "n mod 4 * 8"
  have "unat x < 2 ^ ?k" using assms by (simp add: mult.commute [of _ 8] power_mult)
  then have "take_bit ?k x = x"
    by (simp add: word_unat_eq_iff unsigned_take_bit_eq take_bit_nat_eq_self_iff)
  then have "\<not> bit x i" if "?k \<le> i" for i using that by (metis bit_take_bit_iff not_le)
  then show ?thesis using False by (auto simp: first_mask_def bit_eq_iff bit_simps)
qed (simp add: first_mask_def)

lemma last_limb:
  assumes "xs \<noteq> []" shows "unat (last xs) = limbs_nat xs div 2 ^ (32 * (length xs - 1))"
proof -
  have "limbs_nat xs = limbs_nat (butlast xs) + 2 ^ (32 * (length xs - 1)) * unat (last xs)"
    using arg_cong [OF append_butlast_last_id [OF assms], of limbs_nat] 
    by (simp add: limbs_nat_def from_le_append power_mult del: append_butlast_last_id)
  then show ?thesis using limbs_nat_less [of "butlast xs"] by simp
qed

lemma limb_loop_spec:
  assumes al: "distinct al" "length al = 58" "\<forall>c \<in> set al. byte_val c \<le> 127"
    and "\<forall>d \<in> set ds. d < 58" and "limbs_nat outi < 58 ^ i" and "i + length ds \<le> n" and "length outi = (n + 3) div 4"
  shows "\<exists>outi'. limb_loop al (first_mask n) (map ((!) al) ds) outi = Inr outi' \<and>
    limbs_nat outi' = limbs_nat outi * 58 ^ length ds + from_be 58 ds \<and> length outi' = length outi"
  using assms(4-)
proof (induction ds arbitrary: outi i)
  case (Cons d ds)
  obtain o1 c where s: "limb_step (of_nat d) outi = (o1, c)" by fastforce
  have d: "d < 58" "unat (of_nat d :: w32) = d" using Cons.prems(1) by (simp_all add: unat_of_nat)
  then have "unat (of_nat d :: w32) < 64" by simp
  from limb_step_spec [OF this s] have v: "limbs_nat o1 + 2 ^ (32 * length outi) * unat c = limbs_nat outi * 58 + d"
    and l: "length o1 = length outi" unfolding d(2) by auto
  have b: "limbs_nat outi * 58 + d < 58 ^ Suc i" using Cons.prems(2) d(1) by simp
  also have "\<dots> \<le> (256 :: nat) ^ Suc i" by (rule power_mono) auto
  also have "\<dots> \<le> 256 ^ n" using Cons.prems(3) by (intro power_increasing) auto
  finally have w: "limbs_nat outi * 58 + d < 256 ^ n" .
  have "n \<le> 4 * ((n + 3) div 4)" by presburger
  then have "(256 :: nat) ^ n \<le> 256 ^ (4 * length outi)" using Cons.prems(4) by (intro power_increasing) auto
  also have "\<dots> = 2 ^ (32 * length outi)" by (simp add: power_mult)
  finally have "2 ^ (32 * length outi) * unat c < 2 ^ (32 * length outi) * 1" using v w by linarith
  then have "unat c = 0" by simp
  with v have c: "c = 0" and v1: "limbs_nat o1 = limbs_nat outi * 58 + d" by (simp_all add: unat_eq_zero)
  have m: "last o1 AND first_mask n = 0"
  proof (cases "n mod 4 = 0")
    case False
    have len: "length o1 = Suc (n div 4)" using l Cons.prems(4) False by presburger
    then have "unat (last o1) = limbs_nat o1 div 256 ^ (4 * (n div 4))"
      using last_limb [of o1] by (cases o1) (simp_all add: power_mult)
    moreover have "limbs_nat o1 < 256 ^ (n mod 4) * 256 ^ (4 * (n div 4))"
      using w v1 by (simp flip: power_add)
    ultimately show ?thesis by (intro first_mask_zero) (simp add: less_mult_imp_div_less)
  qed (simp add: first_mask_def)
  have "limbs_nat o1 < 58 ^ Suc i" using b v1 by simp
  from Cons.IH [OF _ this] Cons.prems l obtain o2 where
    o2: "limb_loop al (first_mask n) (map ((!) al) ds) o1 = Inr o2"
      "limbs_nat o2 = limbs_nat o1 * 58 ^ length ds + from_be 58 ds" "length o2 = length outi" by auto
  have "al ! d \<in> set al" using d(1) al(2) by simp
  with al(3) have "\<not> 127 < byte_val (al ! d)" by (simp add: not_less)
  then have "limb_loop al (first_mask n) (map ((!) al) (d # ds)) outi = Inr o2"
    using s c m o2(1) d(1) al by (simp add: index_of_nth)
  with o2(2,3) v1 show ?case by (simp add: from_be_Cons algebra_simps)
qed simp


section \<open>Digits of a fixed width\<close>

lemma be_digits_append: "be_digits (a + k) b v = be_digits a b (v div b ^ k) @ be_digits k b v"
  by (induction k arbitrary: v) (simp_all add: div_mult2_eq)

lemma be_digits_map: "be_digits k b n = map (\<lambda>m. n div b ^ m mod b) (rev [0..<k])"
proof (induction k arbitrary: n)
  case (Suc k)
  have "rev [0..<Suc k] = map Suc (rev [0..<k]) @ [0]" by (simp add: upt_conv_Cons flip: rev_map map_Suc_upt del: upt_Suc)
  then show ?case using Suc by (simp add: div_mult2_eq del: upt_Suc)
qed simp

lemma be_digits_mod: "0 < b \<Longrightarrow> be_digits k b (v mod b ^ k) = be_digits k b v"
proof (induction k arbitrary: v)
  case (Suc k)
  then show ?case by (simp add: mod_mult2_eq mod_mod_cancel)
qed simp

lemma be_digits_split:
  assumes "y < b ^ k" shows "be_digits (a + k) b (y + b ^ k * z) = be_digits a b z @ be_digits k b y"
proof -
  have "0 < b ^ k" using assms by linarith
  then have "(y + b ^ k * z) div b ^ k = z" using assms by simp
  moreover have "be_digits k b (y + b ^ k * z) = be_digits k b y"
  proof (cases k)
    case (Suc j)
    then have "0 < b" using \<open>0 < b ^ k\<close> by (cases b) auto
    from be_digits_mod [OF this, of k "y + b ^ k * z"] show ?thesis using assms by simp
  qed simp
  ultimately show ?thesis by (simp add: be_digits_append)
qed

lemma be_digits_le:
  assumes "2 \<le> b" shows "n < b ^ w \<Longrightarrow> be_digits w b n = replicate (w - length (le_digits b n)) 0 @ rev (le_digits b n)"
proof (induction w arbitrary: n)
  case (Suc w)
  then have IH: "be_digits w b (n div b) = replicate (w - length (le_digits b (n div b))) 0 @ rev (le_digits b (n div b))"
    by (metis less_mult_imp_div_less power_Suc2)
  show ?case
  proof (cases "n = 0")
    case True
    with IH show ?thesis by (simp add: replicate_append_same)
  next
    case False
    with IH assms show ?thesis by (simp add: le_digits.simps [of b n])
  qed
qed (simp add: le_digits.simps)

section \<open>The bytes of the limbs\<close>

lemma limb_bytes_digits: "limb_bytes k x = map byte_of (be_digits k 256 (unat x))"
proof -
  have "unat (ucast (drop_bit (8 * m) x) :: 8 word) = unat x div 256 ^ m mod 256" for m
    unfolding unsigned_ucast_eq unat_drop_bit_eq by (simp add: drop_bit_eq_div take_bit_eq_mod power_mult)
  then show ?thesis by (simp add: limb_bytes_def be_digits_map comp_def)
qed

lemma concat_limb_bytes: "concat (map (limb_bytes 4) (rev xs)) = map byte_of (be_digits (4 * length xs) 256 (limbs_nat xs))"
proof (induction xs)
  case (Cons x xs)
  have x: "unat x < 256 ^ 4" using w32_less [of x] by simp
  have "be_digits (4 * length xs + 4) 256 (unat x + 256 ^ 4 * limbs_nat xs) =
      be_digits (4 * length xs) 256 (limbs_nat xs) @ be_digits 4 256 (unat x)"
    using x by (rule be_digits_split)
  with Cons show ?case by (simp add: limb_bytes_digits add.commute)
qed simp

lemma limbs_out_digits:
  assumes "length outi = Suc q"
  shows "limbs_out k outi = map byte_of (be_digits (k + 4 * q) 256 (limbs_nat outi))"
proof -
  obtain xs x where o: "outi = xs @ [x]" "length xs = q"
    using assms(1) by (cases outi rule: rev_cases) auto
  have v: "limbs_nat outi = limbs_nat xs + 256 ^ (4 * q) * unat x"
    using o by (simp add: limbs_nat_def from_le_append power_mult)
  have less: "limbs_nat xs < 256 ^ (4 * q)" using limbs_nat_less [of xs] o(2) by (simp add: power_mult)
  have "be_digits (k + 4 * q) 256 (limbs_nat outi) = be_digits k 256 (unat x) @ be_digits (4 * q) 256 (limbs_nat xs)"
    unfolding v using less by (rule be_digits_split)
  then show ?thesis using o by (simp add: limbs_out_def limb_bytes_digits concat_limb_bytes)
qed


section \<open>Decoding agrees with the reference\<close>

definition b58_alphabet :: "string \<Rightarrow> bool" where
  "b58_alphabet al \<longleftrightarrow> distinct al \<and> length al = 58 \<and> (\<forall>c \<in> set al. byte_val c \<le> 127)"

lemma BTC_alphabet: "b58_alphabet BTCAlphabet"
  using BTCAlphabet_ok by (auto simp: b58_alphabet_def BTCAlphabet_def byte_val_def)

lemma limb_loop_chars: "limb_loop al z s outi = Inr o' \<Longrightarrow> set s \<subseteq> set al"
proof (induction s arbitrary: outi)
  case (Cons c s)
  then show ?case using index_of_notin [of c al] by (auto split: if_splits option.splits prod.splits)
qed simp

lemma fast_decode_bad:
  assumes "str = [] \<or> \<not> set str \<subseteq> set al" shows "\<exists>e. FastBase58Decoding al str = Inl e"
proof (cases "FastBase58Decoding al str")
  case (Inr b)
  with assms limb_loop_chars show ?thesis by (auto simp: FastBase58Decoding_def Let_def split: if_splits sum.splits)
qed blast

text \<open>A string over the alphabet: leading zero digits and the digits of a number.\<close>

lemma digits_of:
  assumes "set str \<subseteq> set al"
  obtains ds where "str = map ((!) al) ds" "\<forall>d \<in> set ds. d < length al"
proof -
  have "\<exists>ds. str = map ((!) al) ds \<and> (\<forall>d \<in> set ds. d < length al)"
    using assms
  proof (induction str)
    case (Cons c str)
    then obtain ds i where "str = map ((!) al) ds" "\<forall>d \<in> set ds. d < length al" "i < length al" "al ! i = c"
      by (auto simp: in_set_conv_nth)
    then show ?case by (intro exI [of _ "i # ds"]) simp
  qed simp
  then show ?thesis using that by blast
qed

text \<open>The bytes of a number at a fixed width begin with zeros, and no others of them do.\<close>

lemma le_digits_length: "v < 256 ^ m \<Longrightarrow> length (le_digits 256 v) \<le> m"
proof -
  assume "v < 256 ^ m"
  then have "length (replicate (m - length (le_digits 256 v)) (0 :: nat) @ rev (le_digits 256 v)) = length (be_digits m 256 v)"
    by (simp only: be_digits_le [of 256, simplified])
  then show ?thesis by simp
qed

lemma zero_bytes:
  assumes "v < 256 ^ n"
  shows "map byte_of (be_digits n 256 v) = replicate (n - length (le_digits 256 v)) (byte_of 0) @ nat_bytes v"
    and "takeWhile (\<lambda>v. v = byte_of 0) (map byte_of (be_digits n 256 v)) = replicate (n - length (le_digits 256 v)) (byte_of 0)"
proof -
  show b: "map byte_of (be_digits n 256 v) = replicate (n - length (le_digits 256 v)) (byte_of 0) @ nat_bytes v"
    using assms by (simp add: be_digits_le nat_bytes_def)
  have "nat_bytes v = [] \<or> hd (nat_bytes v) \<noteq> byte_of 0"
  proof (cases "v = 0")
    case False
    then have ne: "le_digits 256 v \<noteq> []" by (simp add: le_digits.simps [of 256 v])
    then have "last (le_digits 256 v) \<noteq> 0" "last (le_digits 256 v) < 256"
      using le_digits_last le_digits_less [OF last_in_set] by blast+
    with ne show ?thesis by (simp add: nat_bytes_def hd_map hd_rev byte_of_0_iff)
  qed (simp add: nat_bytes_def)
  then show "takeWhile (\<lambda>v. v = byte_of 0) (map byte_of (be_digits n 256 v)) = replicate (n - length (le_digits 256 v)) (byte_of 0)"
    unfolding b by (rule takeWhile_replicate)
qed

lemma skip_zeros_digits:
  assumes "v < 256 ^ m" and "z + m = n" and "v = 0 \<Longrightarrow> m = 0"
  shows "skip_zeros z (map byte_of (be_digits n 256 v)) = replicate z (byte_of 0) @ nat_bytes v"
proof -
  have l: "length (le_digits 256 v) \<le> m" using assms(1) by (rule le_digits_length)
  have "v < 256 ^ n" using assms less_le_trans [OF assms(1) power_increasing [of m n "256::nat"]] by simp
  note b = zero_bytes(1) [OF this] and tw = zero_bytes(2) [OF this]
  show ?thesis
  proof (cases "v = 0")
    case True
    with b have "map byte_of (be_digits n 256 v) = replicate n (byte_of 0)" by (simp add: nat_bytes_def)
    with True assms(2,3) show ?thesis unfolding skip_zeros_def tw by (simp add: nat_bytes_def)
  next
    case False
    then have "nat_bytes v \<noteq> []" by (simp add: nat_bytes_def le_digits.simps [of 256 v])
    moreover have "drop (n - length (le_digits 256 v) - z) (replicate (n - length (le_digits 256 v)) (byte_of 0) @ nat_bytes v)
        = replicate z (byte_of 0) @ nat_bytes v"
      using l assms(2) by simp
    ultimately show ?thesis unfolding skip_zeros_def tw unfolding b by (simp add: Let_def)
  qed
qed

text \<open>The value of a list of digits that begins with \<open>z\<close> zeros.\<close>

lemma digits_value:
  assumes "\<forall>d \<in> set ds. d < b" and "b \<le> 256" and "ds = replicate z 0 @ ds'" and "ds' = [] \<or> hd ds' \<noteq> 0"
  shows "from_be b ds < 256 ^ length ds'" and "from_be b ds = 0 \<Longrightarrow> length ds' = 0"
proof -
  have v: "from_be b ds = from_be b ds'" using assms(3) by (simp add: from_be_le from_le_append)
  have "from_be b ds < b ^ length ds'" using from_be_less [of ds' b] assms(1,3) v by auto
  also have "\<dots> \<le> 256 ^ length ds'" using assms(2) by (rule power_mono) simp
  finally show "from_be b ds < 256 ^ length ds'" .
  show "length ds' = 0" if "from_be b ds = 0"
  proof (cases ds')
    case (Cons d xs)
    with assms have "0 < d" "d < b" by auto
    then have "0 < d * b ^ length xs" by simp
    then show ?thesis using that v Cons by (simp add: from_be_Cons)
  qed simp
qed

lemma length_quads:
  assumes "0 < (n :: nat)"
  shows "(n + 3) div 4 = Suc ((n - 1) div 4)" and "(if 0 < n mod 4 then n mod 4 else 4) + 4 * ((n - 1) div 4) = n"
proof -
  obtain m where m: "n = Suc m" using assms by (cases n) auto
  show "(n + 3) div 4 = Suc ((n - 1) div 4)" by (simp add: m)
  show "(if 0 < n mod 4 then n mod 4 else 4) + 4 * ((n - 1) div 4) = n"
    by (simp add: m mod_Suc) presburger
qed

text \<open>On a string over the alphabet decoding gives what the reference gives; all others are errors.\<close>

lemma fast_decode:
  assumes "b58_alphabet al" and "str \<noteq> []" and "set str \<subseteq> set al"
  shows "FastBase58Decoding al str = Inr (DecodeAlphabet str al)"
proof -
  have al: "distinct al" "length al = 58" "\<forall>c \<in> set al. byte_val c \<le> 127"
    using assms(1) by (simp_all add: b58_alphabet_def)
  obtain ds where ds: "str = map ((!) al) ds" "\<forall>d \<in> set ds. d < 58"
    using digits_of [OF assms(3)] al(2) by auto
  obtain z ds' where z: "ds = replicate z 0 @ ds'" "ds' = [] \<or> hd ds' \<noteq> 0"
    using byte_split [of ds 0] by blast
  let ?n = "length str" and ?v = "from_be 58 ds"
  have zc: "takeWhile (\<lambda>r. r = al ! 0) str = replicate z (al ! 0)"
  proof -
    have "ds' = [] \<or> hd (map ((!) al) ds') \<noteq> al ! 0"
      using z ds(2) al by (cases ds') (auto simp: nth_eq_iff_index_eq)
    then have "map ((!) al) ds' = [] \<or> hd (map ((!) al) ds') \<noteq> al ! 0" by simp
    from takeWhile_replicate [OF this, of z] show ?thesis by (simp add: ds(1) z(1))
  qed
  note v = digits_value [OF ds(2) _ z]
  obtain o' where o': "limb_loop al (first_mask ?n) str (replicate ((?n + 3) div 4) 0) = Inr o'"
    "limbs_nat o' = ?v" "length o' = (?n + 3) div 4"
    using limb_loop_spec [OF al ds(2), of "replicate ((?n + 3) div 4) 0" 0 ?n] ds(1) by auto
  let ?k = "if 0 < ?n mod 4 then ?n mod 4 else 4" and ?q = "(?n - 1) div 4"
  have n: "0 < ?n" using assms(2) by simp
  then have q: "(?n + 3) div 4 = Suc ?q" "?k + 4 * ?q = ?n" by (rule length_quads)+
  have "limbs_out ?k o' = map byte_of (be_digits ?n 256 ?v)"
    using limbs_out_digits [of o' ?q ?k] o'(2,3) q by simp
  moreover have "skip_zeros z (map byte_of (be_digits ?n 256 ?v)) = replicate z (byte_of 0) @ nat_bytes ?v"
    by (rule skip_zeros_digits [OF v(1) _ v(2)]) (simp_all add: ds(1) z(1))
  ultimately have "FastBase58Decoding al str = Inr (replicate z (byte_of 0) @ nat_bytes ?v)"
    using assms(2) o'(1) zc by (simp add: FastBase58Decoding_def Let_def first_mask_def)
  moreover have "b58_loop al (rev str) 0 1 = Some ?v"
    using b58_loop_digits [OF al(1,2), of "rev ds" "[]" 0 1] ds by (simp add: from_be_le rev_map)
  ultimately show ?thesis by (simp add: DecodeAlphabet_def zc)
qed


section \<open>Encoding agrees with the reference\<close>

definition digits_nat :: "8 word list \<Rightarrow> nat" where
  "digits_nat tmp = from_le 58 (map unat tmp)"

lemma digits_nat_simps [simp]: "digits_nat [] = 0" "digits_nat (x # xs) = unat x + 58 * digits_nat xs"
  by (simp_all add: digits_nat_def)

lemma digits_nat_zero: "\<forall>d \<in> set tmp. d = 0 \<Longrightarrow> digits_nat tmp = 0"
  by (induction tmp) auto

lemma carry_arith:
  fixes x :: "8 word" and c :: w32
  assumes "unat x < 58" and "unat c \<le> 255" and "c1 = c + 256 * ucast x"
  shows "unat c1 = unat c + 256 * unat x" and "unat (c1 div 58) = unat c1 div 58" and "unat c1 div 58 \<le> 255"
    and "unat (ucast (c1 mod 58) :: 8 word) = unat c1 mod 58"
proof -
  have u: "unat (ucast x :: w32) = unat x" by (simp add: unsigned_ucast_eq take_bit_nat_eq_self_iff) (use assms(1) in linarith)
  have b: "unat c + 256 * unat x < 2 ^ 32" using assms by simp
  show c1: "unat c1 = unat c + 256 * unat x"
    unfolding assms(3) using b by (simp add: unat_word_ariths u)
  show "unat (c1 div 58) = unat c1 div 58" by (simp add: unat_div_distrib)
  show "unat c1 div 58 \<le> 255" using c1 assms(1,2) by simp
  have "unat (c1 mod 58) = unat c1 mod 58" by (simp add: unat_mod_distrib)
  moreover have "unat c1 mod 58 < 58" by simp
  ultimately show "unat (ucast (c1 mod 58) :: 8 word) = unat c1 mod 58"
    by (simp add: unsigned_ucast_eq take_bit_nat_eq_self_iff)
qed

text \<open>What the buffer holds: digits, and only zeros beyond the first \<open>k\<close> positions.\<close>

definition high_zero :: "nat \<Rightarrow> 8 word list \<Rightarrow> bool" where
  "high_zero k tmp \<longleftrightarrow> k \<le> length tmp \<and> (\<forall>d \<in> set tmp. unat d < 58) \<and> (\<forall>d \<in> set (drop k tmp). d = 0)"

lemma b58_carry_spec:
  assumes "high_zero k tmp" and "unat c \<le> 255" and "digits_nat tmp * 256 + unat c < 58 ^ length tmp"
  shows "\<exists>tmp' k'. b58_carry k c tmp = Some (tmp', k') \<and> high_zero k' tmp' \<and> length tmp' = length tmp \<and>
    digits_nat tmp' = digits_nat tmp * 256 + unat c"
  using assms
proof (induction tmp arbitrary: k c)
  case Nil
  then show ?case by (simp add: b58_carry.simps high_zero_def unat_eq_zero)
next
  case (Cons x xs)
  show ?case
  proof (cases "k = 0 \<and> c = 0")
    case True
    with Cons.prems(1) have "digits_nat (x # xs) = 0" by (intro digits_nat_zero) (simp add: high_zero_def)
    with True Cons.prems(1) show ?thesis by (simp add: b58_carry.simps)
  next
    case False
    define c1 :: w32 where "c1 = c + 256 * ucast x"
    have "unat x < 58" using Cons.prems(1) by (simp add: high_zero_def)
    note a = carry_arith [OF this Cons.prems(2) c1_def]
    have hz: "high_zero (k - 1) xs" using Cons.prems(1) by (cases k) (auto simp: high_zero_def)
    have "unat c1 + 58 * (digits_nat xs * 256) < 58 ^ length xs * 58"
      using Cons.prems(3) a(1) by (simp add: algebra_simps)
    then have "(unat c1 + 58 * (digits_nat xs * 256)) div 58 < 58 ^ length xs" by (rule less_mult_imp_div_less)
    then have "digits_nat xs * 256 + unat (c1 div 58) < 58 ^ length xs" using a(2) by simp
    from Cons.IH [OF hz _ this] a(2,3) obtain ys n where
      y: "b58_carry (k - 1) (c1 div 58) xs = Some (ys, n)" "high_zero n ys" "length ys = length xs"
        "digits_nat ys = digits_nat xs * 256 + unat (c1 div 58)" by auto
    have "b58_carry k c (x # xs) = Some (ucast (c1 mod 58) # ys, Suc n)"
      using False y(1) by (subst b58_carry.simps) (simp add: c1_def Let_def)
    moreover have "high_zero (Suc n) (ucast (c1 mod 58) # ys)" using y(2) a(4) by (simp add: high_zero_def)
    moreover have "digits_nat (ucast (c1 mod 58) # ys) = digits_nat (x # xs) * 256 + unat c"
    proof -
      have "digits_nat (ucast (c1 mod 58) # ys) = (unat c1 mod 58 + 58 * (unat c1 div 58)) + 58 * (digits_nat xs * 256)"
        unfolding digits_nat_simps y(4) a(2,4) by (simp only: add_mult_distrib2 ac_simps)
      also have "\<dots> = digits_nat (x # xs) * 256 + unat c"
        unfolding mod_mult_div_eq a(1) by (simp add: algebra_simps)
      finally show ?thesis .
    qed
    ultimately show ?thesis using y(3) by simp
  qed
qed

lemma b58_bytes_spec:
  assumes "high_zero k tmp" and "(digits_nat tmp + 1) * 256 ^ length bs \<le> 58 ^ length tmp"
  shows "\<exists>tmp'. b58_bytes bs k tmp = Some tmp' \<and> (\<forall>d \<in> set tmp'. unat d < 58) \<and> length tmp' = length tmp \<and>
    digits_nat tmp' = digits_nat tmp * 256 ^ length bs + from_be 256 (map byte_val bs)"
  using assms
proof (induction bs arbitrary: k tmp)
  case Nil
  then show ?case by (simp add: high_zero_def)
next
  case (Cons b bs)
  have u: "unat (of_nat (byte_val b) :: w32) = byte_val b" "byte_val b \<le> 255"
    using byte_val_less [of b] by (simp_all add: unat_of_nat del: byte_val_less)
  let ?v = "digits_nat tmp * 256 + byte_val b"
  have "(?v + 1) * 256 ^ length bs \<le> (digits_nat tmp + 1) * 256 * 256 ^ length bs"
    using u(2) by (intro mult_right_mono) auto
  also have "\<dots> \<le> 58 ^ length tmp" using Cons.prems(2) by (simp add: algebra_simps)
  finally have v: "(?v + 1) * 256 ^ length bs \<le> 58 ^ length tmp" .
  have "(?v + 1) * 1 \<le> (?v + 1) * 256 ^ length bs" by (intro mult_le_mono2) simp
  with v have "?v + 1 \<le> 58 ^ length tmp" by (simp only: mult_1_right)
  then have "?v < 58 ^ length tmp" by simp
  with b58_carry_spec [OF Cons.prems(1), of "of_nat (byte_val b)"] u obtain tmp' k' where
    t: "b58_carry k (of_nat (byte_val b)) tmp = Some (tmp', k')" "high_zero k' tmp'" "length tmp' = length tmp" "digits_nat tmp' = ?v"
    by auto
  from Cons.IH [OF t(2)] v t(3,4) obtain t2 where "b58_bytes bs k' tmp' = Some t2" "\<forall>d \<in> set t2. unat d < 58"
    "length t2 = length tmp" "digits_nat t2 = ?v * 256 ^ length bs + from_be 256 (map byte_val bs)" by auto
  with t(1) show ?case by (simp add: from_be_Cons algebra_simps)
qed

text \<open>The buffer is long enough: 138 digits for 100 bytes.\<close>

lemma buffer_size: "(256 :: nat) ^ n \<le> 58 ^ (n * 138 div 100 + 1)"
proof -
  let ?m = "n * 138 div 100 + 1"
  have m: "n * 138 \<le> ?m * 100" using div_mult_mod_eq [of "n * 138" 100] mod_less_divisor [of 100 "n * 138", simplified]
    unfolding add_mult_distrib by linarith
  have "((256 :: nat) ^ n) ^ 100 = (256 ^ 100) ^ n" by (simp only: power_mult [symmetric] mult.commute)
  also have "\<dots> \<le> (58 ^ 138) ^ n" by (rule power_mono) simp_all
  also have "\<dots> = 58 ^ (n * 138)" by (simp only: power_mult [symmetric] mult.commute)
  also have "\<dots> \<le> 58 ^ (?m * 100)" using m by (rule power_increasing) simp
  also have "\<dots> = (58 ^ ?m) ^ 100" by (rule power_mult)
  finally show ?thesis by (rule power_mono_iff [THEN iffD1, rotated -1]) simp_all
qed

lemma dropWhile_zeros: "dropWhile (\<lambda>d. d = x) (replicate z x @ b) = dropWhile (\<lambda>d. d = x) b"
  by (induction z) auto

lemma fast_encode:
  assumes "b58_alphabet al" shows "FastBase58Encoding al bin = Some (EncodeAlphabet bin al)"
proof -
  obtain z bs where b: "bin = replicate z (byte_of 0) @ bs" "bs = [] \<or> hd bs \<noteq> byte_of 0"
    using byte_split [of bin "byte_of 0"] by blast
  have tw: "takeWhile (\<lambda>b. b = byte_of 0) bin = replicate z (byte_of 0)" unfolding b(1) using b(2) by (rule takeWhile_replicate)
  let ?size = "length bs * 138 div 100 + 1" and ?v = "bytes_nat bs"
  have "high_zero 0 (replicate ?size 0)" by (simp add: high_zero_def)
  moreover have "digits_nat (replicate ?size 0) = 0" by (rule digits_nat_zero) simp
  ultimately obtain tmp where t: "b58_bytes bs 0 (replicate ?size 0) = Some tmp" "\<forall>d \<in> set tmp. unat d < 58" "length tmp = ?size"
    "digits_nat tmp = from_be 256 (map byte_val bs)"
    using b58_bytes_spec [of 0 "replicate ?size 0" bs] buffer_size [of "length bs"] by auto
  have v: "digits_nat tmp = ?v" by (simp add: t(4) bytes_nat_def from_be_le)
  have "\<forall>d \<in> set (map unat tmp). d < 58" using t(2) by auto
  then have "?v < 58 ^ ?size" using from_le_less [of "map unat tmp" 58] t(3) v by (simp add: digits_nat_def)
  moreover have "map unat (rev tmp) = be_digits ?size 58 ?v"
    using be_digits_from_be [of "map unat (rev tmp)" 58] t(2,3) v by (simp add: digits_nat_def from_be_le rev_map)
  ultimately have "map unat (rev tmp) = replicate (?size - length (le_digits 58 ?v)) 0 @ rev (le_digits 58 ?v)"
    by (simp only: be_digits_le)
  then have "dropWhile (\<lambda>d. d = 0) (map unat (rev tmp)) = dropWhile (\<lambda>d. d = 0) (rev (le_digits 58 ?v))"
    by (simp only: dropWhile_zeros)
  also have "\<dots> = rev (le_digits 58 ?v)"
    using le_digits_last [of 58 ?v] by (cases "rev (le_digits 58 ?v)") (auto simp: hd_rev [symmetric])
  finally have "map unat (dropWhile (\<lambda>d. d = 0) (rev tmp)) = rev (le_digits 58 ?v)"
    by (simp add: dropWhile_map comp_def unat_eq_zero)
  then have "map (\<lambda>d. al ! unat d) (dropWhile (\<lambda>d. d = 0) (rev tmp)) = map ((!) al) (rev (le_digits 58 ?v))"
    by (metis (no_types, lifting) comp_def map_eq_conv map_map)
  moreover have "drop z bin = bs" "length bin - z = length bs" by (simp_all add: b(1))
  ultimately show ?thesis
    unfolding FastBase58Encoding_def EncodeAlphabet_def tw
    using t(1) by (simp add: Let_def b(1) bytes_nat_zeros rev_map)
qed

section \<open>Both together\<close>

text \<open>
  C39: The base 58 routines of the CID package, which work on 32-bit limbs and a buffer of digits,
  compute the numbers they stand for. Encoding never runs off its buffer and gives what big
  integer arithmetic gives; decoding gives the reference's bytes for every nonempty string over
  the alphabet, without any of its overflow errors, and an error for every other string.
\<close>
theorem fast_base58_is_base58:
  "FastBase58Encoding BTCAlphabet bin = Some (Encode58 bin) \<and>
   (if str \<noteq> [] \<and> set str \<subseteq> set BTCAlphabet then FastBase58Decoding BTCAlphabet str = Inr (Decode58 str)
    else \<exists>e. FastBase58Decoding BTCAlphabet str = Inl e)"
  using fast_encode [OF BTC_alphabet] fast_decode [OF BTC_alphabet] fast_decode_bad [of str BTCAlphabet]
  by (auto simp: Encode58_def Decode58_def)

end
