(* ===== verification/Bases.thy ===== *)
theory Bases
  imports Base58 Json
begin

text \<open>
  The bases of a multibase text beside 32 and 58, which a CID may be given in but the program never
  prints: binary (\<open>vendor/github.com/multiformats/go-multibase/base2.go\<close>), hexadecimal and base 64
  (Go's \<open>encoding/hex\<close> and \<open>encoding/base64\<close>) and base 36
  (\<open>vendor/github.com/multiformats/go-base36\<close>, with limbs as in \<open>Base58\<close>).
\<close>

section \<open>Binary\<close>

text \<open>\<open>strconv.ParseInt(s, 2, 0)\<close> of at most eight characters: it takes a sign.\<close>

definition parse_binary :: "string \<Rightarrow> int option" where
  "parse_binary s =
     (let neg = has_prefix s ''-''; ds = (if neg \<or> has_prefix s ''+'' then tl s else s);
          v = foldl (\<lambda>a c. 2 * a + (if c = CHR ''1'' then 1 else 0)) (0 :: int) ds
      in if ds = [] \<or> \<not> list_all (\<lambda>c. c \<in> set ''01'') ds then None else Some (if neg then - v else v))"

function binary_groups :: "string \<Rightarrow> bytes option" where
  "binary_groups s =
     (if s = [] then Some []
      else (case parse_binary (take 8 s) of
              None \<Rightarrow> None
            | Some v \<Rightarrow> map_option ((#) (byte_of (nat (v mod 256)))) (binary_groups (drop 8 s))))"
  by pat_completeness auto
termination
  by (relation "measure length") auto

declare binary_groups.simps [simp del]

definition decodeBinaryString :: "string \<Rightarrow> bytes result" where
  "decodeBinaryString s =
     (case binary_groups (if length s mod 8 \<noteq> 0 then replicate (8 - length s mod 8) (CHR ''0'') @ s else s) of
        None \<Rightarrow> Inl (GoError ''error while conversion'')
      | Some b \<Rightarrow> Inr b)"

section \<open>Hexadecimal\<close>

fun hex_pairs :: "string \<Rightarrow> bytes option" where
  "hex_pairs [] = Some []"
| "hex_pairs [c] = None"
| "hex_pairs (a # b # s) =
     (case (hex_val a, hex_val b) of
        (Some x, Some y) \<Rightarrow> map_option ((#) (byte_of (16 * x + y))) (hex_pairs s)
      | _ \<Rightarrow> None)"

definition hex_DecodeString :: "string \<Rightarrow> bytes result" where
  "hex_DecodeString s = (case hex_pairs s of None \<Rightarrow> Inl (GoError ''encoding/hex: invalid input'') | Some b \<Rightarrow> Inr b)"

lemma hex_decode_encode: "hex_DecodeString (hex_encode b) = Inr b"
proof -
  have "hex_pairs (hex_encode b) = Some b"
    by (induction b) (simp_all add: hex_encode_def hex_val_hex_char less_mult_imp_div_less byte_val_less byte_of_val)
  then show ?thesis by (simp add: hex_DecodeString_def)
qed

section \<open>Base 64\<close>

definition b64_std :: string where
  "b64_std = ''ABCDEFGHIJKLMNOPQRSTUVWXYZabcdefghijklmnopqrstuvwxyz0123456789+/''"

definition b64_url :: string where
  "b64_url = ''ABCDEFGHIJKLMNOPQRSTUVWXYZabcdefghijklmnopqrstuvwxyz0123456789-_''"

text \<open>The bytes of two, three or four digits; what is left of the last digit is dropped.\<close>

definition b64_unpack :: "nat list \<Rightarrow> bytes" where
  "b64_unpack ds =
     (let d = ds @ replicate (4 - length ds) 0
      in take (length ds * 6 div 8)
           (map byte_of [d ! 0 * 4 + d ! 1 div 16, d ! 1 mod 16 * 16 + d ! 2 div 4, d ! 2 mod 4 * 64 + d ! 3]))"

text \<open>
  The digits of one quantum: four, or fewer at the end of the text, where padding fills them up to
  four when the encoding has padding. The text has no line breaks any more.
\<close>

definition b64_quantum :: "string \<Rightarrow> bool \<Rightarrow> string \<Rightarrow> nat list option" where
  "b64_quantum al pad q =
     (let cs = takeWhile (\<lambda>c. index_of al c \<noteq> None) q; rest = drop (length cs) q
      in if length cs < 2 then None
         else if rest \<noteq> (if pad then replicate (4 - length cs) pad_char else []) then None
         else Some (map (\<lambda>c. the (index_of al c)) cs))"

function b64_groups :: "string \<Rightarrow> bool \<Rightarrow> string \<Rightarrow> bytes option" where
  "b64_groups al pad s =
     (if s = [] then Some []
      else (case b64_quantum al pad (take 4 s) of
              None \<Rightarrow> None
            | Some ds \<Rightarrow>
                if length ds < 4 \<and> drop 4 s \<noteq> [] then None
                else map_option ((@) (b64_unpack ds)) (b64_groups al pad (drop 4 s))))"
  by pat_completeness auto
termination
  by (relation "measure (\<lambda>(al, pad, s). length s)") auto

declare b64_groups.simps [simp del]

definition b64_DecodeString :: "string \<Rightarrow> bool \<Rightarrow> string \<Rightarrow> bytes result" where
  "b64_DecodeString al pad s =
     (case b64_groups al pad (filter (\<lambda>c. c \<noteq> CHR 0x0A \<and> c \<noteq> CHR 0x0D) s) of
        None \<Rightarrow> Inl (GoError ''illegal base64 data'')
      | Some b \<Rightarrow> Inr b)"

section \<open>Base 36\<close>

definition b36_alphabet :: string where
  "b36_alphabet = ''0123456789ABCDEFGHIJKLMNOPQRSTUVWXYZ''"

text \<open>The table \<open>revAlphabet\<close>, in either letter case.\<close>

definition b36_digit :: "char \<Rightarrow> nat option" where
  "b36_digit r = index_of b36_alphabet (to_upper_char r)"

text \<open>One digit; the limbs come from the last to the first, and what the first one carries is dropped.\<close>

fun b36_step :: "64 word \<Rightarrow> w32 list \<Rightarrow> w32 list" where
  "b36_step c [] = []"
| "b36_step c (x # xs) =
     (let t = ucast x * 36 + c :: 64 word in ucast (t AND 0xffffffff) # b36_step (drop_bit 32 t) xs)"

fun b36_loop :: "string \<Rightarrow> w32 list \<Rightarrow> w32 list result" where
  "b36_loop [] outi = Inr outi"
| "b36_loop (r # rs) outi =
     (case b36_digit r of
        None \<Rightarrow> Inl (GoError ''invalid base36 character'')
      | Some d \<Rightarrow> b36_loop rs (b36_step (of_nat d) outi))"

text \<open>The search for the first byte that is not zero begins behind the first \<open>zcnt\<close>.\<close>

definition b36_skip :: "nat \<Rightarrow> bytes \<Rightarrow> bytes" where
  "b36_skip zcnt binu =
     (let n = zcnt + length (takeWhile (\<lambda>v. v = byte_of 0) (drop zcnt binu)) in
      if n < length binu then drop (n - zcnt) binu else binu)"

definition b36_DecodeString :: "string \<Rightarrow> bytes result" where
  "b36_DecodeString s =
     (if s = [] then Inl (GoError ''can not decode zero-length string'')
      else
        (let zcnt = length (takeWhile (\<lambda>c. c = CHR ''0'') s); k = length s mod 4
         in case b36_loop s (replicate ((length s + 3) div 4) 0) of
              Inl e \<Rightarrow> Inl e
            | Inr outi \<Rightarrow> Inr (b36_skip zcnt (limbs_out (if 0 < k then k else 4) outi))))"

section \<open>Base 36 with limbs is base 36\<close>

lemma b36_arith:
  fixes x :: w32 and c t :: "64 word"
  assumes "unat c < 2 ^ 32" and "t = ucast x * 36 + c"
  shows "unat (ucast (t AND 0xffffffff) :: w32) = (unat x * 36 + unat c) mod 2 ^ 32"
    and "unat (drop_bit 32 t) = (unat x * 36 + unat c) div 2 ^ 32"
    and "(unat x * 36 + unat c) div 2 ^ 32 < 2 ^ 32"
proof -
  have b: "unat x * 36 + unat c < 37 * 2 ^ 32" using assms(1) w32_less [of x] by simp
  then have "(unat x * 36 + unat c) div 2 ^ 32 < 37" by (simp only: less_mult_imp_div_less)
  then show "(unat x * 36 + unat c) div 2 ^ 32 < 2 ^ 32" by simp
  have "uint t = (uint x * 36 + uint c) mod 2 ^ 64"
    unfolding assms(2) by (simp add: uint_word_ariths unsigned_ucast_eq take_bit_eq_mod mod_simps)
  then have "unat t = (unat x * 36 + unat c) mod 2 ^ 64"
    by (metis (mono_tags, lifting) nat_mod_as_int of_nat_add of_nat_mult of_nat_numeral of_nat_power uint_nat nat_int of_nat_mod)
  with b have t: "unat t = unat x * 36 + unat c" by simp
  have m: "(0xffffffff :: nat) = mask 32" by (simp add: mask_eq_exp_minus_1)
  have "unat (ucast (t AND 0xffffffff) :: w32) = take_bit 32 (unat t AND 0xffffffff)"
    by (simp add: unsigned_ucast_eq unsigned_and_eq)
  then show "unat (ucast (t AND 0xffffffff) :: w32) = (unat x * 36 + unat c) mod 2 ^ 32"
    unfolding t m by (simp add: take_bit_eq_mod flip: take_bit_eq_mask)
  show "unat (drop_bit 32 t) = (unat x * 36 + unat c) div 2 ^ 32"
    unfolding unat_drop_bit_eq t by (simp add: drop_bit_eq_div)
qed

lemma length_b36_step [simp]: "length (b36_step c xs) = length xs"
  by (induction c xs rule: b36_step.induct) (simp_all add: Let_def)

lemma mod_split: "0 < (B :: nat) \<Longrightarrow> (u + B * y) mod (B * C) = u mod B + B * ((y + u div B) mod C)"
  by (simp add: mod_mult2_eq)

lemma mod_affine: "(a mod m * b + c) mod m = (a * b + c) mod (m :: nat)"
  by (metis mod_add_left_eq mod_mult_left_eq)

lemma b36_step_spec:
  "unat c < 2 ^ 32 \<Longrightarrow> limbs_nat (b36_step c xs) = (limbs_nat xs * 36 + unat c) mod 2 ^ (32 * length xs)"
proof (induction c xs rule: b36_step.induct)
  case (2 c x xs)
  define t :: "64 word" where "t = ucast x * 36 + c"
  let ?u = "unat x * 36 + unat c"
  note a = b36_arith [OF "2.prems" t_def]
  have IH: "limbs_nat (b36_step (drop_bit 32 t) xs) = (limbs_nat xs * 36 + ?u div 2 ^ 32) mod 2 ^ (32 * length xs)"
    using "2.IH" [OF t_def] a(2,3) by simp
  have e: "limbs_nat (x # xs) * 36 + unat c = ?u + 2 ^ 32 * (limbs_nat xs * 36)" by (simp add: algebra_simps)
  have "(limbs_nat (x # xs) * 36 + unat c) mod (2 ^ 32 * 2 ^ (32 * length xs)) =
      ?u mod 2 ^ 32 + 2 ^ 32 * ((limbs_nat xs * 36 + ?u div 2 ^ 32) mod 2 ^ (32 * length xs))"
    unfolding e by (rule mod_split) simp
  moreover have "limbs_nat (b36_step c (x # xs)) = ?u mod 2 ^ 32 + 2 ^ 32 * ((limbs_nat xs * 36 + ?u div 2 ^ 32) mod 2 ^ (32 * length xs))"
    unfolding b36_step.simps Let_def limbs_nat_simps by (simp only: a(1) IH flip: t_def)
  moreover have "(2 :: nat) ^ (32 * length (x # xs)) = 2 ^ 32 * 2 ^ (32 * length xs)" by (simp add: power_add)
  ultimately show ?case by (simp only:)
qed simp

lemma index_of_less: "index_of al c = Some d \<Longrightarrow> d < length al"
  by (induction al c arbitrary: d rule: index_of.induct) (auto split: if_splits)

lemma b36_digit_less: "b36_digit c = Some d \<Longrightarrow> d < 36"
proof -
  have "length b36_alphabet = 36" by code_simp
  then show "b36_digit c = Some d \<Longrightarrow> d < 36" by (metis b36_digit_def index_of_less)
qed

lemma b36_loop_spec:
  assumes "map b36_digit s = map Some ds"
  shows "\<exists>o'. b36_loop s outi = Inr o' \<and> length o' = length outi \<and>
    limbs_nat o' = (limbs_nat outi * 36 ^ length ds + from_be 36 ds) mod 2 ^ (32 * length outi)"
  using assms
proof (induction s arbitrary: ds outi)
  case Nil
  then show ?case using limbs_nat_less [of outi] by (simp add: from_be_def)
next
  case (Cons r s)
  then obtain d ds' where ds: "ds = d # ds'" "b36_digit r = Some d" "map b36_digit s = map Some ds'" by (cases ds) auto
  let ?o = "b36_step (of_nat d) outi" and ?m = "2 ^ (32 * length outi) :: nat"
  have d: "unat (of_nat d :: 64 word) = d" using b36_digit_less [OF ds(2)] by (simp add: unat_of_nat)
  have o: "limbs_nat ?o = (limbs_nat outi * 36 + d) mod ?m" using b36_step_spec [of "of_nat d" outi] b36_digit_less [OF ds(2)] d by simp
  from Cons.IH [OF ds(3), of ?o] obtain o' where o': "b36_loop s ?o = Inr o'" "length o' = length outi"
    "limbs_nat o' = (limbs_nat ?o * 36 ^ length ds' + from_be 36 ds') mod ?m" by auto
  have "limbs_nat o' = ((limbs_nat outi * 36 + d) * 36 ^ length ds' + from_be 36 ds') mod ?m"
    unfolding o'(3) o by (rule mod_affine)
  also have "(limbs_nat outi * 36 + d) * 36 ^ length ds' + from_be 36 ds' = limbs_nat outi * 36 ^ length ds + from_be 36 ds"
    by (simp add: ds(1) from_be_Cons algebra_simps)
  finally show ?case using o'(1,2) ds(2) by simp
qed

lemma b36_skip_eq: "z \<le> length (takeWhile (\<lambda>v. v = byte_of 0) b) \<Longrightarrow> b36_skip z b = skip_zeros z b"
proof -
  assume z: "z \<le> length (takeWhile (\<lambda>v. v = byte_of 0) b)"
  have "z \<le> length (takeWhile P xs) \<Longrightarrow> z + length (takeWhile P (drop z xs)) = length (takeWhile P xs)" for z P and xs :: bytes
    by (induction xs arbitrary: z) (auto simp: drop_Cons split: nat.splits if_splits)
  from this [OF z] show ?thesis by (simp add: b36_skip_def skip_zeros_def)
qed

text \<open>
  A text of base 36 digits in any letter case decodes to as many zero bytes as it has leading zeros,
  and the bytes of its value; neither the dropped carry nor the search for the first byte does harm.
\<close>

lemma b36_decode:
  assumes "s \<noteq> []" and "map b36_digit s = map Some ds" and "ds = replicate z 0 @ ds'" and "ds' = [] \<or> hd ds' \<noteq> 0"
  shows "b36_DecodeString s = Inr (replicate z (byte_of 0) @ nat_bytes (from_be 36 ds))"
proof -
  let ?n = "length s" and ?v = "from_be 36 ds" and ?q = "(length s - 1) div 4"
  have len: "length ds = ?n" using map_eq_imp_length_eq [OF assms(2)] by simp
  have less: "\<forall>d \<in> set ds. d < 36"
    using assms(2) b36_digit_less by (metis (no_types, lifting) in_set_conv_nth length_map nth_map)
  have "(36 :: nat) \<le> 256" by simp
  note v = digits_value [OF less this assms(3,4)]
  have "(256 :: nat) ^ length ds' \<le> 256 ^ ?n" using len assms(3) by (intro power_increasing) auto
  with v(1) have vn: "?v < 256 ^ ?n" by (simp only: less_le_trans)
  have char_of_48: "char_of (48 :: nat) = CHR ''0''" by code_simp
  have zc: "length (takeWhile (\<lambda>c. c = CHR ''0'') s) = z"
  proof -
    have "c = CHR ''0'' \<longleftrightarrow> b36_digit c = Some 0" for c
    proof
      assume "b36_digit c = Some 0"
      then have "to_upper_char c = CHR ''0''" by (simp add: b36_digit_def b36_alphabet_def split: if_splits)
      then have "of_char (to_upper_char c) = (48 :: nat)" by simp
      then have "of_char c = (48 :: nat)" by (auto simp: to_upper_char_def of_char_char_of_small split: if_splits)
      then show "c = CHR ''0''" by (metis char_of_char char_of_48)
    qed (simp add: b36_digit_def b36_alphabet_def to_upper_char_def)
    then have "length (takeWhile (\<lambda>c. c = CHR ''0'') s) = length (takeWhile (\<lambda>x. x = Some 0) (map b36_digit s))"
      by (simp add: takeWhile_map comp_def)
    also have "\<dots> = length (takeWhile (\<lambda>d. d = 0) ds)" unfolding assms(2) by (simp add: takeWhile_map comp_def)
    also have "takeWhile (\<lambda>d. d = 0) ds = replicate z 0" using takeWhile_replicate [OF assms(4)] assms(3) by simp
    finally show ?thesis by simp
  qed
  note q = length_quads [of ?n]
  obtain o' where o': "b36_loop s (replicate ((?n + 3) div 4) 0) = Inr o'" "length o' = Suc ?q"
    "limbs_nat o' = ?v mod 2 ^ (32 * Suc ?q)"
    using b36_loop_spec [OF assms(2), of "replicate ((?n + 3) div 4) 0"] q assms(1) by auto
  have "?n \<le> 4 * Suc ?q" by presburger
  then have "(256 :: nat) ^ ?n \<le> 256 ^ (4 * Suc ?q)" by (rule power_increasing) simp
  also have "\<dots> = 2 ^ (32 * Suc ?q)" by (simp only: power_mult) simp
  finally have "?v < 2 ^ (32 * Suc ?q)" using vn by (rule less_le_trans [rotated])
  then have "limbs_nat o' = ?v" using o'(3) by simp
  then have out: "limbs_out (if 0 < ?n mod 4 then ?n mod 4 else 4) o' = map byte_of (be_digits ?n 256 ?v)"
    using limbs_out_digits [OF o'(2)] q assms(1) by simp
  have "z \<le> length (takeWhile (\<lambda>v. v = byte_of 0) (map byte_of (be_digits ?n 256 ?v)))"
    using zero_bytes(2) [OF vn] le_digits_length [OF v(1)] len assms(3) by simp
  from b36_skip_eq [OF this] have "b36_skip z (map byte_of (be_digits ?n 256 ?v)) = replicate z (byte_of 0) @ nat_bytes ?v"
    using skip_zeros_digits [OF v(1) _ v(2), of z ?n] len assms(3) by simp
  then show ?thesis using assms(1) o'(1) out by (simp add: b36_DecodeString_def Let_def zc)
qed

end
