(* ===== verification/Multibase.thy ===== *)
theory Multibase
  imports Bases
begin

text \<open>
  Texts that name their base in the first character, \<open>vendor/github.com/multiformats/go-multibase\<close>,
  with base 32 as in \<open>multiformats/go-base32\<close>: in either letter case, padded or not, over either of
  its alphabets. The other bases are in \<open>Base58\<close> and \<open>Bases\<close>.
\<close>

section \<open>Base 32 in either letter case\<close>

text \<open>
  One quantum of the decoder, as \<open>b32_quantum\<close>; without padding the end of the text ends it, and
  the byte 255, which \<open>NoPadding\<close> becomes, is an error.
\<close>

fun ci_quantum :: "string \<Rightarrow> bool \<Rightarrow> nat \<Rightarrow> nat list \<Rightarrow> string \<Rightarrow> (nat list \<times> string \<times> bool) option" where
  "ci_quantum al pad 0 dbuf src = Some (dbuf, src, False)"
| "ci_quantum al pad (Suc r) dbuf [] = (if pad then None else Some (dbuf, [], False))"
| "ci_quantum al pad (Suc r) dbuf (c # src) =
     (let j = length dbuf in
      if c = (if pad then pad_char else byte_of 255) \<and> 2 \<le> j \<and> length src < 8 then
        (if \<not> pad then None
         else if length src + j < 7 then None
         else if \<not> list_all (\<lambda>x. x = pad_char) (take (7 - j) src) then None
         else if j = 1 \<or> j = 3 \<or> j = 6 then None
         else Some (dbuf, src, True))
      else
        (case index_of al (to_upper_char c) of
           None \<Rightarrow> None
         | Some d \<Rightarrow> ci_quantum al pad r (dbuf @ [d]) src))"

text \<open>Of 1, 3 or 6 digits, which only the unpadded form lets through, nothing is written.\<close>

definition ci_unpack :: "nat list \<Rightarrow> bytes" where
  "ci_unpack ds = (if length ds \<in> {2, 4, 5, 7, 8} then b32_unpack ds else [])"

lemma ci_quantum_length: "ci_quantum al pad r dbuf src = Some (ds, rest, e) \<Longrightarrow> length rest \<le> length src"
  by (induction al pad r dbuf src rule: ci_quantum.induct)
    (fastforce simp: Let_def split: if_splits option.splits intro: le_SucI)+

lemma ci_quantum_less:
  "ci_quantum al pad (Suc r) dbuf (c # src) = Some (ds, rest, e) \<Longrightarrow> length rest < Suc (length src)"
  by (auto simp: Let_def less_Suc_eq_le split: if_splits option.splits dest: ci_quantum_length)

function ci_decode_loop :: "string \<Rightarrow> bool \<Rightarrow> string \<Rightarrow> bytes option" where
  "ci_decode_loop al pad src =
     (if src = [] then Some []
      else (case ci_quantum al pad 8 [] src of
              None \<Rightarrow> None
            | Some (ds, rest, ended) \<Rightarrow>
                if ended then Some (ci_unpack ds)
                else map_option ((@) (ci_unpack ds)) (ci_decode_loop al pad rest)))"
  by pat_completeness auto
termination
proof (relation "measure (\<lambda>(al, pad, src). length src)")
  fix al pad src p ds q rest e
  assume s: "src \<noteq> []" "ci_quantum al pad 8 [] src = Some p" "(ds, q) = p" "(rest, e) = q" "\<not> e"
  then obtain c cs where "src = c # cs" by (cases src) auto
  with s ci_quantum_less [of al pad 7 "[]" c cs ds rest e] show "((al, pad, rest), (al, pad, src)) \<in> measure (\<lambda>(al, pad, src). length src)"
    by (auto simp: eval_nat_numeral)
qed simp

declare ci_decode_loop.simps [simp del]

definition ci_decode :: "string \<Rightarrow> bool \<Rightarrow> string \<Rightarrow> bytes option" where
  "ci_decode al pad s = ci_decode_loop al pad (filter (\<lambda>c. c \<noteq> CHR 0x0A \<and> c \<noteq> CHR 0x0D) s)"

text \<open>\<open>base32StdLowerNoPad.EncodeToString\<close>\<close>

definition b32_lower :: string where
  "b32_lower = ''abcdefghijklmnopqrstuvwxyz234567''"

definition raw_group :: "bytes \<Rightarrow> string" where
  "raw_group bs = map ((!) b32_lower) (take (b32_chars (length bs)) (be_digits 8 32 (group_value bs)))"

function raw_encode :: "bytes \<Rightarrow> string" where
  "raw_encode bs = (if bs = [] then [] else raw_group (take 5 bs) @ raw_encode (drop 5 bs))"
  by pat_completeness auto
termination
  by (relation "measure length") auto

declare raw_encode.simps [simp del]

section \<open>Multibase\<close>

definition FlickrAlphabet :: string where
  "FlickrAlphabet = ''123456789abcdefghijkmnopqrstuvwxyzABCDEFGHJKLMNPQRSTUVWXYZ''"

text \<open>\<open>Decode\<close>: the first character is the encoding.\<close>

definition base32_result :: "bytes option \<Rightarrow> bytes result" where
  "base32_result r = (case r of None \<Rightarrow> Inl (GoError ''illegal base32 data'') | Some b \<Rightarrow> Inr b)"

definition b32_hex_alphabet :: string where
  "b32_hex_alphabet = ''0123456789ABCDEFGHIJKLMNOPQRSTUV''"

definition mbase_Decode :: "string \<Rightarrow> bytes result" where
  "mbase_Decode s =
     (case s of
        [] \<Rightarrow> Inl (GoError ''cannot decode multibase for zero length string'')
      | enc # rest \<Rightarrow>
          if enc = CHR 0x00 then Inr rest
          else if enc = CHR ''0'' then decodeBinaryString rest
          else if enc \<in> set ''fF'' then hex_DecodeString rest
          else if enc \<in> set ''bB'' then base32_result (ci_decode b32_alphabet False rest)
          else if enc \<in> set ''vV'' then base32_result (ci_decode b32_hex_alphabet False rest)
          else if enc \<in> set ''cC'' then base32_result (ci_decode b32_alphabet True rest)
          else if enc \<in> set ''tT'' then base32_result (ci_decode b32_hex_alphabet True rest)
          else if enc \<in> set ''kK'' then b36_DecodeString rest
          else if enc = CHR ''z'' then FastBase58Decoding BTCAlphabet rest
          else if enc = CHR ''Z'' then FastBase58Decoding FlickrAlphabet rest
          else if enc = CHR ''M'' then b64_DecodeString b64_std True rest
          else if enc = CHR ''U'' then b64_DecodeString b64_url True rest
          else if enc = CHR ''m'' then b64_DecodeString b64_std False rest
          else if enc = CHR ''u'' then b64_DecodeString b64_url False rest
          else Inl (GoError ''selected encoding not supported''))"

text \<open>\<open>Encode(Base32, data)\<close>\<close>

definition mbase_Encode32 :: "bytes \<Rightarrow> string" where
  "mbase_Encode32 b = CHR ''b'' # raw_encode b"

text \<open>The text of the multibase specification, in bases other than 32.\<close>

lemma multibase_sample:
  "mbase_Decode ''01111001011001010111001100100000011011010110000101101110011010010010000000100001'' = Inr ''yes mani !''"
  "mbase_Decode ''f796573206d616e692021'' = Inr ''yes mani !''"
  "mbase_Decode ''k2lcpzo5yikidynfl'' = Inr ''yes mani !''"
  "mbase_Decode ''z7paNL19xttacUY'' = Inr ''yes mani !''"
  "mbase_Decode ''meWVzIG1hbmkgIQ'' = Inr ''yes mani !''"
  "mbase_Decode ''MeWVzIG1hbmkgIQ=='' = Inr ''yes mani !''"
  "mbase_Decode ''UeWVzIG1hbmkgIQ=='' = Inr ''yes mani !''"
  by code_simp+

section \<open>Decoding what was encoded\<close>

lemma b32_lower_upper: "d < 32 \<Longrightarrow> to_upper_char (b32_lower ! d) = b32_alphabet ! d"
proof -
  assume "d < 32"
  moreover have "map to_upper_char b32_lower = b32_alphabet" "length b32_lower = 32" by code_simp+
  ultimately show ?thesis by (metis nth_map)
qed

lemma b32_lower_chars: "d < 32 \<Longrightarrow> b32_lower ! d \<notin> {pad_char, byte_of 255, CHR 0x0A, CHR 0x0D}"
proof -
  assume "d < 32"
  then have "b32_lower ! d \<in> set b32_lower" by (intro nth_mem) (simp add: b32_lower_def)
  then show ?thesis by (auto simp: b32_lower_def pad_char_def byte_of_def char_of_def)
qed

lemma ci_quantum_digits:
  "\<forall>d \<in> set ds. d < 32 \<Longrightarrow>
     ci_quantum b32_alphabet pad (length ds + m) dbuf (map ((!) b32_lower) ds @ rest) = ci_quantum b32_alphabet pad m (dbuf @ ds) rest"
proof (induction ds arbitrary: dbuf)
  case (Cons d ds)
  then show ?case
    using b32_lower_chars [of d] b32_lower_upper [of d] index_of_nth [OF b32_alphabet_ok(1), of d]
    by (cases pad) (simp_all add: b32_alphabet_ok(2))
qed simp

lemma ci_decode_loop_Nil [simp]: "ci_decode_loop al pad [] = Some []"
  by (simp add: ci_decode_loop.simps)

lemma raw_unpack:
  assumes "0 < length bs" and "length bs \<le> 5"
  shows "ci_unpack (take (b32_chars (length bs)) (be_digits 8 32 (group_value bs))) = bs"
proof -
  let ?n = "b32_chars (length bs)"
  have n: "?n \<in> {2, 4, 5, 7, 8}" using assms chars_cases [of "length bs"] by (cases "length bs = 5") (auto simp: b32_chars_def)
  then have "length (take ?n (be_digits 8 32 (group_value bs))) \<in> {2, 4, 5, 7, 8}" by auto
  then show ?thesis
    using b32_unpack_take [OF n group_value_less [OF assms(2)]] take_group_bytes [OF assms(2) order_refl] b32_bytes_chars [OF assms(2)]
    by (simp add: ci_unpack_def)
qed

lemma decode_raw_group:
  assumes "0 < length bs" and "length bs \<le> 5" and "length bs < 5 \<Longrightarrow> rest = []"
  shows "ci_decode_loop b32_alphabet False (raw_group bs @ rest) = map_option ((@) bs) (ci_decode_loop b32_alphabet False rest)"
proof -
  let ?n = "b32_chars (length bs)" and ?ds = "take (b32_chars (length bs)) (be_digits 8 32 (group_value bs))"
  have n: "0 < ?n" "?n \<le> 8" using assms(1,2) chars_cases [OF assms(1)] by (cases "length bs = 5"; force simp: b32_chars_def)+
  have l: "length ?ds + (8 - ?n) = 8" using n by simp
  have "ci_quantum b32_alphabet False 8 [] (raw_group bs @ rest) = ci_quantum b32_alphabet False (8 - ?n) ?ds rest"
    using ci_quantum_digits [OF group_digits_less, of False ?n "group_value bs" "8 - ?n" "[]" rest]
    unfolding l raw_group_def by simp
  also have "\<dots> = Some (?ds, rest, False)"
  proof (cases "length bs = 5")
    case True
    then show ?thesis by (simp add: b32_chars_def)
  next
    case False
    with assms have "rest = []" "8 - ?n \<noteq> 0" using chars_cases [of "length bs"] by auto
    then show ?thesis by (cases "8 - ?n") auto
  qed
  finally have q: "ci_quantum b32_alphabet False 8 [] (raw_group bs @ rest) = Some (?ds, rest, False)" .
  have "length (raw_group bs) = ?n" using n by (simp add: raw_group_def)
  with n have "raw_group bs \<noteq> []" by auto
  with q show ?thesis using raw_unpack [OF assms(1,2)] by (subst ci_decode_loop.simps) simp
qed

lemma decode_raw: "ci_decode_loop b32_alphabet False (raw_encode bs) = Some bs"
proof (induction bs rule: raw_encode.induct)
  case (1 bs)
  show ?case
  proof (cases "bs = []")
    case False
    then have "raw_encode bs = raw_group (take 5 bs) @ raw_encode (drop 5 bs)" by (simp add: raw_encode.simps [of bs])
    moreover have "raw_encode (drop 5 bs) = []" if "length (take 5 bs) < 5" using that by (simp add: raw_encode.simps [of "[]"])
    ultimately show ?thesis using False 1 decode_raw_group [of "take 5 bs" "raw_encode (drop 5 bs)"] by simp
  qed (simp add: raw_encode.simps)
qed

lemma raw_encode_chars: "c \<in> set (raw_encode bs) \<Longrightarrow> c \<noteq> CHR 0x0A \<and> c \<noteq> CHR 0x0D"
proof (induction bs rule: raw_encode.induct)
  case (1 bs)
  have "c \<noteq> CHR 0x0A \<and> c \<noteq> CHR 0x0D" if "c \<in> set (raw_group bs')" for bs'
    using that group_digits_less [of "b32_chars (length bs')" "group_value bs'"] b32_lower_chars
    by (auto simp: raw_group_def)
  with 1 show ?case by (auto simp: raw_encode.simps [of bs] split: if_splits)
qed

lemma ci_decode_raw: "ci_decode b32_alphabet False (raw_encode bs) = Some bs"
proof -
  have "filter (\<lambda>c. c \<noteq> CHR 0x0A \<and> c \<noteq> CHR 0x0D) (raw_encode bs) = raw_encode bs"
    using raw_encode_chars by (simp add: filter_id_conv)
  then show ?thesis by (simp add: ci_decode_def decode_raw)
qed

lemma mbase_Decode_Encode32: "mbase_Decode (mbase_Encode32 b) = Inr b"
  by (simp add: mbase_Decode_def mbase_Encode32_def base32_result_def ci_decode_raw)

text \<open>A padded text has a multiple of eight characters, unless it has padding.\<close>

lemma ci_quantum_unpadded:
  "ci_quantum al True r dbuf src = Some (ds, rest, e) \<Longrightarrow> pad_char \<notin> set src \<Longrightarrow>
     \<not> e \<and> length src = length rest + r \<and> set rest \<subseteq> set src"
proof (induction al True r dbuf src rule: ci_quantum.induct)
  case (3 r dbuf c src)
  then show ?case by (auto simp: Let_def split: if_splits option.splits)
qed auto

lemma ci_decode_unpadded:
  "ci_decode_loop al True s = Some b \<Longrightarrow> pad_char \<notin> set s \<Longrightarrow> length s mod 8 = 0"
proof (induction al True s arbitrary: b rule: ci_decode_loop.induct)
  case (1 al src)
  show ?case
  proof (cases "src = []")
    case False
    with "1.prems"(1) obtain ds rest e where q: "ci_quantum al True 8 [] src = Some (ds, rest, e)"
      by (subst (asm) ci_decode_loop.simps) (auto split: option.splits)
    note u = ci_quantum_unpadded [OF q "1.prems"(2)]
    with q False "1.prems"(1) obtain b' where "ci_decode_loop al True rest = Some b'"
      by (subst (asm) ci_decode_loop.simps) auto
    then have "length rest mod 8 = 0" using "1.hyps" [OF False q refl refl] u "1.prems"(2) by blast
    with u show ?thesis by simp
  qed simp
qed

end
