(* ===== verification/Cid.thy ===== *)
theory Cid
  imports Multibase Regutil
begin

text \<open>
  Content identifiers, the vendored \<open>ipfs/go-cid\<close> with \<open>multiformats/go-varint\<close> and
  \<open>multiformats/go-multihash\<close>: as much as \<open>regutil.go\<close> uses to read a CID of any version and to
  print it in base 32 and base 58. It is an instance \<open>go_cid\<close> of the parameter \<open>cid_lib\<close>, and the
  laws of the locale \<open>cid_package\<close> hold of it.
\<close>

section \<open>Varints\<close>

text \<open>\<open>FromUvarint\<close>: the loop at index \<open>i\<close>, with the value \<open>x\<close> and the shift \<open>s\<close>.\<close>

fun uvarint_loop :: "bytes \<Rightarrow> nat \<Rightarrow> 64 word \<Rightarrow> nat \<Rightarrow> (64 word \<times> nat) result" where
  "uvarint_loop [] i x s = Inl (GoError ''varints malformed, could not reach the end'')"
| "uvarint_loop (b # buf) i x s =
     (if byte_val b < 0x80 then
        (if 9 < i \<or> i = 9 \<and> 1 < byte_val b then Inl (GoError ''varints larger than uint64 not yet supported'')
         else if byte_val b = 0 \<and> 0 < s then Inl (GoError ''varint not minimally encoded'')
         else Inr (x OR push_bit s (of_nat (byte_val b)), i + 1))
      else uvarint_loop buf (i + 1) (x OR push_bit s (of_nat (byte_val b) AND 0x7f)) (s + 7))"

definition FromUvarint :: "bytes \<Rightarrow> (64 word \<times> nat) result" where
  "FromUvarint buf = uvarint_loop buf 0 0 0"

function PutUvarint :: "64 word \<Rightarrow> bytes" where
  "PutUvarint x =
     (if 0x80 \<le> x then byte_of (unat (ucast x OR 0x80 :: 8 word)) # PutUvarint (drop_bit 7 x)
      else [byte_of (unat (ucast x :: 8 word))])"
  by pat_completeness auto
termination
proof (relation "measure unat")
  fix x :: "64 word"
  assume "0x80 \<le> x"
  then have "0 < unat x" by (simp add: word_le_nat_alt)
  then show "(drop_bit 7 x, x) \<in> measure unat"
    unfolding in_measure unat_drop_bit_eq by (simp add: drop_bit_eq_div)
qed simp

declare PutUvarint.simps [simp del]

section \<open>Multihashes\<close>

text \<open>The codes of the map \<open>Codes\<close>, with those that \<open>init\<close> adds.\<close>

definition ValidCode :: "64 word \<Rightarrow> bool" where
  "ValidCode c \<longleftrightarrow>
     c \<in> set [0x00, 0x11, 0x12, 0x13, 0x17, 0x16, 0x15, 0x14, 0x56, 0x22, 0x1A, 0x1B, 0x1C, 0x1D, 0x18, 0x19, 0x1100, 0xd5]
     \<or> 0xb201 \<le> c \<and> c \<le> 0xb240 \<or> 0xb241 \<le> c \<and> c \<le> 0xb260"

definition mh_uvarint :: "bytes \<Rightarrow> (64 word \<times> bytes) result" where
  "mh_uvarint buf =
     (case FromUvarint buf of
        Inl e \<Rightarrow> Inl e
      | Inr (n, c) \<Rightarrow> if c = 0 then Inl (GoError ''uvarint: buffer too small'') else Inr (n, drop c buf))"

text \<open>How many bytes were read, the code of the hash function, and the digest.\<close>

definition readMultihashFromBuf :: "bytes \<Rightarrow> (nat \<times> 64 word \<times> bytes) result" where
  "readMultihashFromBuf buf =
     (if length buf < 2 then Inl (GoError ''multihash too short. must be >= 2 bytes'')
      else (case mh_uvarint buf of
              Inl e \<Rightarrow> Inl e
            | Inr (code, buf1) \<Rightarrow>
                (case mh_uvarint buf1 of
                   Inl e \<Rightarrow> Inl e
                 | Inr (len, buf2) \<Rightarrow>
                     if 0x7fffffff < len then Inl (GoError ''digest too long, supporting only <= 2^31-1'')
                     else if length buf2 < unat len
                       then Inl (GoError ''length greater than remaining number of bytes in buffer'')
                     else Inr ((length buf - length buf2) + unat len, code, take (unat len) buf2))))"

definition MHFromBytes :: "bytes \<Rightarrow> (nat \<times> bytes) result" where
  "MHFromBytes buf =
     (case readMultihashFromBuf buf of
        Inl e \<Rightarrow> Inl e
      | Inr (nr, code, hdig) \<Rightarrow> Inr (nr, take nr buf))"

definition mh_Decode :: "bytes \<Rightarrow> (64 word \<times> bytes) result" where
  "mh_Decode buf =
     (case readMultihashFromBuf buf of
        Inl e \<Rightarrow> Inl e
      | Inr (rlen, code, hdig) \<Rightarrow>
          if length buf \<noteq> rlen then Inl (GoError ''multihash length inconsistent'') else Inr (code, hdig))"

definition mh_Cast :: "bytes \<Rightarrow> bytes result" where
  "mh_Cast buf =
     (case mh_Decode buf of
        Inl e \<Rightarrow> Inl e
      | Inr (code, hdig) \<Rightarrow> if \<not> ValidCode code then Inl (GoError ''unknown multihash code'') else Inr buf)"

definition FromB58String :: "string \<Rightarrow> bytes result" where
  "FromB58String s =
     (case FastBase58Decoding BTCAlphabet s of
        Inl e \<Rightarrow> Inl (GoError ''input isn't valid multihash'')
      | Inr b \<Rightarrow> mh_Cast b)"

text \<open>\<open>B58String\<close>; encoding does not fail (\<open>fast_encode\<close>).\<close>

definition B58String :: "bytes \<Rightarrow> string" where
  "B58String m = (case FastBase58Encoding BTCAlphabet m of Some s \<Rightarrow> s | None \<Rightarrow> [])"

section \<open>CIDs\<close>

text \<open>A \<open>Cid\<close> is its bytes: a multihash (version 0), or version, codec and multihash.\<close>

type_synonym cid = bytes

definition v0_prefix :: "bytes \<Rightarrow> bool" where
  "v0_prefix b \<longleftrightarrow> b ! 0 = byte_of 18 \<and> b ! 1 = byte_of 32"

definition tryNewCidV0 :: "bytes \<Rightarrow> cid result" where
  "tryNewCidV0 mhash =
     (case mh_Decode mhash of
        Inl e \<Rightarrow> Inl e
      | Inr (code, hdig) \<Rightarrow>
          if code \<noteq> 0x12 \<or> length hdig \<noteq> 32 then Inl (GoError ''invalid hash for cidv0'') else Inr mhash)"

definition NewCidV1 :: "64 word \<Rightarrow> bytes \<Rightarrow> cid" where
  "NewCidV1 codecType mhash = PutUvarint 1 @ PutUvarint codecType @ mhash"

definition CidFromBytes :: "bytes \<Rightarrow> (nat \<times> cid) result" where
  "CidFromBytes b =
     (if 2 < length b \<and> v0_prefix b then
        (if length b < 34 then Inl (GoError ''not enough bytes for cid v0'')
         else (case mh_Cast (take 34 b) of
                 Inl e \<Rightarrow> Inl e
               | Inr h \<Rightarrow> Inr (34, h)))
      else
        (case FromUvarint b of
           Inl e \<Rightarrow> Inl e
         | Inr (vers, n) \<Rightarrow>
             if vers \<noteq> 1 then Inl (GoError ''expected 1 as the cid version number'')
             else
               (case FromUvarint (drop n b) of
                  Inl e \<Rightarrow> Inl e
                | Inr (codec, cn) \<Rightarrow>
                    (case MHFromBytes (drop (n + cn) b) of
                       Inl e \<Rightarrow> Inl e
                     | Inr (mhnr, h) \<Rightarrow> Inr (n + cn + mhnr, take (n + cn + mhnr) b)))))"

definition cid_Cast :: "bytes \<Rightarrow> cid result" where
  "cid_Cast b =
     (case CidFromBytes b of
        Inl e \<Rightarrow> Inl e
      | Inr (nr, c) \<Rightarrow>
          if nr \<noteq> length b then Inl (GoError ''trailing bytes in data buffer passed to cid Cast'') else Inr c)"

definition cid_Decode :: "string \<Rightarrow> cid result" where
  "cid_Decode v =
     (if length v < 2 then Inl (GoError ''cid too short'')
      else if length v = 46 \<and> take 2 v = ''Qm'' then
        (case FromB58String v of
           Inl e \<Rightarrow> Inl e
         | Inr h \<Rightarrow> tryNewCidV0 h)
      else
        (case mbase_Decode v of
           Inl e \<Rightarrow> Inl e
         | Inr b \<Rightarrow> cid_Cast b))"

definition cid_Version :: "cid \<Rightarrow> nat" where
  "cid_Version c = (if length c = 34 \<and> v0_prefix c then 0 else 1)"

text \<open>
  \<open>Type\<close> and \<open>Hash\<close> drop the errors of reading a varint, whose values are then 0 and 0. (\<open>Type\<close> calls a
  copy of \<open>FromUvarint\<close> on strings, which tests the index where \<open>FromUvarint\<close> tests the shift, seven
  times the index.)
\<close>

definition uvarint :: "bytes \<Rightarrow> 64 word \<times> nat" where
  "uvarint b = (case FromUvarint b of Inl e \<Rightarrow> (0, 0) | Inr p \<Rightarrow> p)"

definition cid_Type :: "cid \<Rightarrow> 64 word" where
  "cid_Type c =
     (if cid_Version c = 0 then 0x70
      else (let n = snd (uvarint c) in fst (uvarint (drop n c))))"

definition cid_Hash :: "cid \<Rightarrow> bytes" where
  "cid_Hash c =
     (if cid_Version c = 0 then c
      else (let n1 = snd (uvarint c); n2 = snd (uvarint (drop n1 c)) in drop (n1 + n2) c))"

text \<open>\<open>StringOfBase(mbase.Base32)\<close>\<close>

definition StringOfBase32 :: "cid \<Rightarrow> string result" where
  "StringOfBase32 c =
     (if cid_Version c = 0 then Inl (GoError ''invalid base encoding'') else Inr (mbase_Encode32 c))"

definition go_cid :: cid_lib where
  "go_cid =
     \<lparr>cid_decode = (\<lambda>s. case cid_Decode s of Inl e \<Rightarrow> Inl e | Inr c \<Rightarrow> Inr (unat (cid_Type c), cid_Hash c)),
      cid_v1_b32 = (\<lambda>codec h. StringOfBase32 (NewCidV1 (of_nat codec) h)),
      mh_b58 = B58String\<rparr>"

text \<open>
  \<open>toCidV1\<close> and \<open>toCidV0\<close> of \<open>regutil.go\<close>, the first without its error, which is always nil. The
  second, which the program does not use, panics in \<open>NewCidV0\<close> on a hash that is not SHA-256.
\<close>

definition toCidV1 :: "cid \<Rightarrow> cid" where
  "toCidV1 c = NewCidV1 (cid_Type c) (cid_Hash c)"

definition NewCidV0 :: "bytes \<Rightarrow> cid outcome" where
  "NewCidV0 mhash = (case tryNewCidV0 mhash of Inl e \<Rightarrow> Panicked | Inr c \<Rightarrow> Done c)"

definition toCidV0 :: "cid \<Rightarrow> cid result outcome" where
  "toCidV0 c =
     (if cid_Type c \<noteq> 0x70 then Done (Inl (GoError ''can't convert non-protobuf nodes to cidv0''))
      else (case NewCidV0 (cid_Hash c) of
              Done c0 \<Rightarrow> Done (Inr c0)
            | Panicked \<Rightarrow> Panicked
            | Blocked \<Rightarrow> Blocked))"

section \<open>Reading what was written\<close>

lemma PutUvarint_small: "x < 0x80 \<Longrightarrow> PutUvarint x = [byte_of (unat x)]"
proof -
  assume "x < 0x80"
  then have "unat x < 128" by (simp add: word_less_nat_alt)
  then have "unat (ucast x :: 8 word) = unat x" by (simp add: unsigned_ucast_eq take_bit_nat_eq_self_iff)
  moreover have "\<not> 0x80 \<le> x" using \<open>x < 0x80\<close> by (simp add: not_le)
  ultimately show ?thesis by (simp add: PutUvarint.simps [of x])
qed

lemma PutUvarint_step:
  "0x80 \<le> x \<Longrightarrow> \<exists>b. PutUvarint x = b # PutUvarint (drop_bit 7 x) \<and> \<not> byte_val b < 0x80 \<and> of_nat (byte_val b) AND 0x7f = x AND 0x7f"
proof -
  assume x: "0x80 \<le> x"
  let ?w = "ucast x OR 0x80 :: 8 word"
  have v: "byte_val (byte_of (unat ?w)) = unat ?w" 
  proof -
    have "unat ?w < 2 ^ LENGTH(8)" by (rule unsigned_less)
    then show ?thesis by simp
  qed
  have "unat (0x80 :: 8 word) \<le> unat ?w"

  proof -
    have "int 128 \<le> int (128 OR unat (ucast x :: 8 word))" by (simp add: of_nat_or_eq or_greater_eq)
    then have "128 \<le> unat (ucast x :: 8 word) OR 128" by (simp only: of_nat_le_iff or.commute)
    then show ?thesis by (simp only: unsigned_or_eq) simp
  qed
  then have "\<not> unat ?w < 0x80" by simp
  moreover have "of_nat (unat ?w) AND 0x7f = x AND 0x7f"
  proof -
    have m: "(0x7f :: 64 word) = mask 7" by (simp add: mask_eq_exp_minus_1)
    have "(of_nat (unat ?w) :: 64 word) = ucast ?w" by (simp add: unsigned_of_nat)
    moreover have "\<not> bit (0x80 :: 8 word) n" if "n < 7" for n
      using bit_exp_iff [of 7 n, where 'a = "8 word"] that by auto
    moreover have "(ucast ?w :: 64 word) AND mask 7 = x AND mask 7"
    proof (rule bit_word_eqI)
      fix n
      show "bit ((ucast ?w :: 64 word) AND mask 7) n \<longleftrightarrow> bit (x AND mask 7) n"
        using calculation(2) [of n] by (cases "n < 7") (auto simp: bit_simps)
    qed
    ultimately show ?thesis unfolding m by simp
  qed
  ultimately show ?thesis using x v by (simp add: PutUvarint.simps [of x])
qed

lemma varint_bits: "push_bit s (x AND 0x7f) OR push_bit (s + 7) (drop_bit 7 x) = push_bit s (x :: 64 word)"
proof -
  have m: "(0x7f :: 64 word) = mask 7" by (simp add: mask_eq_exp_minus_1)
  show ?thesis unfolding m
  proof (rule bit_word_eqI)
    fix n
    assume "n < LENGTH(64)"
    then show "bit (push_bit s (x AND mask 7) OR push_bit (s + 7) (drop_bit 7 x)) n \<longleftrightarrow> bit (push_bit s x) n"
      by (cases "n < s + 7") (auto simp: bit_simps)
  qed
qed

lemma uvarint_loop_put:
  assumes "unat x < 2 ^ (64 - 7 * i)" and "0 < i \<Longrightarrow> x \<noteq> 0" and "i \<le> 9"
  shows "uvarint_loop (PutUvarint x @ rest) i a (7 * i) = Inr (a OR push_bit (7 * i) x, i + length (PutUvarint x))"
  using assms
proof (induction x arbitrary: i a rule: PutUvarint.induct)
  case (1 x)
  show ?case
  proof (cases "0x80 \<le> x")
    case True
    then obtain b where b: "PutUvarint x = b # PutUvarint (drop_bit 7 x)" "\<not> byte_val b < 0x80"
      "of_nat (byte_val b) AND 0x7f = x AND 0x7f" using PutUvarint_step by blast
    have u: "128 \<le> unat x" using True by (simp add: word_le_nat_alt)
    have i: "i \<le> 8"
    proof (rule ccontr)
      assume "\<not> i \<le> 8"
      with "1.prems"(3) have "i = 9" by simp
      with "1.prems"(1) u show False by simp
    qed
    have "unat (drop_bit 7 x) = unat x div 2 ^ 7" unfolding unat_drop_bit_eq by (simp only: drop_bit_eq_div)
    moreover have "64 - 7 * i = (64 - 7 * (i + 1)) + 7" using i by simp
    then have "unat x < 2 ^ (64 - 7 * (i + 1)) * 2 ^ 7" using "1.prems"(1) by (simp only: power_add)
    then have "unat x div 2 ^ 7 < 2 ^ (64 - 7 * (i + 1))" by (rule less_mult_imp_div_less)
    ultimately have d: "unat (drop_bit 7 x) < 2 ^ (64 - 7 * (i + 1))" "unat (drop_bit 7 x) \<noteq> 0" using u by auto
    then have nz: "drop_bit 7 x \<noteq> 0" by (metis unat_0)
    define a' where "a' = a OR push_bit (7 * i) (x AND 0x7f)"
    have "a' OR push_bit (7 * i + 7) (drop_bit 7 x) = a OR push_bit (7 * i) x"
      unfolding a'_def by (simp only: or.assoc varint_bits)
    with "1.IH" [OF True d(1) nz, of a'] i
    have "uvarint_loop (PutUvarint (drop_bit 7 x) @ rest) (i + 1) a' (7 * i + 7) =
       Inr (a OR push_bit (7 * i) x, i + 1 + length (PutUvarint (drop_bit 7 x)))"
      by (simp add: algebra_simps)
    then show ?thesis using b unfolding a'_def by simp
  next
    case False
    then have s: "PutUvarint x = [byte_of (unat x)]" "unat x < 128"
      by (simp_all add: PutUvarint_small not_le word_less_nat_alt)
    have "\<not> (i = 9 \<and> 1 < unat x)" using "1.prems"(1) by auto
    moreover have "\<not> (unat x = 0 \<and> 0 < i)" using "1.prems"(2) by (auto simp: unat_eq_zero)
    ultimately show ?thesis using s "1.prems"(3) by simp
  qed
qed

lemma FromUvarint_Put: "FromUvarint (PutUvarint x @ rest) = Inr (x, length (PutUvarint x))"
proof -
  have "unat x < 2 ^ (64 - 7 * 0)" using unsigned_less [of x] by simp
  from uvarint_loop_put [OF this, of rest 0] show ?thesis by (simp add: FromUvarint_def)
qed

lemma uvarint_loop_local:
  "uvarint_loop buf i a s = Inr (x, k) \<Longrightarrow>
     i < k \<and> k - i \<le> length buf \<and> uvarint_loop (take (k - i) buf @ rest) i a s = Inr (x, k)"
proof (induction buf i a s rule: uvarint_loop.induct)
  case (2 b buf i a s)
  show ?case
  proof (cases "byte_val b < 0x80")
    case True
    with "2.prems" show ?thesis by (auto split: if_splits)
  next
    case False
    with 2 have IH: "i + 1 < k" "k - (i + 1) \<le> length buf"
      "uvarint_loop (take (k - (i + 1)) buf @ rest) (i + 1) (a OR push_bit s (of_nat (byte_val b) AND 0x7f)) (s + 7) = Inr (x, k)"
      by simp_all
    then have "take (k - i) (b # buf) = b # take (k - (i + 1)) buf" by (simp add: take_Cons' )
    with IH False show ?thesis by simp
  qed
qed simp

lemma FromUvarint_local:
  assumes "FromUvarint buf = Inr (x, k)"
  shows "0 < k" "k \<le> length buf" "FromUvarint (take k buf @ rest) = Inr (x, k)"
  using uvarint_loop_local [OF assms [unfolded FromUvarint_def], of rest] by (simp_all add: FromUvarint_def)

text \<open>A varint of more than one byte is at least 128.\<close>

lemma uvarint_loop_large:
  "uvarint_loop buf i a (7 * i) = Inr (x, k) \<Longrightarrow> 0 < i \<Longrightarrow> \<exists>n \<ge> 7. bit x n"
proof (induction buf arbitrary: i a)
  case (Cons b buf)
  show ?case
  proof (cases "byte_val b < 0x80")
    case True
    let ?w = "of_nat (byte_val b) :: 64 word"
    from Cons.prems True have c: "i \<le> 9" "i = 9 \<Longrightarrow> byte_val b \<le> 1" "byte_val b \<noteq> 0" "x = a OR push_bit (7 * i) ?w"
      by (auto split: if_splits)
    have u: "unat ?w = byte_val b" 
    proof -
      have "byte_val b < 2 ^ 64" using byte_val_less [of b] by (rule less_trans) simp
      then show ?thesis by (simp add: unat_of_nat)
    qed
    then obtain n where n: "bit ?w n" using c(3) by (metis bit_eqI unat_0 bit_0_eq bot_apply bot_bool_def)
    have lt: "n < k" if "byte_val b < 2 ^ k" for k
    proof (rule ccontr)
      assume "\<not> n < k"
      moreover have "take_bit k (byte_val b) = byte_val b" using that by (simp add: take_bit_nat_eq_self_iff)
      moreover have "bit (unat ?w) n" using n by (simp add: bit_unsigned_iff)
      then have "bit (byte_val b) n" by (simp only: u)
      ultimately show False by (metis bit_take_bit_iff)
    qed
    have "n < 7" using lt [of 7] True by simp
    moreover have "n < 1" if "i = 9" using lt [of 1] c(2) [OF that] by simp
    ultimately have "n + 7 * i < 64" using c(1) by (cases "i = 9") auto
    with n have "bit x (n + 7 * i)" unfolding c(4) by (simp add: bit_simps)
    with Cons.prems(2) show ?thesis by (intro exI [of _ "n + 7 * i"]) simp
  next
    case False
    with Cons.prems Cons.IH [of "i + 1"] show ?thesis by (simp add: algebra_simps)
  qed
qed simp

lemma FromUvarint_small:
  assumes "FromUvarint buf = Inr (x, k)" and "x < 0x80"
  shows "k = 1 \<and> buf \<noteq> [] \<and> hd buf = byte_of (unat x)"
proof -
  from assms(1) obtain b bs where buf: "buf = b # bs" by (cases buf) (auto simp: FromUvarint_def)
  have "take_bit 7 x = x" using assms(2) by (simp add: word_unat_eq_iff unsigned_take_bit_eq take_bit_nat_eq_self_iff word_less_nat_alt)
  then have "\<not> (\<exists>n \<ge> 7. bit x n)" by (metis bit_take_bit_iff not_le)
  then have "byte_val b < 0x80"
    using assms(1) uvarint_loop_large [of bs 1] unfolding FromUvarint_def buf by (auto split: if_splits)
  with assms(1) have "k = 1" "x = of_nat (byte_val b)" unfolding FromUvarint_def buf by (auto split: if_splits)
  moreover from this \<open>byte_val b < 0x80\<close> have "unat x = byte_val b" by (simp add: unat_of_nat)
  ultimately show ?thesis by (simp add: buf)
qed


section \<open>Multihashes in a buffer\<close>

lemma mh_uvarint_local:
  assumes "mh_uvarint buf = Inr (n, buf')"
  shows "\<exists>k. 0 < k \<and> k \<le> length buf \<and> buf' = drop k buf \<and> FromUvarint buf = Inr (n, k) \<and>
    (\<forall>rest. mh_uvarint (take k buf @ rest) = Inr (n, rest))"
proof -
  obtain k where k: "FromUvarint buf = Inr (n, k)" "buf' = drop k buf"
    using assms by (auto simp: mh_uvarint_def split: sum.splits if_splits)
  note l = FromUvarint_local [OF k(1)]
  then have "mh_uvarint (take k buf @ rest) = Inr (n, rest)" for rest by (simp add: mh_uvarint_def)
  with k l(1,2) show ?thesis by blast
qed

text \<open>A multihash that was read is, alone, a multihash.\<close>

definition mh_whole :: "bytes \<Rightarrow> bool" where
  "mh_whole h \<longleftrightarrow> (\<exists>code hdig. readMultihashFromBuf h = Inr (length h, code, hdig))"

lemma readMultihash_local:
  assumes "readMultihashFromBuf buf = Inr (nr, code, hdig)"
  shows "nr \<le> length buf" "readMultihashFromBuf (take nr buf) = Inr (nr, code, hdig)"
proof -
  from assms obtain buf1 len buf2 where r: "mh_uvarint buf = Inr (code, buf1)" "mh_uvarint buf1 = Inr (len, buf2)"
    "len \<le> 0x7fffffff" "unat len \<le> length buf2" "nr = (length buf - length buf2) + unat len" "hdig = take (unat len) buf2"
    by (auto simp: readMultihashFromBuf_def not_less split: if_splits sum.splits)
  obtain k1 where k1: "0 < k1" "k1 \<le> length buf" "buf1 = drop k1 buf" "\<forall>rest. mh_uvarint (take k1 buf @ rest) = Inr (code, rest)"
    using mh_uvarint_local [OF r(1)] by blast
  obtain k2 where k2: "0 < k2" "k2 \<le> length buf1" "buf2 = drop k2 buf1" "\<forall>rest. mh_uvarint (take k2 buf1 @ rest) = Inr (len, rest)"
    using mh_uvarint_local [OF r(2)] by blast
  have nr: "nr = k1 + (k2 + unat len)" using r(5) k1(2,3) k2(2,3) by simp
  then show "nr \<le> length buf" using r(4) k1(2,3) k2(2,3) by simp
  have t: "take nr buf = take k1 buf @ take k2 buf1 @ take (unat len) buf2"
    unfolding nr take_add k1(3) k2(3) by (rule refl)
  have l: "length (take (unat len) buf2) = unat len" "length (take nr buf) = nr"
    using r(4) \<open>nr \<le> length buf\<close> by simp_all
  have "2 \<le> nr" using nr k1(1) k2(1) by simp
  then show "readMultihashFromBuf (take nr buf) = Inr (nr, code, hdig)"
    using k1(4) k2(4) l r(3,6) nr unfolding readMultihashFromBuf_def l(2) unfolding t by (simp add: not_less)
qed

lemma MHFromBytes_whole:
  assumes "MHFromBytes buf = Inr (nr, h)" shows "mh_whole h \<and> nr \<le> length buf \<and> h = take nr buf"
  using assms readMultihash_local [of buf nr]
  by (auto simp: MHFromBytes_def mh_whole_def min_absorb2 split: sum.splits)

lemma whole_MHFromBytes: "mh_whole h \<Longrightarrow> MHFromBytes h = Inr (length h, h)"
  by (auto simp: mh_whole_def MHFromBytes_def)

lemma mh_Decode_whole: "mh_Decode h = Inr p \<Longrightarrow> mh_whole h"
  by (auto simp: mh_Decode_def mh_whole_def split: sum.splits if_splits)

lemma mh_Cast_whole: "mh_Cast b = Inr h \<Longrightarrow> h = b \<and> mh_whole h"
  by (auto simp: mh_Cast_def split: sum.splits if_splits dest: mh_Decode_whole)

text \<open>A multihash with the code of SHA-256 and 32 bytes has the prefix of a version 0 CID.\<close>

lemma sha256_prefix:
  assumes "mh_Decode h = Inr (0x12, hdig)" and "length hdig = 32"
  shows "length h = 34 \<and> v0_prefix h"
proof -
  from assms(1) obtain buf1 len buf2 where r: "mh_uvarint h = Inr (0x12, buf1)" "mh_uvarint buf1 = Inr (len, buf2)"
    "length h = (length h - length buf2) + unat len" "hdig = take (unat len) buf2" "unat len \<le> length buf2"
    by (auto simp: mh_Decode_def readMultihashFromBuf_def not_less split: if_splits sum.splits)
  obtain k1 where k1: "k1 \<le> length h" "buf1 = drop k1 h" "FromUvarint h = Inr (0x12, k1)"
    using mh_uvarint_local [OF r(1)] by blast
  obtain k2 where k2: "k2 \<le> length buf1" "buf2 = drop k2 buf1" "FromUvarint buf1 = Inr (len, k2)"
    using mh_uvarint_local [OF r(2)] by blast
  have len: "unat len = 32" using assms(2) r(4,5) by simp
  then have "len < 0x80" by (simp add: word_less_nat_alt)
  from FromUvarint_small [OF k1(3)] FromUvarint_small [OF k2(3) this]
  have s: "k1 = 1" "h \<noteq> []" "hd h = byte_of 18" "k2 = 1" "buf1 \<noteq> []" "hd buf1 = byte_of 32" using len by simp_all
  then show ?thesis using k1(1,2) k2(1,2) r(3) len
    by (auto simp: v0_prefix_def hd_conv_nth)
qed

section \<open>CIDs read back\<close>

lemma CidFromBytes_hash:
  assumes "CidFromBytes b = Inr (length b, c)" shows "mh_whole (cid_Hash c)"
proof (cases "2 < length b \<and> v0_prefix b")
  case True
  with assms have l: "length b = 34" and "mh_Cast b = Inr c" by (auto simp: CidFromBytes_def split: if_splits sum.splits)
  with mh_Cast_whole have "c = b" "mh_whole c" by auto
  with True l show ?thesis by (simp add: cid_Hash_def cid_Version_def)
next
  case False
  with assms obtain vers n codec cn mhnr h where r: "FromUvarint b = Inr (vers, n)" "FromUvarint (drop n b) = Inr (codec, cn)"
    "MHFromBytes (drop (n + cn) b) = Inr (mhnr, h)" "n + cn + mhnr = length b" "c = take (n + cn + mhnr) b"
    by (auto simp: CidFromBytes_def split: if_splits sum.splits)
  then have c: "c = b" by simp
  then have "cid_Version c = 1" using False by (auto simp: cid_Version_def)
  then have "cid_Hash c = drop (n + cn) b" by (simp add: cid_Hash_def uvarint_def r(1,2) c Let_def)
  moreover have "h = drop (n + cn) b" "mh_whole h" using MHFromBytes_whole [OF r(3)] r(4) by auto
  ultimately show ?thesis by simp
qed

lemma cid_Decode_hash: "cid_Decode v = Inr c \<Longrightarrow> mh_whole (cid_Hash c)"
proof -
  assume d: "cid_Decode v = Inr c"
  then consider h where "FromB58String v = Inr h" "tryNewCidV0 h = Inr c" | b where "cid_Cast b = Inr c"
    by (auto simp: cid_Decode_def split: if_splits sum.splits)
  then show ?thesis
  proof cases
    case 1
    then obtain hdig where m: "mh_Decode h = Inr (0x12, hdig)" "length hdig = 32" "c = h"
      by (auto simp: tryNewCidV0_def split: if_splits sum.splits)
    then have "cid_Hash c = c" using sha256_prefix [OF m(1,2)] by (simp add: cid_Hash_def cid_Version_def)
    then show ?thesis using mh_Decode_whole [OF m(1)] m(3) by simp
  next
    case 2
    then have "CidFromBytes b = Inr (length b, c)" by (auto simp: cid_Cast_def split: if_splits sum.splits)
    then show ?thesis by (rule CidFromBytes_hash)
  qed
qed

text \<open>A version 1 CID that was made of a codec and a multihash gives them back.\<close>

lemma Put_1: "PutUvarint 1 = [byte_of 1]"
  by (simp add: PutUvarint_small)

lemma NewCidV1_not_v0: "\<not> v0_prefix (NewCidV1 t h)"
proof
  assume "v0_prefix (NewCidV1 t h)"
  then have "byte_val (byte_of 1) = byte_val (byte_of 18)" by (simp add: v0_prefix_def NewCidV1_def Put_1 del: byte_val_of)
  then show False by simp
qed

lemma NewCidV1_parts: "cid_Version (NewCidV1 t h) = 1" "cid_Type (NewCidV1 t h) = t" "cid_Hash (NewCidV1 t h) = h"
proof -
  show v: "cid_Version (NewCidV1 t h) = 1" by (simp add: cid_Version_def NewCidV1_not_v0)
  have u: "uvarint (NewCidV1 t h) = (1, 1)" "uvarint (drop 1 (NewCidV1 t h)) = (t, length (PutUvarint t))"
    using FromUvarint_Put [of 1 "PutUvarint t @ h"] FromUvarint_Put [of t h]
    by (simp_all add: uvarint_def NewCidV1_def Put_1)
  with v show "cid_Type (NewCidV1 t h) = t" "cid_Hash (NewCidV1 t h) = h"
    by (simp_all add: cid_Type_def cid_Hash_def NewCidV1_def Put_1)
qed

lemma NewCidV1_Cast: "mh_whole h \<Longrightarrow> cid_Cast (NewCidV1 t h) = Inr (NewCidV1 t h)"
proof -
  assume h: "mh_whole h"
  have "FromUvarint (NewCidV1 t h) = Inr (1, 1)" "FromUvarint (drop 1 (NewCidV1 t h)) = Inr (t, length (PutUvarint t))"
    "drop (1 + length (PutUvarint t)) (NewCidV1 t h) = h"
    using FromUvarint_Put [of 1 "PutUvarint t @ h"] FromUvarint_Put [of t h] by (simp_all add: NewCidV1_def Put_1)
  with NewCidV1_not_v0 h have "CidFromBytes (NewCidV1 t h) = Inr (length (NewCidV1 t h), NewCidV1 t h)"
    by (simp add: CidFromBytes_def whole_MHFromBytes) (simp add: NewCidV1_def Put_1)
  then show ?thesis by (simp add: cid_Cast_def)
qed


section \<open>Printing and reading texts\<close>

lemma raw_encode_nonempty: "b \<noteq> [] \<Longrightarrow> raw_encode b \<noteq> []"
proof -
  assume b: "b \<noteq> []"
  let ?g = "take 5 b"
  have "0 < b32_chars (length ?g)" "b32_chars (length ?g) \<le> 8"
    using b chars_cases [of "length ?g"] by (cases "length ?g = 5"; force simp: b32_chars_def)+
  then have "length (raw_group ?g) \<noteq> 0" by (simp add: raw_group_def)
  then have "raw_group ?g \<noteq> []" by auto
  with b show ?thesis by (simp add: raw_encode.simps [of b])
qed

lemma cid_Decode_Encode32:
  assumes "mh_whole h" shows "cid_Decode (mbase_Encode32 (NewCidV1 t h)) = Inr (NewCidV1 t h)"
proof -
  have "raw_encode (NewCidV1 t h) \<noteq> []" by (rule raw_encode_nonempty) (simp add: NewCidV1_def Put_1)
  then have "2 \<le> length (mbase_Encode32 (NewCidV1 t h))" by (cases "raw_encode (NewCidV1 t h)") (simp_all add: mbase_Encode32_def)
  moreover have "take 2 (mbase_Encode32 (NewCidV1 t h)) \<noteq> ''Qm''" by (simp add: mbase_Encode32_def)
  ultimately show ?thesis by (simp add: cid_Decode_def mbase_Decode_Encode32 NewCidV1_Cast [OF assms])
qed

text \<open>The same in every other base that a text may be in.\<close>

lemma mbase_Decode_single: "mbase_Decode [c] = Inr b \<Longrightarrow> b = []"
proof -
  have "decodeBinaryString [] = Inr []" "hex_DecodeString [] = Inr []" "b64_DecodeString al pad [] = Inr []"
    "base32_result (ci_decode al pad []) = Inr []" for al pad
    by (simp_all add: decodeBinaryString_def binary_groups.simps [of "[]"] hex_DecodeString_def b64_DecodeString_def
        b64_groups.simps [of _ _ "[]"] base32_result_def ci_decode_def)
  moreover have "b36_DecodeString [] = Inl (GoError ''can not decode zero-length string'')"
    "FastBase58Decoding al [] = Inl (GoError ''zero length string'')" for al
    by (simp_all add: b36_DecodeString_def FastBase58Decoding_def)
  moreover assume "mbase_Decode [c] = Inr b"
  ultimately show "b = []" unfolding mbase_Decode_def list.case by (simp only: sum.inject sum.distinct split: if_splits)
qed

lemma cid_Decode_text:
  assumes "mh_whole h" and "mbase_Decode v = Inr (NewCidV1 t h)" shows "cid_Decode v = Inr (NewCidV1 t h)"
proof -
  have "NewCidV1 t h \<noteq> []" by (simp add: NewCidV1_def Put_1)
  then have "2 \<le> length v"
    using assms(2) mbase_Decode_single by (cases v; cases "tl v") (auto simp: mbase_Decode_def [of "[]"])
  moreover have "take 2 v \<noteq> ''Qm''"
  proof
    assume "take 2 v = ''Qm''"
    then obtain r where "v = CHR ''Q'' # r" by (cases v) auto
    then have "mbase_Decode v = Inl (GoError ''selected encoding not supported'')" by (simp add: mbase_Decode_def)
    with assms(2) show False by simp
  qed
  ultimately show ?thesis by (simp add: cid_Decode_def assms(2) NewCidV1_Cast [OF assms(1)])
qed

lemma ToB32_go: "ToB32 go_cid s =
   (case cid_Decode s of Inl e \<Rightarrow> [] | Inr c \<Rightarrow> mbase_Encode32 (toCidV1 c))"
  by (auto simp: ToB32_def go_cid_def toCidV1_def StringOfBase32_def NewCidV1_parts split: sum.splits)

lemma ToB58_go: "ToB58 go_cid s = (case cid_Decode s of Inl e \<Rightarrow> [] | Inr c \<Rightarrow> Encode58 (cid_Hash c))"
  using fast_encode [OF BTC_alphabet]
  by (auto simp: ToB58_def go_cid_def B58String_def Encode58_def split: sum.splits)

lemma ToB32_stable: "ToB32 go_cid s \<noteq> [] \<Longrightarrow> ToB32 go_cid (ToB32 go_cid s) = ToB32 go_cid s"
  by (auto simp: ToB32_go toCidV1_def cid_Decode_Encode32 cid_Decode_hash NewCidV1_parts split: sum.splits)

lemma ToB58_of_ToB32: "ToB32 go_cid s \<noteq> [] \<Longrightarrow> ToB58 go_cid (ToB32 go_cid s) = ToB58 go_cid s"
  by (auto simp: ToB32_go toCidV1_def ToB58_go cid_Decode_Encode32 cid_Decode_hash NewCidV1_parts split: sum.splits)

section \<open>SHA-256 hashes\<close>

lemma sha2_hash_Decode: "length d = 32 \<Longrightarrow> mh_Decode (sha2_hash d) = Inr (0x12, d)"
proof -
  assume d: "length d = 32"
  have p: "PutUvarint 0x12 = [byte_of 18]" "PutUvarint 0x20 = [byte_of 32]" by (simp_all add: PutUvarint_small)
  have "mh_uvarint (sha2_hash d) = Inr (0x12, byte_of 32 # d)" "mh_uvarint (byte_of 32 # d) = Inr (0x20, d)"
    using FromUvarint_Put [of "0x12" "byte_of 32 # d"] FromUvarint_Put [of "0x20" d]
    by (simp_all add: mh_uvarint_def sha2_hash_def p)
  moreover have "length (sha2_hash d) = 34" using d by (simp add: sha2_hash_def)
  ultimately have "readMultihashFromBuf (sha2_hash d) = Inr (34, 0x12, d)" using d by (simp add: readMultihashFromBuf_def)
  with \<open>length (sha2_hash d) = 34\<close> show ?thesis by (simp add: mh_Decode_def)
qed

text \<open>Their base 58 form has 46 characters and begins with \<open>Qm\<close>, whatever the digest.\<close>

lemma sha2_hash_value: "bytes_nat (sha2_hash d) = (18 * 256 + 32) * 256 ^ length d + bytes_nat d"
proof -
  have "bytes_nat (sha2_hash d) = from_be 256 ([18, 32] @ map byte_val d)"
    by (simp add: bytes_nat_def sha2_hash_def from_be_le)
  also have "\<dots> = (18 * 256 + 32) * 256 ^ length d + from_be 256 (map byte_val d)"
    by (simp add: from_be_Cons algebra_simps)
  finally show ?thesis by (simp add: bytes_nat_def from_be_le)
qed

lemma Encode58_sha2:
  assumes "length d = 32" shows "length (Encode58 (sha2_hash d)) = 46 \<and> take 2 (Encode58 (sha2_hash d)) = ''Qm''"
proof -
  let ?n = "bytes_nat (sha2_hash d)"
  have "bytes_nat d < 256 ^ 32" using from_be_less [of "map byte_val d" 256] assms by (simp add: bytes_nat_def from_be_le)
  then have n: "(18 * 256 + 32) * 256 ^ 32 \<le> ?n" "?n < (18 * 256 + 33) * 256 ^ 32"
    unfolding sha2_hash_value assms by simp_all
  have "1378 * 58 ^ 44 \<le> (18 * 256 + 32) * (256 :: nat) ^ 32" "(18 * 256 + 33) * (256 :: nat) ^ 32 \<le> 1379 * 58 ^ 44"
    "(18 * 256 + 33) * (256 :: nat) ^ 32 \<le> 58 ^ 46" by simp_all
  with n have b: "1378 * 58 ^ 44 \<le> ?n" "?n < 1379 * 58 ^ 44" "?n < 58 ^ 46" by linarith+
  have q: "?n div 58 ^ 44 = 1378"
  proof (rule antisym)
    show "?n div 58 ^ 44 \<le> 1378" using b(2) by (intro less_Suc_eq_le [THEN iffD1] less_mult_imp_div_less) simp
    show "1378 \<le> ?n div 58 ^ 44" using div_le_mono [OF b(1), of "58 ^ 44"] by simp
  qed
  have "46 - 2 = (44 :: nat)" by simp
  then have "take 2 (be_digits 46 58 ?n) = be_digits 2 58 1378"
    using take_be_digits [of 2 46 58 ?n] by (simp only: q)
  also have "\<dots> = [23, 44]" by (simp add: numeral_2_eq_2)
  finally have t: "take 2 (be_digits 46 58 ?n) = [23, 44]" .
  have d: "be_digits 46 58 ?n = replicate (46 - length (le_digits 58 ?n)) 0 @ rev (le_digits 58 ?n)"
    using b(3) by (intro be_digits_le) simp
  have "46 - length (le_digits 58 ?n) = 0"
  proof (rule ccontr)
    assume "46 - length (le_digits 58 ?n) \<noteq> 0"
    then obtain k where "46 - length (le_digits 58 ?n) = Suc k" using not0_implies_Suc by blast
    with d t show False by simp
  qed
  with d have e: "rev (le_digits 58 ?n) = be_digits 46 58 ?n" by simp
  have "byte_of 18 \<noteq> byte_of 0" by (simp add: byte_of_0_iff)
  then have "Encode58 (sha2_hash d) = map ((!) BTCAlphabet) (be_digits 46 58 ?n)"
    by (simp add: Encode58_def EncodeAlphabet_def rev_map flip: e) (simp add: sha2_hash_def)
  then show ?thesis using t by (simp add: take_map BTCAlphabet_def)
qed

lemma sha2_hash_text:
  assumes "length d = 32" shows "cid_Decode (Encode58 (sha2_hash d)) = Inr (sha2_hash d)"
proof -
  have "Encode58 (sha2_hash d) \<noteq> []" "set (Encode58 (sha2_hash d)) \<subseteq> set BTCAlphabet"
    using Encode58_sha2 [OF assms] Encode58_chars by auto
  then have "FastBase58Decoding BTCAlphabet (Encode58 (sha2_hash d)) = Inr (sha2_hash d)"
    using fast_decode [OF BTC_alphabet] Decode58_Encode58 [of "sha2_hash d"] by (simp add: Decode58_def)
  then show ?thesis
    using Encode58_sha2 [OF assms] sha2_hash_Decode [OF assms] assms
    by (simp add: cid_Decode_def FromB58String_def mh_Cast_def tryNewCidV0_def ValidCode_def)
qed

lemma sha2_hash_parts:
  assumes "length d = 32" shows "cid_Hash (sha2_hash d) = sha2_hash d" "cid_Type (sha2_hash d) = 0x70"
  using assms by (simp_all add: cid_Hash_def cid_Type_def cid_Version_def v0_prefix_def sha2_hash_def)

text \<open>The Docker form begins with the mark of padded base 32 and has a length that base 32 cannot have.\<close>

lemma b32_encode_shape:
  "length bs mod 5 = 4 \<Longrightarrow> pad_char \<notin> set (butlast (b32_encode bs)) \<and> length (b32_encode bs) = 8 * (length bs div 5 + 1)"
proof (induction bs rule: b32_encode.induct)
  case (1 bs)
  then have "bs \<noteq> []" by auto
  have chars: "pad_char \<notin> set (map ((!) b32_alphabet) (take n (be_digits 8 32 v)))" for n v
    using group_digits_less [of n v] b32_alphabet_chars by (metis (no_types, lifting) imageE set_map)
  consider "length bs = 4" | "5 \<le> length bs" "drop 5 bs \<noteq> []" using "1.prems" by (cases "length bs < 5") force+
  then show ?case
  proof cases
    case 1
    then have "b32_encode bs = b32_group bs" using \<open>bs \<noteq> []\<close> by (simp add: b32_encode_step)
    moreover have "b32_group bs = map ((!) b32_alphabet) (take 7 (be_digits 8 32 (group_value bs))) @ [pad_char]"
      using 1 by (simp add: b32_group_def b32_chars_def)
    ultimately show ?thesis using chars [of 7] 1 by (simp add: butlast_append length_b32_group)
  next
    case 2
    then have "length (drop 5 bs) mod 5 = 4" using "1.prems" by (simp add: le_mod_geq)
    with "1.IH" \<open>bs \<noteq> []\<close> have IH: "pad_char \<notin> set (butlast (b32_encode (drop 5 bs)))"
      "length (b32_encode (drop 5 bs)) = 8 * (length (drop 5 bs) div 5 + 1)" by auto
    have "b32_group (take 5 bs) = map ((!) b32_alphabet) (take 8 (be_digits 8 32 (group_value (take 5 bs))))"
      using 2 by (simp add: b32_group_def b32_chars_def)
    then have "pad_char \<notin> set (b32_group (take 5 bs))" using chars [of 8] by simp
    moreover have "b32_encode (drop 5 bs) \<noteq> []" using 2(2) by (rule b32_encode_nonempty)
    moreover have "length bs div 5 = length (drop 5 bs) div 5 + 1" using 2(1) by (simp add: le_div_geq)
    moreover have "b32_encode bs = b32_group (take 5 bs) @ b32_encode (drop 5 bs)" using \<open>bs \<noteq> []\<close> by (rule b32_encode_step)
    ultimately show ?thesis using IH by (simp add: butlast_append length_b32_group)
  qed
qed


lemma docker_hash_shape:
  assumes "length d = 32"
  obtains rest where "DockerizeHash (Encode58 (sha2_hash d)) = CHR ''c'' # rest" "length rest = 54"
    "set rest \<inter> {pad_char, CHR 0x0A, CHR 0x0D} = {}"
proof -
  let ?h = "sha2_hash d" and ?e = "butlast (b32_encode (sha2_hash d))"
  have l: "length ?h = 34" using assms by (simp add: sha2_hash_def)
  then have e: "pad_char \<notin> set ?e" "length ?e = 55" using b32_encode_shape [of ?h] by simp_all
  obtain a b c where t: "take 5 ?h = [byte_of 18, byte_of 32, a, b, c]"
    using assms by (cases d; cases "tl d"; cases "tl (tl d)") (auto simp: sha2_hash_def)
  let ?v = "group_value (take 5 ?h)" and ?w = "from_be 256 [32, byte_val a, byte_val b, byte_val c]"
  have "?v = 18 * 256 ^ 4 + ?w" unfolding group_value_def t by (simp add: from_be_Cons)
  moreover have "?w < 256 ^ 4" using from_be_less [of "[32, byte_val a, byte_val b, byte_val c]" 256] by simp
  ultimately have "?v div 32 ^ 7 = 2" by simp
  then have "take 1 (be_digits 8 32 ?v) = [2]" using take_be_digits [of 1 8 32 ?v] by simp
  then obtain ds where "be_digits 8 32 ?v = 2 # ds" by (cases "be_digits 8 32 ?v") auto
  moreover have "b32_encode ?h = b32_group (take 5 ?h) @ b32_encode (drop 5 ?h)" by (rule b32_encode_step) (simp add: sha2_hash_def)
  ultimately obtain es where "b32_encode ?h = CHR ''C'' # es"
    using l by (simp add: b32_group_def b32_chars_def b32_alphabet_def)
  with e(2) obtain es' where es: "?e = CHR ''C'' # es'" "length es' = 54" by (cases es) auto
  have "to_lower_char x \<notin> {pad_char, CHR 0x0A, CHR 0x0D}" if "x \<in> set ?e" for x
  proof
    have x: "is_b32_char x" "x \<noteq> pad_char" using that e(1) b32_encode_chars [of ?h] by (auto simp: list_all_iff dest: in_set_butlastD)
    assume "to_lower_char x \<in> {pad_char, CHR 0x0A, CHR 0x0D}"
    then have "to_upper_char (to_lower_char x) \<in> {pad_char, CHR 0x0A, CHR 0x0D}" by (auto simp: to_upper_char_def pad_char_def)
    with x show False by (auto simp: is_b32_char_case) (auto simp: is_b32_char_def b32_alphabet_def pad_char_def)
  qed
  then have "\<forall>x \<in> set (CHR ''C'' # es'). to_lower_char x \<notin> {pad_char, CHR 0x0A, CHR 0x0D}" unfolding es(1) by blast
  then have "\<forall>y \<in> to_lower_char ` set es'. y \<notin> {pad_char, CHR 0x0A, CHR 0x0D}" by (simp only: list.set ball_simps) blast
  then have "set (to_lower es') \<inter> {pad_char, CHR 0x0A, CHR 0x0D} = {}" unfolding to_lower_def set_map by blast
  moreover have c: "to_lower_char (CHR ''C'') = CHR ''c''" by code_simp
  then have "DockerizeHash (Encode58 ?h) = CHR ''c'' # to_lower es'"
    unfolding DockerizeHash_Encode58 es(1) using c by (simp add: to_lower_def)
  ultimately show ?thesis using that es(2) by (simp add: to_lower_def)
qed

lemma docker_hash_no_cid: "length d = 32 \<Longrightarrow> ToB32 go_cid (DockerizeHash (Encode58 (sha2_hash d))) = []"
proof -
  assume "length d = 32"
  then obtain rest where r: "DockerizeHash (Encode58 (sha2_hash d)) = CHR ''c'' # rest" "length rest = 54"
    "set rest \<inter> {pad_char, CHR 0x0A, CHR 0x0D} = {}" by (rule docker_hash_shape)
  have "filter (\<lambda>c. c \<noteq> CHR 0x0A \<and> c \<noteq> CHR 0x0D) rest = rest" using r(3) by (auto simp: filter_id_conv)
  moreover have "ci_decode_loop b32_alphabet True rest = None"
    using ci_decode_unpadded [of b32_alphabet rest] r(2,3) by (cases "ci_decode_loop b32_alphabet True rest") auto
  ultimately have "mbase_Decode (CHR ''c'' # rest) = Inl (GoError ''illegal base32 data'')"
    by (simp add: mbase_Decode_def ci_decode_def base32_result_def)
  then show ?thesis unfolding r(1) by (simp add: ToB32_go cid_Decode_def r(2))
qed

text \<open>The two conversions are inverse on the CIDs that have both versions.\<close>

lemma toCidV0_toCidV1:
  assumes "length d = 32"
  shows "toCidV0 (toCidV1 (sha2_hash d)) = Done (Inr (sha2_hash d))"
    and "toCidV1 (toCidV1 (sha2_hash d)) = toCidV1 (sha2_hash d)"
  using assms by (simp_all add: toCidV0_def toCidV1_def NewCidV0_def NewCidV1_parts sha2_hash_parts tryNewCidV0_def sha2_hash_Decode)

section \<open>The contract\<close>

interpretation go_cids: cid_package go_cid
proof
  fix s
  assume "ToB32 go_cid s \<noteq> []"
  then show "ToB32 go_cid (ToB32 go_cid s) = ToB32 go_cid s"
    and "ToB58 go_cid (ToB32 go_cid s) = ToB58 go_cid s"
    by (rule ToB32_stable ToB58_of_ToB32)+
next
  fix d :: bytes
  assume d: "length d = 32"
  show "ToB32 go_cid (Encode58 (sha2_hash d)) \<noteq> []"
    by (simp add: ToB32_go sha2_hash_text [OF d] mbase_Encode32_def)
  show "ToB58 go_cid (Encode58 (sha2_hash d)) = Encode58 (sha2_hash d)"
    by (simp add: ToB58_go sha2_hash_text [OF d] sha2_hash_parts [OF d])
  show "ToB32 go_cid (DockerizeHash (Encode58 (sha2_hash d))) = []"
    using d by (rule docker_hash_no_cid)
qed

text \<open>
  C38: A CID has one base 32 form and one hash. Of every text that the vendored package accepts as a
  CID, in whatever base and of either version, \<open>ToB32\<close> prints a base 32 text that the package accepts
  as a CID of version 1 with the same codec and the same hash; \<open>ToB32\<close> leaves that text as it is, and
  \<open>ToB58\<close> prints of both texts the hash in base 58.
\<close>
theorem cid_forms_stable:
  assumes "cid_Decode s = Inr c"
  shows "\<exists>c1. cid_Decode (ToB32 go_cid s) = Inr c1 \<and> cid_Version c1 = 1 \<and> cid_Type c1 = cid_Type c \<and> cid_Hash c1 = cid_Hash c \<and>
    has_prefix (ToB32 go_cid s) ''b'' \<and> ToB32 go_cid (ToB32 go_cid s) = ToB32 go_cid s \<and>
    ToB58 go_cid s = Encode58 (cid_Hash c) \<and> ToB58 go_cid (ToB32 go_cid s) = Encode58 (cid_Hash c)"
proof -
  let ?c1 = "toCidV1 c"
  have b: "ToB32 go_cid s = mbase_Encode32 ?c1" by (simp add: ToB32_go assms)
  have d: "cid_Decode (mbase_Encode32 ?c1) = Inr ?c1"
    unfolding toCidV1_def by (rule cid_Decode_Encode32 [OF cid_Decode_hash [OF assms]])
  have p: "cid_Version ?c1 = 1" "cid_Type ?c1 = cid_Type c" "cid_Hash ?c1 = cid_Hash c" by (simp_all add: toCidV1_def NewCidV1_parts)
  have "toCidV1 ?c1 = ?c1" by (simp add: toCidV1_def NewCidV1_parts)
  then have "ToB32 go_cid (mbase_Encode32 ?c1) = mbase_Encode32 ?c1" by (simp add: ToB32_go d)
  moreover have "has_prefix (mbase_Encode32 ?c1) ''b''" by (simp add: mbase_Encode32_def)
  ultimately show ?thesis unfolding b using d p by (intro exI [of _ ?c1]) (simp add: ToB58_go assms)
qed

text \<open>A hash in base 58, which is a CID of version 0.\<close>

theorem cid_forms_stable_witness:
  "\<exists>c1. cid_Decode (ToB32 go_cid (Encode58 (sha2_hash (replicate 32 (CHR ''x''))))) = Inr c1 \<and> cid_Version c1 = 1 \<and>
     cid_Hash c1 = sha2_hash (replicate 32 (CHR ''x''))"
proof -
  let ?d = "replicate 32 (CHR ''x'')"
  have "length ?d = 32" by (rule length_replicate)
  note s = sha2_hash_text [OF this] sha2_hash_parts [OF this]
  from cid_forms_stable [OF s(1)] s(2-) show ?thesis by metis
qed

end
