(* ===== verification/Names.thy ===== *)
theory Names
  imports CommandLine Cid
begin

text \<open>
  The names of an image across the components: the hash that IPFS prints, the forms that
  \<open>ipdr convert\<close> makes of it, and what a server that uses the vendored CID package resolves them to.
\<close>

context cid_package
begin

text \<open>
  What the server makes of the three forms of a SHA-256 hash that it does not know by name: the
  base 58 form, any base 32 form, and the Docker form.
\<close>

lemma resolve_b32:
  assumes "cidlib cfg = lib" and "ToB32 lib s \<noteq> []" and "cids_get st (ToB32 lib s) ref = None"
  shows "resolve cfg st (ToB32 lib s) ref = (world st, Some [ToB32 lib s])"
  using assms b32_stable by (simp add: resolve_def)

lemma resolve_hash:
  assumes "cidlib cfg = lib" and "length d = 32" and "cids_get st (Encode58 (sha2_hash d)) ref = None"
  shows "resolve cfg st (Encode58 (sha2_hash d)) ref = (world st, Some [ToB32 lib (Encode58 (sha2_hash d))])"
  using assms hash_is_cid by (simp add: resolve_def)

lemma resolve_docker:
  assumes "cidlib cfg = lib" and "length d = 32" and "cids_get st (DockerizeHash (Encode58 (sha2_hash d))) ref = None"
  shows "resolve cfg st (DockerizeHash (Encode58 (sha2_hash d))) ref = (world st, Some [ToB32 lib (Encode58 (sha2_hash d))])"
proof -
  have "Encode58 (sha2_hash d) \<noteq> Encode58 []" unfolding Encode58_inject by (simp add: sha2_hash_def)
  moreover have "Encode58 [] = []" by (simp add: Encode58_def EncodeAlphabet_def bytes_nat_def)
  ultimately show ?thesis using assms hash_is_cid docker_no_cid hash_of_docker by (simp add: resolve_def)
qed

end

lemma sha2_hash_ToB32: "length d = 32 \<Longrightarrow> ToB32 go_cid (Encode58 (sha2_hash d)) = mbase_Encode32 (NewCidV1 0x70 (sha2_hash d))"
  by (simp add: ToB32_go sha2_hash_text toCidV1_def sha2_hash_parts)

lemma sha2_text_ToB32:
  assumes "length d = 32" and "mbase_Decode v = Inr (NewCidV1 0x70 (sha2_hash d))"
  shows "ToB32 go_cid v = mbase_Encode32 (NewCidV1 0x70 (sha2_hash d))"
proof -
  have w: "mh_whole (sha2_hash d)"
    using cid_Decode_hash [OF sha2_hash_text [OF assms(1)]] sha2_hash_parts(1) [OF assms(1)] by simp
  from cid_Decode_text [OF this assms(2)] show ?thesis by (simp add: ToB32_go toCidV1_def NewCidV1_parts w)
qed

text \<open>
  C13: Every form of the hash of an image names the image. Take any SHA-256 hash in base 58, as
  \<open>ipfs add\<close> prints it. \<open>ipdr convert\<close> turns it into a Docker name and the Docker name back into
  it; its base 32 CID has it as its hash; and a server that uses the vendored CID package resolves
  all three, and the text of the CID in any of the twenty bases of the package, with any reference,
  to that CID, without asking a resolver, as long as its store does not know the name.
\<close>
theorem every_form_names_the_image:
  assumes "length d = 32" and "h = Encode58 (sha2_hash d)" and "n = DockerizeHash h" and "c = ToB32 go_cid h"
    and "cidlib cfg = go_cid"
  shows "convert_cmd (fl\<lparr>format := ''docker''\<rparr>) [h] = (line n, None) \<and>
    convert_cmd (fl\<lparr>format := ''ipfs''\<rparr>) [n] = (line h, None) \<and>
    ToB58 go_cid c = h \<and>
    (\<forall>name. name \<in> {h, n, c} \<or> mbase_Decode name = Inr (NewCidV1 0x70 (sha2_hash d)) \<longrightarrow>
       cids_get st name ref = None \<longrightarrow> resolve cfg st name ref = (world st, Some [c]))"
proof (intro conjI allI impI)
  show "convert_cmd (fl\<lparr>format := ''docker''\<rparr>) [h] = (line n, None)"
    by (simp add: convert_cmd_def convert_args_def assms(3))
  show "convert_cmd (fl\<lparr>format := ''ipfs''\<rparr>) [n] = (line h, None)"
    by (simp add: convert_cmd_def convert_args_def assms(2,3) go_cids.hash_of_docker [OF assms(1)])
  show "ToB58 go_cid c = h" unfolding assms(2,4) by (rule go_cids.hash_of_b32 [OF assms(1)])
  fix name
  assume new: "cids_get st name ref = None" and "name \<in> {h, n, c} \<or> mbase_Decode name = Inr (NewCidV1 0x70 (sha2_hash d))"
  then consider "name = h" | "name = n" | "name = c" | "mbase_Decode name = Inr (NewCidV1 0x70 (sha2_hash d))" by blast
  then show "resolve cfg st name ref = (world st, Some [c])"
  proof cases
    case 1
    with go_cids.resolve_hash [OF assms(5,1), of st ref] assms(2,4) new show ?thesis by simp
  next
    case 2
    with go_cids.resolve_docker [OF assms(5,1), of st ref] assms(2,3,4) new show ?thesis by simp
  next
    case 3
    with go_cids.resolve_b32 [OF assms(5) go_cids.hash_is_cid [OF assms(1)], of st ref] assms(2,4) new show ?thesis by simp
  next
    case 4
    then have "ToB32 go_cid name = c" using sha2_text_ToB32 [OF assms(1)] sha2_hash_ToB32 [OF assms(1)] assms(2,4) by simp
    moreover have "c \<noteq> []" using go_cids.hash_is_cid [OF assms(1)] assms(2,4) by simp
    ultimately show ?thesis using new assms(5) by (simp add: resolve_def)
  qed
qed

definition zero_digest :: bytes where
  "zero_digest = replicate 32 (byte_of 0)"

text \<open>The hash of 32 zero bytes; as a CID in hexadecimal it is \<open>f01701220\<close> and 64 zeros.\<close>

theorem every_form_names_the_image_witness:
  "\<exists>c. resolve (local_config (offline\<lparr>cid_pkg := go_cid\<rparr>)) local_registry (Encode58 (sha2_hash zero_digest)) [] = ((), Some [c]) \<and>
     resolve (local_config (offline\<lparr>cid_pkg := go_cid\<rparr>)) local_registry (DockerizeHash (Encode58 (sha2_hash zero_digest))) [] = ((), Some [c]) \<and>
     resolve (local_config (offline\<lparr>cid_pkg := go_cid\<rparr>)) local_registry (CHR ''f'' # hex_encode (NewCidV1 0x70 (sha2_hash zero_digest))) [] =
       ((), Some [c]) \<and>
     ToB58 go_cid c = Encode58 (sha2_hash zero_digest)"
proof -
  have "length zero_digest = 32" by (simp add: zero_digest_def)
  moreover have "mbase_Decode (CHR ''f'' # hex_encode b) = Inr b" for b by (simp add: mbase_Decode_def hex_decode_encode)
  ultimately show ?thesis
    using every_form_names_the_image [of zero_digest _ _ _ "local_config (offline\<lparr>cid_pkg := go_cid\<rparr>)" _ local_registry "[]"]
    by (simp add: local_config_def)
qed

end
