(* ===== verification/Ipns.thy ===== *)
theory Ipns
  imports CommandLine
begin

text \<open>
  Names over DNSLink: the directory of one server's CID store, published on IPFS and announced
  in a TXT record, resolves names for another server that is started with the domain as its
  resolver (the section on IPNS of the README, steps 3 to 8). IPFS and DNS are parameters.
\<close>

section \<open>A directory that is published\<close>

text \<open>
  The tree that \<open>ipfs add -r\<close> reads of the directory \<open>k\<close> is on the node behind \<open>url\<close> under the
  root \<open>cid\<close>: a path below the root gives the file that the tree has there.
\<close>

definition published :: "'w services \<Rightarrow> string \<Rightarrow> string \<Rightarrow> file_system \<Rightarrow> string list \<Rightarrow> bool" where
  "published s url cid fs k \<longleftrightarrow>
     (\<exists>t. dir_tree (Suc (fs_depth fs)) fs k = Some t \<and>
       (\<forall>w cs b. tree_file t cs = Some b \<longrightarrow> (\<exists>w'. api_cat s w url (join ''/'' (cid # cs)) = (w', Inr (Inr b)))))"

lemma published_file:
  assumes "published s url cid fs k" and "wf_fs fs" and "cs \<noteq> []"
    and "fs_node fs (k @ cs) = Some (File b)" and "\<forall>c \<in> set cs. \<not> has_prefix c ''.''"
  shows "\<exists>w'. api_cat s w url (join ''/'' (cid # cs)) = (w', Inr (Inr b))"
proof -
  obtain t where t: "dir_tree (Suc (fs_depth fs)) fs k = Some t"
    "\<And>w cs b. tree_file t cs = Some b \<Longrightarrow> \<exists>w'. api_cat s w url (join ''/'' (cid # cs)) = (w', Inr (Inr b))"
    using assms(1) by (auto simp: published_def)
  have "is_dir fs (k @ take i cs)" if "i < length cs" for i
    using wf_prefix_dir [OF assms(2), of "k @ take i cs" "drop i cs"] assms(4) that by simp
  with dir_tree_file [OF t(1) assms(4,5)] have "tree_file t cs = Some b" by simp
  with t(2) show ?thesis .
qed

text \<open>The file that \<open>Add\<close> leaves on the disk.\<close>

lemma store_add_file:
  assumes "store_ok s" and "proper r t" and "\<not> has_prefix t ''sha256:''" and "r \<noteq> c"
    and "disk_ready (snd s) (file_of (location (fst s)) r t)"
  shows "fs_node (snd (store_add s r t c)) (file_of (location (fst s)) r t) = Some (File c)"
proof -
  have "read_file (snd (store_add s r t c)) (abs_path (file_of (location (fst s)) r t)) = Inr c"
    by (rule store_add_read) (use assms in \<open>simp_all add: store_ok_def proper_def\<close>)
  moreover have "wf_fs (snd (store_add s r t c))" using store_add_ok [OF assms(1)] by (simp add: store_ok_def)
  ultimately show ?thesis using read_abs_path file_of_plain [OF assms(2)] by blast
qed

lemma store_add_readable: "no_read (snd (store_add s r t c)) = no_read (snd s)"
proof -
  have m: "no_read (fst (mkdir_all fs p)) = no_read fs" for fs p
    using mk_dirs_frame by (simp add: mkdir_all_def)
  show ?thesis
    using m by (auto simp: store_add_def Let_def write_cid_def write_file_Inr fs_simps split: prod.splits option.splits sum.splits
        dest!: eq_fst_iff [THEN iffD2, OF exI])
qed

section \<open>The resolver of a domain\<close>

definition dnslink :: "string \<Rightarrow> string" where
  "dnslink cid = ''dnslink=/ipfs/'' @ cid"

lemma dnslink_resolver:
  assumes "\<not> has_prefix domain ''file:''" and "\<not> has_prefix domain ''/ipfs/''" and "cid \<noteq> []" and "last cid \<noteq> CHR ''/''"
    and "lookup_txt s w (lookup_domain domain) = (w1, Inr (dnslink cid # txts))"
  shows "NewResolver s w cl [domain] = (w1, [DNSLinkResolver (IPFSResolver cl cid)])"
proof -
  have l: "lookup s w domain = (w1, Inr (''/ipfs/'' @ cid))"
    using assms(5) by (simp add: lookup_def dnslink_def trim_prefix_def)
  have "trim_right (\<lambda>c. c = CHR ''/'') cid = cid"
    using assms(3,4) by (cases cid rule: rev_cases) (simp_all add: trim_right_def)
  then have "NewIPFSResolver cl (''/ipfs/'' @ cid) = IPFSResolver cl cid" by (simp add: NewIPFSResolver_def trim_prefix_def)
  with assms(1,2) l show ?thesis by (simp add: NewDNSLinkResolver_def)
qed

lemma cat_path: "cid @ ''/'' @ r @ ''/'' @ t = join ''/'' (cid # name_comps r @ [t])"
  using join_name [of r t] by (simp add: join_Cons name_comps_def)

section \<open>From one server to another\<close>

text \<open>What \<open>ipdr dig\<close> asks the server.\<close>

definition dig_request :: "string \<Rightarrow> request" where
  "dig_request q =
     \<lparr>req_method = ''GET'', url_path = ''/dig'', url_query = [(''q'', q), (''short'', ''true'')], req_header = [], req_body = []\<rparr>"

lemma root_dig_request:
  assumes "wf_name r" and "r \<noteq> []" and "t \<noteq> []" and "resolve cfg st r t = (w', Some [c])"
  shows "\<exists>resp. root cfg (dig_request (key r t)) st = (st\<lparr>world := w'\<rparr>, Done resp) \<and> reply_status resp = StatusOK \<and>
    out resp = c @ [CHR 0x0A]"
proof -
  have q: "split_name (query_get (dig_request (key r t)) ''q'') = (r, t)" "parse_bool (query_get (dig_request (key r t)) ''short'')"
    using assms(1) by (simp_all add: dig_request_def query_get_def first_value_def split_name_def key_def wf_name_def
        splitn2_append parse_bool_def Let_def)
  have "dig cfg (dig_request (key r t)) st new_response =
      (st\<lparr>world := w'\<rparr>, println c (set_header ''X-Docker-Content-ID'' c (write_header StatusOK new_response)))"
    using assms(2-4) by (simp add: dig_def q dig_found_def Let_def)
  moreover have "isDig (dig_request (key r t))" by (simp add: dig_request_def isDig_def)
  ultimately show ?thesis by (simp add: root_def println_def resp_simps reply_status_def)
qed

text \<open>The name is neither held by the server, nor in its store, nor a CID: the resolvers are asked.\<close>

lemma resolve_asks:
  assumes "cids_get st r t = None" and "ToB32 (cidlib cfg) r = []" and "IpfsifyHash r = [] \<or> ToB32 (cidlib cfg) (IpfsifyHash r) = []"
    and "Resolve (sv cfg) (resolvers cfg) (disk st, world st) r t = ((d, w'), l)"
  shows "resolve cfg st r t = (w', l)"
  using assms by (auto simp: resolve_def)

lemma wf_name_ne: "wf_name r \<Longrightarrow> r \<noteq> []"
  by (auto simp: wf_name_def name_comps_def plain_comp_def)

text \<open>
  C15: Names are shared over DNSLink. A server adds a name and tag to its CID store; the
  directory of the store is published on an IPFS node and announced in the TXT record of a
  domain. A server that is then started by the command \<open>server\<close>, with the default flags and the
  domain as its only resolver, on another disk that does not know the name, resolves it to the
  CID that was added, and answers \<open>ipdr dig\<close> with it.
\<close>
theorem names_shared_over_dnslink:
  assumes "store_ok s" and "proper r t" and "\<not> has_prefix t ''sha256:''" and "r \<noteq> c"
    and "disk_ready (snd s) (file_of (location (fst s)) r t)" and "\<forall>x \<in> set (name_comps r @ [t]). \<not> has_prefix x ''.''"
    and "published net (shell_url default_ipfs) cid (snd (store_add s r t c)) (clean_path_comps (location (fst s)))"
    and "cid \<noteq> []" and "last cid \<noteq> CHR ''/''" and "\<not> has_prefix domain ''file:''" and "\<not> has_prefix domain ''/ipfs/''"
    and "lookup_txt net w (lookup_domain domain) = (w1, Inr (dnslink cid # txts))"
    and "rooted home" and "wf_fs fs" and "mkdir_all fs (defaultCIDStore home) = (fs1, None)"
    and "fs_node fs1 (file_of (defaultCIDStore home) r t) = None" and "lst ''0.0.0.0:5000'' = None"
    and "ToB32 (cid_pkg net) r = []" and "IpfsifyHash r = [] \<or> ToB32 (cid_pkg net) (IpfsifyHash r) = []"
  shows "\<exists>cfg st w2 resp.
    server_cmd net lst ((default_flags home)\<lparr>cidResolvers := [domain]\<rparr>) fs w = ((fs1, w1, Some (cfg, st)), Done None) \<and>
    resolveCID cfg st r t = (st\<lparr>world := w2\<rparr>, Inr (trim_space c)) \<and>
    root cfg (dig_request (key r t)) st = (st\<lparr>world := w2\<rparr>, Done resp) \<and> reply_status resp = StatusOK \<and>
    out resp = trim_space c @ [CHR 0x0A]"
proof -
  let ?rs = "[DNSLinkResolver (IPFSResolver default_ipfs cid)]" and ?d = "snd (store_add s r t c)" and ?loc = "defaultCIDStore home"
  define cfg where "cfg = \<lparr>sv = net, IPFSGateway = ''http://127.0.0.1:8080'', ipfsClient = default_ipfs, resolvers = ?rs\<rparr>"
  define st where "st = new_registry ?loc fs1 w1"
  note dns = dnslink_resolver [OF assms(10,11,8,9,12)]
  have start: "server_cmd net lst ((default_flags home)\<lparr>cidResolvers := [domain]\<rparr>) fs w = ((fs1, w1, Some (cfg, st)), Done None)"
    unfolding cfg_def st_def by (rule server_cmd_serves [where lst = lst, OF assms(13,15,17) dns])
  have "wf_fs ?d" using store_add_ok [OF assms(1)] by (simp add: store_ok_def)
  moreover have "fs_node ?d (clean_path_comps (location (fst s)) @ name_comps r @ [t]) = Some (File c)"
    using store_add_file [OF assms(1-5)] by simp
  ultimately obtain w2 where "api_cat net w1 (shell_url default_ipfs) (join ''/'' (cid # name_comps r @ [t])) = (w2, Inr (Inr c))"
    using published_file [OF assms(7) _ _ _ assms(6)] by blast
  then have cat: "api_cat net w1 (shell_url default_ipfs) (cid @ ''/'' @ r @ ''/'' @ t) = (w2, Inr (Inr c))" by (simp only: cat_path)
  have t: "t \<noteq> []" "wf_name r" using assms(2) by (auto simp: proper_def plain_comp_def)
  have "Resolve net ?rs (fs1, w1) r t = ((fs1, w2), Some [trim_space c])"
    using t cat by (simp add: Resolve_def ipfs_Resolve_def ipfs_getContent_def Cat_def)
  moreover have "cids_get st r t = None"
  proof -
    have "store_ok (new_cid_store ?loc, fs1)"
      using wf_mkdir_all [OF assms(15,14)] rooted_defaultCIDStore [OF assms(13)] by (simp add: store_ok_def new_cid_store_def)
    from store_get_abs [OF this assms(2)] assms(16) show ?thesis
      by (cases "store_get (new_cid_store ?loc, fs1) r t") (auto simp: st_def cids_get_def new_registry_def new_cid_store_def)
  qed
  ultimately have r: "resolve cfg st r t = (w2, Some [trim_space c])"
    using assms(18,19) by (intro resolve_asks) (simp_all add: cfg_def st_def new_registry_def)
  then have "resolveCID cfg st r t = (st\<lparr>world := w2\<rparr>, Inr (trim_space c))" using t by (simp add: resolveCID_def)
  with start root_dig_request [OF t(2) wf_name_ne [OF t(2)] t(1) r] show ?thesis by blast
qed

section \<open>A node that serves a tree\<close>

text \<open>A node with one root, \<open>Qm\<close>, and a domain service that names it for every domain.\<close>

definition tree_net :: "ftree \<Rightarrow> unit services" where
  "tree_net t = offline\<lparr>lookup_txt := (\<lambda>w d. (w, Inr [dnslink ''Qm''])),
     api_cat := (\<lambda>w u p. (w, case tree_file t (tl (split_on (CHR ''/'') p)) of
        Some b \<Rightarrow> Inr (Inr b) | None \<Rightarrow> Inl (GoError ''no link named'')))\<rparr>"

lemma tree_net_published:
  assumes "wf_fs fs" and "dir_tree (Suc (fs_depth fs)) fs k = Some t"
  shows "published (tree_net t) u ''Qm'' fs k"
proof -
  have "\<exists>w'. api_cat (tree_net t) w u (join ''/'' (''Qm'' # cs)) = (w', Inr (Inr b))" if f: "tree_file t cs = Some b" for w cs b
  proof -
    have "fs_node fs (k @ cs) \<noteq> None" using dir_tree_sound [OF assms(2) f] by simp
    then have "list_all plain_comp cs" using wf_comps_plain [OF assms(1), of "k @ cs"] by simp
    then have "\<forall>x \<in> set (''Qm'' # cs). CHR ''/'' \<notin> set x" by (auto simp: list_all_iff plain_comp_def)
    then have "split_on (CHR ''/'') (join ''/'' (''Qm'' # cs)) = ''Qm'' # cs" by (intro split_on_join) simp_all
    with f show ?thesis by (simp add: tree_net_def)
  qed
  with assms(2) show ?thesis by (auto simp: published_def)
qed

text \<open>One server has added \<open>a:v1\<close>; the other starts on an empty disk.\<close>

definition shared_tree :: ftree where
  "shared_tree = (let d = snd (store_add (new_cid_store ''/c'', empty_disk) ''a'' ''v1'' ''bafy'')
     in the (dir_tree (Suc (fs_depth d)) d [''c'']))"

theorem names_shared_over_dnslink_witness:
  "\<exists>fs1 cfg st resp.
    server_cmd (tree_net shared_tree) (\<lambda>h. None) ((default_flags ''/root'')\<lparr>cidResolvers := [''example.com'']\<rparr>) empty_disk () =
      ((fs1, (), Some (cfg, st)), Done None) \<and>
    root cfg (dig_request ''a:v1'') st = (st, Done resp) \<and> out resp = ''bafy'' @ [CHR 0x0A]"
proof -
  let ?s = "(new_cid_store ''/c'', empty_disk)"
  let ?d = "snd (store_add ?s ''a'' ''v1'' ''bafy'')"
  let ?cs = "clean_path_comps (defaultCIDStore ''/root'')"
  have l: "location (new_cid_store ''/c'') = ''/c''" "clean_path_comps ''/c'' = [''c'']" by (simp_all add: new_cid_store_def clean_path_comps_def)
  have ok: "store_ok ?s" by (simp add: store_ok_def new_cid_store_def rooted_def wf_empty_disk)
  have p: "proper ''a'' ''v1''" "name_comps ''a'' = [''a'']"
    by (simp_all add: proper_def wf_name_def name_comps_def plain_comp_def)
  have w: "wf_fs ?d" using store_add_ok [OF ok] by (simp add: store_ok_def)
  have ready: "disk_ready (snd ?s) (file_of (location (fst ?s)) ''a'' ''v1'')" by (simp add: disk_ready_empty)
  have f: "fs_node ?d [''c'', ''a'', ''v1''] = Some (File ''bafy'')"
    using store_add_file [OF ok p(1) _ _ ready, of "''bafy''"] l p(2) by simp
  have "no_read ?d = no_read empty_disk" using store_add_readable [of ?s] by simp
  then have "dir_tree (Suc (fs_depth ?d)) ?d [''c''] \<noteq> None"
    using wf_prefix_dir [OF w, of "[''c'']" "[''a'', ''v1'']"] f
    by (intro dir_tree_total) (simp_all add: is_dir_def empty_disk_def)
  then have t: "dir_tree (Suc (fs_depth ?d)) ?d [''c''] = Some shared_tree" by (auto simp: shared_tree_def Let_def)
  have mk: "disk_ready empty_disk (?cs @ name_comps ''a'' @ [''v1''])" by (simp add: disk_ready_empty)
  note m = disk_ready_mk_dirs [OF mk]
  let ?fs1 = "fst (mk_dirs empty_disk [] ?cs)"
  have "mkdir_all empty_disk (defaultCIDStore ''/root'') = (?fs1, None)"
    using m(1) rooted_defaultCIDStore [of "''/root''"] by (simp add: mkdir_all_rooted rooted_def prod_eq_iff)
  moreover have "fs_node ?fs1 (file_of (defaultCIDStore ''/root'') ''a'' ''v1'') = None"
    using m(2) mk_dirs_files [of empty_disk "[]" ?cs "?cs @ name_comps ''a'' @ [''v1'']"]
    unfolding disk_ready_def is_dir_def fs_node_empty_disk by (metis fnode.exhaust not_None_eq append_is_Nil_conv not_Cons_self2 option.discI)
  moreover have n: "lookup_txt (tree_net shared_tree) () (lookup_domain ''example.com'') = ((), Inr [dnslink ''Qm''])" "cid_pkg (tree_net shared_tree) = no_cids"
    by (simp_all add: tree_net_def) (simp add: offline_def)
  ultimately obtain cfg and st :: "unit registry" and w2 resp where
    "server_cmd (tree_net shared_tree) (\<lambda>h. None) ((default_flags ''/root'')\<lparr>cidResolvers := [''example.com'']\<rparr>) empty_disk () =
      ((?fs1, (), Some (cfg, st)), Done None)"
    "root cfg (dig_request (key ''a'' ''v1'')) st = (st\<lparr>world := w2\<rparr>, Done resp)"
    "out resp = trim_space ''bafy'' @ [CHR 0x0A]"
    using names_shared_over_dnslink [of ?s "''a''" "''v1''" "''bafy''" "tree_net shared_tree" "''Qm''" "''example.com''" "()" "()" "[]"
        "''/root''" empty_disk ?fs1 "\<lambda>h. None", OF ok p(1) _ _ ready _ _ _ _ _ _ n(1)]
      tree_net_published [OF w t, of "shell_url default_ipfs"] p(2)
    by (simp add: l rooted_def wf_empty_disk) blast
  moreover have "st\<lparr>world := w2\<rparr> = st" by simp
  moreover have "trim_space ''bafy'' = ''bafy''" by (simp add: trim_space_def trim_left_def trim_right_def is_space_def)
  moreover have "key ''a'' ''v1'' = ''a:v1''" by (simp add: key_def)
  ultimately show ?thesis by metis
qed

end
