(* ===== verification/Locks.thy ===== *)
theory Locks
  imports Registry
begin

text \<open>
  The two mutexes of the server: which requests can leave one locked, and that no request waits
  when both are free. Together with the wedge after a push without layers this says exactly
  when the server stops answering.
\<close>

section \<open>Blob requests\<close>

lemma relay_blob_ends: "snd (relay_blob t resp r) \<noteq> Blocked"
  by (auto simp: relay_blob_def blob_unknown_def reg_err_def split: sum.splits)

lemma blob_elems_not_blocked [simp]: "blob_elems p \<noteq> Blocked"
  by (simp add: blob_elems_def Let_def)

lemma isBlob_not_blocked [simp]: "isBlob req \<noteq> Blocked"
  by (auto simp: isBlob_def split: outcome.splits)

lemma blob_branches_end:
  assumes "\<not> blobs_locked st"
  shows "snd (snd (blob_head cfg repo t st resp)) \<noteq> Blocked" "snd (snd (blob_get cfg repo t st resp)) \<noteq> Blocked"
    "snd (snd (blob_post_digest repo dg body st resp)) \<noteq> Blocked" "snd (snd (blob_post_start cfg elem st resp)) \<noteq> Blocked"
    "snd (snd (blob_patch_range elem t cr body st resp)) \<noteq> Blocked" "snd (snd (blob_patch_stream elem t body st resp)) \<noteq> Blocked"
    "snd (snd (blob_put repo t dg body st resp)) \<noteq> Blocked"
  using assms relay_blob_ends
  by (auto simp: blob_head_def blob_get_def blob_post_digest_def blob_post_start_def blob_patch_range_def blob_patch_stream_def
      blob_put_def blob_unknown_def digest_invalid_def range_error_def reg_err_def Let_def
      split: option.splits prod.splits sum.splits)

lemma blobs_handle_ends: "\<not> blobs_locked st \<Longrightarrow> snd (snd (blobs_handle cfg req st resp)) \<noteq> Blocked"
  by (auto simp: blobs_handle_def blobs_dispatch_def blob_branches_end digest_invalid_def method_unknown_def reg_err_def Let_def
      split: outcome.splits)

lemma blobs_handle_locks:
  "blobs_locked (fst (blobs_handle cfg req st resp)) = blobs_locked st"
  "manifests_locked (fst (blobs_handle cfg req st resp)) = manifests_locked st"
  using blobs_handle_step [of st cfg req resp] by (simp_all add: blobs_step_ok_def blobs_frame_def)

section \<open>Manifest requests\<close>

lemma fetch_locks:
  "blobs_locked (fst (fetch cfg repo t st)) = blobs_locked st"
  "manifests_locked (fst (fetch cfg repo t st)) = manifests_locked st"
proof -
  obtain st1 x where r: "resolveCID cfg (make_repo repo st) repo t = (st1, x)" by fastforce
  have l: "blobs_locked st1 = blobs_locked st" "manifests_locked st1 = manifests_locked st"
    using resolveCID_frame [of cfg "make_repo repo st" repo t] r by (simp_all add: frame_simps)
  show "blobs_locked (fst (fetch cfg repo t st)) = blobs_locked st"
    "manifests_locked (fst (fetch cfg repo t st)) = manifests_locked st"
    using r l by (auto simp: fetch_def frame_simps Let_def split: option.splits prod.splits sum.splits)
qed

lemma layer_digests_not_blocked: "layer_digests ls \<noteq> Blocked"
  by (induction ls rule: layer_digests.induct) (auto split: outcome.splits)

lemma blob_digests_not_blocked [simp]: "blob_digests b \<noteq> Blocked"
  using layer_digests_not_blocked
  by (auto simp: blob_digests_def Digests_def split: sum.splits option.splits outcome.splits)

text \<open>What a handler may do to free mutexes: only a \<open>404\<close>, with nothing
  written yet, may keep the one of the blobs.\<close>

definition frees :: "response \<Rightarrow> 'w handled \<Rightarrow> bool" where
  "frees r h \<longleftrightarrow>
     (case h of
        (st', resp, oc) \<Rightarrow>
          oc \<noteq> Blocked \<and> \<not> manifests_locked st' \<and>
          (blobs_locked st' \<longrightarrow> resp = r \<and> (\<exists>e. oc = Done (Some e) \<and> Status e = StatusNotFound)))"

lemma manifest_get_frees:
  assumes "\<not> blobs_locked st" and "\<not> manifests_locked st"
  shows "frees resp (manifest_get cfg repo t st resp)" "frees resp (manifest_head cfg repo t st resp)"
proof -
  obtain st1 x where f: "fetch cfg repo t st = (st1, x)" by fastforce
  obtain st2 y where r: "resolveCID cfg st1 repo t = (st2, y)" by fastforce
  have l: "\<not> blobs_locked st1" "\<not> manifests_locked st1" "\<not> blobs_locked st2" "\<not> manifests_locked st2"
    using fetch_locks [of cfg repo t st] f resolveCID_frame [of cfg st1 repo t] r assms by simp_all
  show "frees resp (manifest_get cfg repo t st resp)"
    using assms f r l by (auto simp: frees_def manifest_get_def manifest_unknown_def reg_err_def frame_simps split: sum.splits outcome.splits)
  show "frees resp (manifest_head cfg repo t st resp)"
    using assms f l by (auto simp: frees_def manifest_head_def manifest_unknown_def reg_err_def split: sum.splits)
qed

lemma add_image_frees:
  "\<not> blobs_locked st \<Longrightarrow> \<not> manifests_locked st \<Longrightarrow> frees resp (add_image cfg repo t dg b ls st resp)"
  by (auto simp: frees_def add_image_def reg_err_def frame_simps split: prod.splits sum.splits)

lemma manifest_commit_frees:
  assumes "\<not> blobs_locked st" and "\<not> manifests_locked st"
  shows "frees resp (manifest_commit cfg repo t dg b st resp)"
proof (rule manifest_commit_cases [of st repo cfg t dg b resp])
  fix ds
  assume "manifest_commit cfg repo t dg b st resp = add_image cfg repo t dg b (contents (reg_blobs st) |` set ds)
       (st\<lparr>reg_blobs := drop_layers repo ds (reg_blobs st)\<rparr>) resp"
  moreover have "frees resp (add_image cfg repo t dg b (contents (reg_blobs st) |` set ds)
       (st\<lparr>reg_blobs := drop_layers repo ds (reg_blobs st)\<rparr>) resp)"
    by (rule add_image_frees) (use assms in simp_all)
  ultimately show ?thesis by simp
qed (use assms in \<open>simp_all add: frees_def reg_err_def\<close>)

lemma manifest_put_frees:
  assumes "\<not> blobs_locked st" and "\<not> manifests_locked st"
  shows "frees resp (manifest_put cfg repo t req st resp)"
proof -
  have "\<not> blobs_locked (put_manifest repo d mf (put_manifest repo t mf (make_repo repo st)))"
    "\<not> manifests_locked (put_manifest repo d mf (put_manifest repo t mf (make_repo repo st)))" for d mf
    using assms by (simp_all add: frame_simps)
  note c = manifest_commit_frees [OF this]
  have "frees resp (make_repo repo st, resp, manifest_unknown m)" for m
    using assms by (simp add: frees_def manifest_unknown_def reg_err_def frame_simps)
  with c assms show ?thesis by (simp add: manifest_put_def Let_def split: option.splits)
qed

lemma manifests_handle_frees:
  assumes "\<not> blobs_locked st" and "\<not> manifests_locked st"
  shows "frees resp (manifests_handle cfg req st resp) \<and>
    (req_method req \<noteq> ''PUT'' \<longrightarrow> \<not> blobs_locked (fst (manifests_handle cfg req st resp)))"
proof -
  have m: "frees resp (st, resp, method_unknown s)" for s using assms by (simp add: frees_def method_unknown_def reg_err_def)
  have g: "\<not> blobs_locked (fst (manifest_get cfg repo t st resp))" "\<not> blobs_locked (fst (manifest_head cfg repo t st resp))" for repo t
  proof -
    obtain st1 x where f: "fetch cfg repo t st = (st1, x)" by fastforce
    obtain st2 y where r: "resolveCID cfg st1 repo t = (st2, y)" by fastforce
    have l: "\<not> blobs_locked st1" "\<not> blobs_locked st2"
      using fetch_locks [of cfg repo t st] f resolveCID_frame [of cfg st1 repo t] r assms by simp_all
    then show "\<not> blobs_locked (fst (manifest_get cfg repo t st resp))" "\<not> blobs_locked (fst (manifest_head cfg repo t st resp))"
      using assms f r
      by (auto simp: manifest_get_def manifest_head_def frame_simps split: sum.splits outcome.splits)
  qed
  show ?thesis
    unfolding manifests_handle_def Let_def using m g assms manifest_get_frees [OF assms] manifest_put_frees [OF assms] by simp
qed

section \<open>Requests\<close>

lemma v2_frees:
  assumes "\<not> blobs_locked st" and "\<not> manifests_locked st"
  shows "frees resp (v2 cfg req st resp) \<and>
    (\<not> (isManifest req \<and> req_method req = ''PUT'') \<longrightarrow> \<not> blobs_locked (fst (v2 cfg req st resp)))"
proof -
  have b: "frees resp (blobs_handle cfg req st resp) \<and> \<not> blobs_locked (fst (blobs_handle cfg req st resp))"
    using blobs_handle_ends [OF assms(1), of cfg req resp] blobs_handle_locks [of cfg req st resp] assms
    by (auto simp: frees_def split: prod.splits)
  have e: "frees resp (st, r, Panicked)" "frees resp (st, r, Done None)" "frees resp (st, r, method_unknown s)" for r s
    using assms by (simp_all add: frees_def method_unknown_def reg_err_def)
  show ?thesis
    using b e manifests_handle_frees [OF assms, of resp cfg req] assms
    by (cases "isBlob req") (simp_all add: v2_def Let_def)
qed

lemma dig_locks:
  "blobs_locked (fst (dig cfg req st resp)) = blobs_locked st" "manifests_locked (fst (dig cfg req st resp)) = manifests_locked st"
  by (auto simp: dig_def dig_found_def Let_def split: prod.splits option.splits sum.splits)

text \<open>
  The server answers as long as its mutexes are free, and there is one way to lose that. A
  request that finds both mutexes free comes to an end (with a reply or a panic), whatever
  the gateway, the daemon and DNS answer; it leaves the mutex of the manifests free; and it
  leaves that of the blobs free too unless it is a \<open>PUT\<close> of a manifest that is answered 404.
\<close>
theorem only_failed_push_locks:
  assumes "\<not> blobs_locked st" and "\<not> manifests_locked st" and "root cfg req st = (st', oc)"
  shows "oc \<noteq> Blocked \<and> \<not> manifests_locked st' \<and>
    (blobs_locked st' \<longrightarrow> isManifest req \<and> req_method req = ''PUT'' \<and>
       (\<exists>resp. oc = Done resp \<and> reply_status resp = StatusNotFound))"
proof (cases "isDig req")
  case True
  with assms dig_locks [of cfg req st new_response] show ?thesis
    by (auto simp: root_def split: prod.splits)
next
  case False
  obtain st1 resp1 oc1 where v: "v2 cfg req st new_response = (st1, resp1, oc1)" by (metis prod_cases3)
  from v2_frees [OF assms(1,2), of new_response cfg req] v
  have f: "oc1 \<noteq> Blocked" "\<not> manifests_locked st1" "blobs_locked st1 \<Longrightarrow> \<exists>e. oc1 = Done (Some e) \<and> Status e = StatusNotFound"
    "blobs_locked st1 \<Longrightarrow> isManifest req \<and> req_method req = ''PUT''" "blobs_locked st1 \<Longrightarrow> resp1 = new_response"
    by (auto simp: frees_def)
  have r: "(st', oc) = reply_of (st1, resp1, oc1)" using assms(3) False v by (simp add: root_v2)
  then have s: "st' = st1" "oc \<noteq> Blocked" using f(1) by (auto simp: reply_of_def split: outcome.splits option.splits)
  have "\<exists>resp. oc = Done resp \<and> reply_status resp = StatusNotFound" if lk: "blobs_locked st1"
  proof -
    obtain e where e: "oc1 = Done (Some e)" "Status e = StatusNotFound" using f(3) [OF lk] by blast
    with r have "oc = Done (reg_error_write e resp1)" by simp
    moreover have "sent resp1 = None" using f(5) [OF lk] by (simp add: resp_simps)
    ultimately show ?thesis using e(2) by (simp add: reg_error_write_def resp_simps reply_status_def)
  qed
  with s f show ?thesis by simp
qed

theorem only_failed_push_locks_witness:
  "snd (root (local_config offline) (manifest_req ''GET'' ''a'' ''v1'' [] []) local_registry) \<noteq> Blocked \<and>
   \<not> blobs_locked (fst (root (local_config offline) (manifest_req ''GET'' ''a'' ''v1'' [] []) local_registry))"
proof -
  let ?r = "root (local_config offline) (manifest_req ''GET'' ''a'' ''v1'' [] []) local_registry"
  have "req_method (manifest_req ''GET'' ''a'' ''v1'' [] []) \<noteq> ''PUT''" by (simp add: manifest_req_def)
  with only_failed_push_locks [of local_registry "local_config offline" "manifest_req ''GET'' ''a'' ''v1'' [] []" "fst ?r" "snd ?r"]
  show ?thesis by auto
qed

section \<open>Between two critical sections\<close>

text \<open>
  C36: A layer that arrives during a push is lost. The push takes the mutex of the blobs twice,
  in \<open>get\<close> to collect the layers and in \<open>remove\<close> to forget them. An upload to the same
  repository that is completed in between is answered 201, but its layer was not collected for
  IPFS and is removed from memory: nobody has it.
\<close>
theorem upload_during_push_is_lost:
  assumes "blobs_get repo st = (st, Done (Some ls))" and "u \<noteq> []" and "CHR ''/'' \<notin> set u"
    and "d = compute_digest (upload_bytes (reg_blobs st) u @ body)" and "ls d = None"
  shows "\<exists>st1 resp st2. blobs_handle cfg (put_req repo u d body) st new_response = (st1, resp, Done None) \<and>
    reply_status resp = StatusCreated \<and> blobs_remove repo st1 = (st2, Done ()) \<and>
    contents (reg_blobs st2) d = None \<and> layers (reg_blobs st2) repo = None"
proof -
  have free: "\<not> blobs_locked st" using assms(1) by (auto simp: blobs_get_def split: if_splits)
  have d: "d \<noteq> []" unfolding assms(4) by simp
  let ?b = "store_blob repo d (upload_bytes (reg_blobs st) u @ body) (reg_blobs st)"
  let ?st1 = "st\<lparr>reg_blobs := ?b\<lparr>uploads := (uploads ?b)(u := None)\<rparr>\<rparr>"
  have h: "blobs_handle cfg (put_req repo u d body) st new_response =
      (?st1, write_header StatusCreated (set_header ''Docker-Content-Digest'' d new_response), Done None)"
    unfolding handle_put [OF assms(2,3) d] using free assms(4) by (simp add: blob_put_def Let_def)
  have l: "\<exists>ds. layers (reg_blobs ?st1) repo = Some ds \<and> d \<in> set ds" by (auto simp: store_blob_def)
  then obtain ds where ds: "layers (reg_blobs ?st1) repo = Some ds" "d \<in> set ds" by blast
  have "\<exists>st2. blobs_remove repo ?st1 = (st2, Done ()) \<and> contents (reg_blobs st2) d = None \<and> layers (reg_blobs st2) repo = None"
    using free ds by (simp add: blobs_remove_def foldl_del)
  then show ?thesis using h by (force simp: resp_simps reply_status_def)
qed

text \<open>A repository with one uploaded layer, which another client adds to.\<close>

definition small_registry :: "unit registry" where
  "small_registry = local_registry\<lparr>reg_blobs := store_blob ''a'' ''sha256:l'' ''bytes'' (reg_blobs local_registry)\<rparr>"

theorem upload_during_push_is_lost_witness:
  "\<exists>st1 resp st2. blobs_handle (local_config offline) (put_req ''a'' ''7'' (compute_digest ''new'') ''new'') small_registry new_response =
     (st1, resp, Done None) \<and> reply_status resp = StatusCreated \<and>
     blobs_remove ''a'' st1 = (st2, Done ()) \<and> contents (reg_blobs st2) (compute_digest ''new'') = None"
proof -
  have g: "blobs_get ''a'' small_registry = (small_registry, Done (Some [''sha256:l'' \<mapsto> ''bytes'']))"
    by (simp add: blobs_get_def small_registry_def store_blob_def)
  have "length (compute_digest ''new'') \<noteq> length ''sha256:l''" by simp
  then have n: "compute_digest ''new'' \<noteq> ''sha256:l''" by (rule contrapos_nn) (rule arg_cong)
  then have "[''sha256:l'' \<mapsto> ''bytes''] (compute_digest ''new'') = None" by (simp only: fun_upd_apply if_False)
  from upload_during_push_is_lost [OF g _ _ _ this, of "''7''" "''new''" "local_config offline"]
  show ?thesis by (auto simp: small_registry_def upload_bytes_def store_blob_def)
qed

end
