(* ===== verification/Sections.thy ===== *)
theory Sections
  imports Locks
begin

text \<open>
  The server with interleaved requests. A manifest request holds the mutex of the manifests from
  its begin to its end, but it takes that of the blobs twice for a moment, talks to IPFS and adds
  to the CID store one entry after the other: between these sections blob requests and lookups run.
  The handler of \<open>server/registry/manifest.go\<close> is cut at these points into sections; a request
  alone does what \<open>manifests_handle\<close> says, and for all interleavings the invariants are shown, and
  that a manifest request comes to its end.

  A blob request or a lookup is one step. It holds the mutex of the blobs while it touches them,
  or does not touch them at all, and it writes nothing else that another request reads.
\<close>

section \<open>The sections of a manifest request\<close>

text \<open>
  Where the request that holds the mutex of the manifests stands: \<open>Idle\<close> if there is none, before
  the second \<open>resolveCID\<close> of a \<open>GET\<close>, before \<open>blobs.get\<close>, \<open>blobs.remove\<close> and \<open>AddImage\<close> of a
  \<open>PUT\<close>, or before the rest of its calls of \<open>cids.Add\<close> and its reply.
\<close>

datatype phase =
    Idle
  | Locating string string stored_manifest
  | Collecting string string string bytes
  | Removing string string string bytes "string \<rightharpoonup> bytes"
  | Sending string string string bytes "string \<rightharpoonup> bytes"
  | Adding "(string \<times> string \<times> string) list" response

text \<open>The state and the phase, and the end of the request when it is there.\<close>

type_synonym 'w machine = "'w registry \<times> phase"
type_synonym 'w section_result = "'w machine \<times> (response \<times> reg_error option outcome) option"

definition ends :: "'w registry \<Rightarrow> response \<Rightarrow> reg_error option outcome \<Rightarrow> 'w section_result" where
  "ends st resp oc = ((st, Idle), Some (resp, oc))"

text \<open>From taking the mutex to the first point where others can interfere.\<close>

definition begin_get :: "'w reg_config \<Rightarrow> string \<Rightarrow> string \<Rightarrow> 'w registry \<Rightarrow> 'w section_result" where
  "begin_get cfg repo target st =
     (case fetch cfg repo target st of
        (st1, Inl e) \<Rightarrow> ends st1 new_response (manifest_unknown (err_msg e))
      | (st1, Inr mf) \<Rightarrow> ((st1, Locating repo target mf), None))"

definition begin_put :: "'w reg_config \<Rightarrow> string \<Rightarrow> string \<Rightarrow> request \<Rightarrow> 'w registry \<Rightarrow> 'w section_result" where
  "begin_put cfg repo target req st =
     (let st0 = make_repo repo st;
          b = req_body req;
          dg = compute_digest b;
          mf = \<lparr>contentType = header_get req ''Content-Type'', blob = b, digest = []\<rparr>
      in case check_index (repo_manifests st0 repo) mf of
           Some m \<Rightarrow> ends st0 new_response (manifest_unknown m)
         | None \<Rightarrow> ((put_manifest repo dg mf (put_manifest repo target mf st0), Collecting repo target dg b), None))"

definition begin_manifest :: "'w reg_config \<Rightarrow> request \<Rightarrow> 'w registry \<Rightarrow> 'w section_result" where
  "begin_manifest cfg req st =
     (let elem = manifest_elems (url_path req);
          target = from_end elem 1;
          repo = join ''/'' (slice 1 (length elem - 2) elem)
      in if req_method req = ''GET'' then begin_get cfg repo target st
         else if req_method req = ''HEAD''
         then (case manifest_head cfg repo target st new_response of (st', resp, oc) \<Rightarrow> ends st' resp oc)
         else if req_method req = ''PUT'' then begin_put cfg repo target req st
         else ends st new_response (method_unknown StatusBadRequest))"

definition get_reply :: "stored_manifest \<Rightarrow> string \<Rightarrow> response" where
  "get_reply mf cid =
     write_body (blob mf)
       (write_header StatusOK
         (set_header ''Content-Length'' (nat_str (length (blob mf)))
           (set_header ''Content-Type'' (contentType mf)
             (set_header ''X-Docker-Content-ID'' cid
               (set_header ''Docker-Content-Digest'' (digest mf) new_response)))))"

text \<open>One section, or \<open>None\<close> while it waits for the mutex of the blobs.\<close>

fun advance :: "'w reg_config \<Rightarrow> phase \<Rightarrow> 'w registry \<Rightarrow> 'w section_result option" where
  "advance cfg Idle st = None"
| "advance cfg (Locating repo target mf) st =
     Some (case resolveCID cfg st repo target of
             (st', Inl e) \<Rightarrow> ends st' new_response (manifest_unknown (err_msg e))
           | (st', Inr cid) \<Rightarrow>
               (case blob_digests (blob mf) of
                  Panicked \<Rightarrow> ends st' new_response Panicked
                | Blocked \<Rightarrow> ends st' new_response Blocked
                | Done ds \<Rightarrow> ((st', Adding (map (\<lambda>d. (repo, d, cid)) ds) (get_reply mf cid)), None)))"
| "advance cfg (Collecting repo target dg b) st =
     (case blobs_get repo st of
        (st', Done None) \<Rightarrow>
          Some (ends st' new_response
                  (reg_err StatusNotFound ''MANIFEST_BLOB_UNKNOWN'' (''layers for '' @ go_quote repo @ '' not found'')))
      | (st', Done (Some ls)) \<Rightarrow> Some ((st', Removing repo target dg b ls), None)
      | (st', Panicked) \<Rightarrow> Some (ends st' new_response Panicked)
      | (st', Blocked) \<Rightarrow> None)"
| "advance cfg (Removing repo target dg b ls) st =
     (case blobs_remove repo st of
        (st', Done _) \<Rightarrow> Some ((st', Sending repo target dg b ls), None)
      | (st', Panicked) \<Rightarrow> Some (ends st' new_response Panicked)
      | (st', Blocked) \<Rightarrow> None)"
| "advance cfg (Sending repo target dg b ls) st =
     Some (case AddImage (sv cfg) (world st) (ipfsClient cfg) (manifest_refs target dg b) ls of
             (w', Inl e) \<Rightarrow> ends (st\<lparr>world := w'\<rparr>) new_response (reg_err StatusInternalServerError [] (err_msg e))
           | (w', Inr cid) \<Rightarrow>
               ((st\<lparr>world := w'\<rparr>, Adding [(repo, target, cid), (repo, dg, cid), (cid, ''latest'', cid)] (pushed_reply dg cid)), None))"
| "advance cfg (Adding [] resp) st = Some (ends st resp (Done None))"
| "advance cfg (Adding ((r, t, c) # as) resp) st = Some ((cids_add st r t c, Adding as resp), None)"

section \<open>A request alone\<close>

text \<open>How many sections there are at most before the end; every section makes it less.\<close>

fun sections_left :: "phase \<Rightarrow> nat" where
  "sections_left Idle = 0"
| "sections_left (Adding as resp) = length as + 1"
| "sections_left (Locating r t mf) = (case blob_digests (blob mf) of Done ds \<Rightarrow> length ds + 2 | _ \<Rightarrow> 1)"
| "sections_left (Sending r t d b ls) = 5"
| "sections_left (Removing r t d b ls) = 6"
| "sections_left (Collecting r t d b) = 7"

lemma ends_simps [simp]: "fst (ends st resp oc) = (st, Idle)" "snd (ends st resp oc) = Some (resp, oc)"
  by (simp_all add: ends_def)

lemma advance_left: "advance cfg ph st = Some ((st', ph'), r) \<Longrightarrow> sections_left ph' < sections_left ph"
  by (cases "(cfg, ph, st)" rule: advance.cases)
    (auto simp: ends_def split: prod.splits sum.splits outcome.splits option.splits)

function finish :: "'w reg_config \<Rightarrow> 'w section_result \<Rightarrow> 'w handled option" where
  "finish cfg ((st, ph), Some (resp, oc)) = Some (st, resp, oc)"
| "finish cfg ((st, ph), None) = (case advance cfg ph st of None \<Rightarrow> None | Some s \<Rightarrow> finish cfg s)"
  by pat_completeness auto
termination
proof (relation "measure (\<lambda>(cfg, s). if snd s = None then Suc (sections_left (snd (fst s))) else 0)")
  show "wf (measure (\<lambda>(cfg :: 'w reg_config, s :: 'w section_result). if snd s = None then Suc (sections_left (snd (fst s))) else 0))"
    by (rule wf_measure)
  fix cfg :: "'w reg_config" and st ph and s :: "'w section_result"
  assume "advance cfg ph st = Some s"
  then show "((cfg, s), cfg, (st, ph), None) \<in> measure (\<lambda>(cfg, s). if snd s = None then Suc (sections_left (snd (fst s))) else 0)"
    using advance_left [of cfg ph st] by (cases s) auto
qed

lemma finish_ends [simp]: "finish cfg (ends st resp oc) = Some (st, resp, oc)"
  by (simp add: ends_def)

lemmas finish_step = finish.simps(2)
declare finish.simps(2) [simp del]

lemma finish_adding [simp]:
  "finish cfg ((st, Adding as resp), None) = Some (foldl (\<lambda>s (r, t, c). cids_add s r t c) st as, resp, Done None)"
  by (induction as arbitrary: st) (auto simp: finish_step)

text \<open>The outcome of an atomic handler, \<open>None\<close> when it never comes to its end.\<close>

definition completed :: "'w handled \<Rightarrow> 'w handled option" where
  "completed h = (if snd (snd h) = Blocked then None else Some h)"

lemma completed_simps [simp]:
  "completed (st, resp, Blocked) = None" "completed (st, resp, Panicked) = Some (st, resp, Panicked)"
  "completed (st, resp, Done x) = Some (st, resp, Done x)"
  by (simp_all add: completed_def)

lemma foldl_add_digests: "foldl (\<lambda>s (r, t, c). cids_add s r t c) st (map (\<lambda>d. (repo, d, cid)) ds) = foldl (\<lambda>s d. cids_add s repo d cid) st ds"
  by (induction ds arbitrary: st) simp_all

lemma finish_get:
  assumes "\<not> manifests_locked st"
  shows "finish cfg (begin_get cfg repo t st) = completed (manifest_get cfg repo t st new_response)"
proof -
  obtain st1 x where f: "fetch cfg repo t st = (st1, x)" by fastforce
  obtain st2 y where r: "resolveCID cfg st1 repo t = (st2, y)" by fastforce
  show ?thesis
    using assms f r
    by (cases x; cases y; cases "blob_digests (blob (projr x))")
      (simp_all add: begin_get_def manifest_get_def manifest_unknown_def reg_err_def foldl_add_digests get_reply_def
        finish_step [of _ _ "Locating repo t mf" for mf])
qed

lemma finish_sending:
  "finish cfg ((st, Sending repo t dg b ls), None) = completed (add_image cfg repo t dg b ls st new_response)"
proof -
  obtain w x where "AddImage (sv cfg) (world st) (ipfsClient cfg) (manifest_refs t dg b) ls = (w, x)" by fastforce
  then show ?thesis by (cases x) (simp_all add: finish_step add_image_def reg_err_def pushed_reply_def)
qed

lemma finish_removing:
  "finish cfg ((st, Removing repo t dg b ls), None) =
     (case blobs_remove repo st of
        (st', Done _) \<Rightarrow> completed (add_image cfg repo t dg b ls st' new_response)
      | (st', Panicked) \<Rightarrow> Some (st', new_response, Panicked)
      | (st', Blocked) \<Rightarrow> None)"
  by (simp add: finish_step [of _ _ "Removing repo t dg b ls"] finish_sending split: prod.split outcome.split)

lemma finish_commit:
  "finish cfg ((st, Collecting repo t dg b), None) = completed (manifest_commit cfg repo t dg b st new_response)"
proof -
  obtain st1 x where g: "blobs_get repo st = (st1, x)" by fastforce
  obtain st2 y where r: "blobs_remove repo st1 = (st2, y)" by fastforce
  show ?thesis
  proof (cases x)
    case (Done l)
    with g r show ?thesis
      by (cases l; cases y) (simp_all add: finish_step [of _ _ "Collecting repo t dg b"] finish_removing manifest_commit_def reg_err_def)
  qed (use g in \<open>simp_all add: finish_step manifest_commit_def\<close>)
qed

lemma finish_put:
  "\<not> manifests_locked st \<Longrightarrow> finish cfg (begin_put cfg repo t req st) = completed (manifest_put cfg repo t req st new_response)"
  by (simp add: begin_put_def manifest_put_def Let_def finish_commit manifest_unknown_def reg_err_def del: finish.simps split: option.split)

lemma completed_head:
  "\<not> manifests_locked st \<Longrightarrow> completed (manifest_head cfg repo t st resp) = Some (manifest_head cfg repo t st resp)"
  by (auto simp: manifest_head_def manifest_unknown_def reg_err_def split: prod.splits sum.splits)

text \<open>
  The sections of a manifest request, run one after the other without interference, are the
  request as it is modelled elsewhere: the same state, the same reply, and no end exactly when
  the handler never returns. So everything shown of requests that run alone holds of the
  interleaved server when nothing interferes.
\<close>
theorem sections_are_the_handler:
  assumes "\<not> manifests_locked st"
  shows "finish cfg (begin_manifest cfg req st) = completed (manifests_handle cfg req st new_response)"
  using finish_get [OF assms] finish_put [OF assms] completed_head [OF assms]
  by (auto simp: begin_manifest_def manifests_handle_def method_unknown_def reg_err_def Let_def split: prod.splits)

section \<open>All interleavings\<close>

text \<open>The requests that need the mutex of the manifests.\<close>

definition takes_lock :: "request \<Rightarrow> bool" where
  "takes_lock req \<longleftrightarrow> \<not> isDig req \<and> isBlob req = Done False \<and> isManifest req"

text \<open>
  A manifest request enters when no other is inside and goes on section by section; any other
  request, if it does not wait for the mutex of the blobs, runs beside it; and the disk and the
  world change as they like.
\<close>

inductive interleaved :: "'w reg_config \<Rightarrow> 'w machine \<Rightarrow> 'w machine \<Rightarrow> bool" for cfg where
  enter: "takes_lock req \<Longrightarrow> begin_manifest cfg req st = (m, r) \<Longrightarrow> interleaved cfg (st, Idle) m"
| continue: "advance cfg ph st = Some (m, r) \<Longrightarrow> interleaved cfg (st, ph) m"
| beside: "\<not> takes_lock req \<Longrightarrow> root cfg req st = (st', oc) \<Longrightarrow> oc \<noteq> Blocked \<Longrightarrow> interleaved cfg (st, ph) (st', ph)"
| environment: "interleaved cfg (st, ph) (st\<lparr>world := w, disk := d\<rparr>, ph)"

inductive_cases interleavedE: "interleaved cfg (st, ph) m"

definition runs :: "'w reg_config \<Rightarrow> 'w machine \<Rightarrow> 'w machine \<Rightarrow> bool" where
  "runs cfg = (interleaved cfg)\<^sup>*\<^sup>*"

text \<open>The same with the manifest requests that have entered, each with the state it found.\<close>

inductive logged :: "'w reg_config \<Rightarrow> 'w machine \<Rightarrow> 'w request_log \<Rightarrow> 'w machine \<Rightarrow> bool" for cfg m where
  start: "logged cfg m [] m"
| enter: "logged cfg m log (st, Idle) \<Longrightarrow> takes_lock req \<Longrightarrow> begin_manifest cfg req st = (m', r) \<Longrightarrow> logged cfg m (log @ [(req, st)]) m'"
| continue: "logged cfg m log (st, ph) \<Longrightarrow> advance cfg ph st = Some (m', r) \<Longrightarrow> logged cfg m log m'"
| beside: "logged cfg m log (st, ph) \<Longrightarrow> \<not> takes_lock req \<Longrightarrow> root cfg req st = (st', oc) \<Longrightarrow> oc \<noteq> Blocked \<Longrightarrow> logged cfg m log (st', ph)"
| environment: "logged cfg m log (st, ph) \<Longrightarrow> logged cfg m log (st\<lparr>world := w, disk := d\<rparr>, ph)"

lemma logged_runs: "logged cfg m log m' \<Longrightarrow> runs cfg m m'"
  unfolding runs_def
proof (induction rule: logged.induct)
  case (enter log st req m' r)
  then show ?case by (meson interleaved.enter rtranclp.rtrancl_into_rtrancl)
next
  case (continue log st ph m' r)
  then show ?case by (meson interleaved.continue rtranclp.rtrancl_into_rtrancl)
next
  case (beside log st ph req st' oc)
  then show ?case by (meson interleaved.beside rtranclp.rtrancl_into_rtrancl)
next
  case (environment log st ph d w)
  moreover have "interleaved cfg (st, ph) (st\<lparr>world := w, disk := d\<rparr>, ph)" by (rule interleaved.environment)
  ultimately show ?case by (rule_tac rtranclp.rtrancl_into_rtrancl)
qed simp

lemma runs_logged: "runs cfg m m' \<Longrightarrow> \<exists>log. logged cfg m log m'"
  unfolding runs_def
proof (induction rule: rtranclp_induct)
  case base
  show ?case using logged.start by blast
next
  case (step m1 m2)
  then obtain log where l: "logged cfg m log m1" by blast
  from step.hyps(2) show ?case
  proof (cases rule: interleaved.cases)
    case (environment st ph d w)
    with l have "logged cfg m log (st, ph)" by simp
    from logged.environment [OF this, of d w] environment show ?thesis by blast
  next
    case (beside req st st' oc ph)
    with l have "logged cfg m log (st, ph)" by simp
    from logged.beside [OF this beside(3-5)] beside(2) show ?thesis by blast
  qed (use l logged.enter logged.continue in blast)+
qed

subsection \<open>What writes the tables\<close>

lemma blobs_handle_tables:
  "reg_cids (fst (blobs_handle cfg req st resp)) = reg_cids st" "reg_manifests (fst (blobs_handle cfg req st resp)) = reg_manifests st"
  using blobs_handle_step [of st cfg req resp] by (simp_all add: blobs_step_ok_def blobs_frame_def)

lemma dig_tables: "reg_cids (fst (dig cfg req st resp)) = reg_cids st" "reg_manifests (fst (dig cfg req st resp)) = reg_manifests st"
  by (auto simp: dig_def dig_found_def Let_def split: prod.splits option.splits sum.splits)

lemma fst_reply_of [simp]: "fst (reply_of h) = fst h"
  by (auto simp: reply_of_def split: prod.splits outcome.splits option.splits)

lemma root_beside_tables:
  assumes "\<not> takes_lock req" and "root cfg req st = (st', oc)"
  shows "reg_cids st' = reg_cids st" and "reg_manifests st' = reg_manifests st"
proof -
  have "reg_cids st' = reg_cids st \<and> reg_manifests st' = reg_manifests st"
  proof (cases "isDig req")
    case True
    with assms(2) dig_tables [of cfg req st new_response] show ?thesis by (auto simp: root_def split: prod.splits)
  next
    case False
    have "st' = fst (v2 cfg req st new_response)" using assms(2) root_v2 [OF False, of cfg st] by (metis fst_conv fst_reply_of)
    then show ?thesis
      using assms(1) False blobs_handle_tables [of cfg req st new_response]
      by (auto simp: v2_def takes_lock_def Let_def split: outcome.splits)
  qed
  then show "reg_cids st' = reg_cids st" "reg_manifests st' = reg_manifests st" by simp_all
qed

lemma advance_manifests: "advance cfg ph st = Some (m, r) \<Longrightarrow> reg_manifests (fst m) = reg_manifests st"
proof (cases "(cfg, ph, st)" rule: advance.cases)
  case (2 cfg' repo t mf st')
  assume "advance cfg ph st = Some (m, r)"
  with 2 resolveCID_frame [of cfg st repo t] show ?thesis by (auto simp: ends_def split: prod.splits sum.splits outcome.splits)
next
  case (3 cfg' repo t dg b st')
  assume "advance cfg ph st = Some (m, r)"
  with 3 have "fst m = fst (blobs_get repo st)" by (auto simp: ends_def split: prod.splits outcome.splits option.splits)
  then show ?thesis by (simp add: blobs_get_step)
next
  case (4 cfg' repo t dg b ls st')
  assume "advance cfg ph st = Some (m, r)"
  with 4 have "fst m = fst (blobs_remove repo st)" by (auto simp: ends_def split: prod.splits outcome.splits)
  then show ?thesis by (simp add: blobs_remove_step)
qed (auto simp: ends_def frame_simps split: prod.splits sum.splits)

lemma begin_writes_only: "writes_only (brings req st) st (fst (fst (begin_manifest cfg req st)))"
proof -
  let ?P = "\<lambda>repo t r u (b :: bytes). (r, u) = (repo, t) \<and> repo_manifests st repo t = None"
  let ?Q = "\<lambda>repo t r u b. (r, u) = (repo, t) \<and> req_body req = b"
  let ?mf = "\<lparr>contentType = header_get req ''Content-Type'', blob = req_body req, digest = []\<rparr>"
  have g: "writes_only (?P repo t) st (fst (fst (begin_get cfg repo t st)))" for repo t
    using fetch_writes_only [of repo t st cfg] by (auto simp: begin_get_def split: prod.splits sum.splits)
  have h: "writes_only (?P repo t) st (fst (fst (case manifest_head cfg repo t st new_response of (st', resp, oc) \<Rightarrow> ends st' resp oc)))" for repo t
    using fetch_writes_only [of repo t st cfg] writes_only_same [OF refl] by (auto simp: manifest_head_def split: prod.splits sum.splits)
  have p: "writes_only (?Q repo t) st (fst (fst (begin_put cfg repo t req st)))" for repo t
    using writes_only_put [of "?Q repo t" repo t ?mf st] writes_only_make by (auto simp: begin_put_def Let_def split: option.split)
  have "writes_only (brings req st) st (fst (fst (ends st new_response oc)))" for oc by (simp add: writes_only_same)
  then show ?thesis
    by (auto simp: begin_manifest_def brings_def manifest_name_def Let_def
        intro: writes_only_mono [OF g] writes_only_mono [OF h] writes_only_mono [OF p])
qed

lemma logged_brought:
  "logged cfg m log m' \<Longrightarrow> (\<And>repo t. repo_manifests (fst m) repo t = None) \<Longrightarrow> repo_manifests (fst m') repo t = Some mf \<Longrightarrow>
     t = compute_digest (blob mf) \<or> brought log repo t (blob mf)"
proof (induction arbitrary: repo t mf rule: logged.induct)
  case (enter log st req m' r)
  have w: "writes_only (brings req st) st (fst m')" using begin_writes_only [of req st cfg] enter.hyps(3) by simp
  have "isManifest req" using enter.hyps(2) by (simp add: takes_lock_def)
  with w enter.IH enter.prems show ?case unfolding writes_only_def brought_snoc by fastforce
next
  case (continue log st ph m' r)
  with advance_manifests [OF continue.hyps(2)] show ?case by (simp add: repo_manifests_def)
next
  case (beside log st ph req st' oc)
  with root_beside_tables(2) [OF beside.hyps(2,3)] show ?case by (simp add: repo_manifests_def)
next
  case (environment log st ph d w)
  then show ?case by (simp add: repo_manifests_def)
qed simp

subsection \<open>What requests beside a push do to the blobs\<close>

text \<open>They add blobs and layers, they never take one away.\<close>

definition blobs_grow :: "blobs \<Rightarrow> blobs \<Rightarrow> bool" where
  "blobs_grow b b' \<longleftrightarrow> dom (contents b) \<subseteq> dom (contents b') \<and>
     (\<forall>repo ds. layers b repo = Some ds \<longrightarrow> (\<exists>es. layers b' repo = Some (ds @ es) \<and> set es \<subseteq> dom (contents b')))"

lemma blobs_grow_refl [simp]: "blobs_grow b b"
  by (simp add: blobs_grow_def)

lemma blobs_grow_uploads [simp]: "blobs_grow b (b'\<lparr>uploads := u\<rparr>) = blobs_grow b b'"
  by (simp add: blobs_grow_def)

lemma blobs_grow_store [simp]: "blobs_grow b (store_blob repo d l b)"
  by (auto simp: blobs_grow_def store_blob_def)

lemma resolveCID_blobs: "resolveCID cfg st r t = (st', x) \<Longrightarrow> reg_blobs st' = reg_blobs st"
  using resolveCID_frame(1) [of cfg st r t] by simp

lemma blob_branches_grow:
  "blobs_grow (reg_blobs st) (reg_blobs (fst (blob_head cfg repo t st resp)))"
  "blobs_grow (reg_blobs st) (reg_blobs (fst (blob_get cfg repo t st resp)))"
  "blobs_grow (reg_blobs st) (reg_blobs (fst (blob_post_digest repo dg body st resp)))"
  "blobs_grow (reg_blobs st) (reg_blobs (fst (blob_post_start cfg elem st resp)))"
  "blobs_grow (reg_blobs st) (reg_blobs (fst (blob_patch_range elem t cr body st resp)))"
  "blobs_grow (reg_blobs st) (reg_blobs (fst (blob_patch_stream elem t body st resp)))"
  "blobs_grow (reg_blobs st) (reg_blobs (fst (blob_put repo t dg body st resp)))"
  by (auto simp: blob_head_def blob_get_def blob_post_digest_def blob_post_start_def blob_patch_range_def blob_patch_stream_def
      blob_put_def Let_def resolveCID_blobs split: option.splits prod.splits sum.splits)

lemma blobs_handle_grow: "blobs_grow (reg_blobs st) (reg_blobs (fst (blobs_handle cfg req st resp)))"
  by (auto simp: blobs_handle_def blobs_dispatch_def blob_branches_grow Let_def split: outcome.splits)

lemma root_beside:
  assumes "\<not> takes_lock req" and "root cfg req st = (st', oc)"
  shows "blobs_grow (reg_blobs st) (reg_blobs st')" and "blobs_locked st' = blobs_locked st"
    and "manifests_locked st' = manifests_locked st"
proof -
  have "blobs_grow (reg_blobs st) (reg_blobs st') \<and> blobs_locked st' = blobs_locked st \<and> manifests_locked st' = manifests_locked st"
  proof (cases "isDig req")
    case True
    have "reg_blobs (fst (dig cfg req st new_response)) = reg_blobs st"
      by (auto simp: dig_def dig_found_def Let_def split: prod.splits option.splits sum.splits)
    with True assms(2) dig_locks [of cfg req st new_response] show ?thesis
      by (auto simp: root_def split: prod.splits)
  next
    case False
    have "blobs_grow (reg_blobs st) (reg_blobs (fst (v2 cfg req st new_response))) \<and>
        blobs_locked (fst (v2 cfg req st new_response)) = blobs_locked st \<and>
        manifests_locked (fst (v2 cfg req st new_response)) = manifests_locked st"
      using assms(1) False blobs_handle_grow [of st cfg req new_response] blobs_handle_locks [of cfg req st new_response]
      by (auto simp: v2_def takes_lock_def Let_def split: outcome.splits)
    moreover have "fst (reply_of h) = fst h" for h :: "'a handled"
      by (auto simp: reply_of_def split: prod.splits outcome.splits option.splits)
    ultimately show ?thesis using assms(2) root_v2 [OF False, of cfg st] by (metis fst_conv)
  qed
  then show "blobs_grow (reg_blobs st) (reg_blobs st')" "blobs_locked st' = blobs_locked st"
    "manifests_locked st' = manifests_locked st" by simp_all
qed

lemma ready_grow:
  assumes "blobs_grow b b'" and "ready_layers b repo ds"
  obtains es where "ready_layers b' repo (ds @ es)"
proof -
  have l: "layers b repo = Some ds" and c: "set ds \<subseteq> dom (contents b)" using assms(2) by (auto simp: ready_layers_def)
  obtain es where es: "layers b' repo = Some (ds @ es)" "set es \<subseteq> dom (contents b')"
    using assms(1) l unfolding blobs_grow_def by blast
  have "set ds \<subseteq> dom (contents b')" using assms(1) c unfolding blobs_grow_def by blast
  with es that [of es] show ?thesis by (auto simp: ready_layers_def)
qed

subsection \<open>The invariant\<close>

text \<open>
  What holds in every phase: the invariant of the tables; the digest that a push works with is
  that of its manifest; the layers it has collected are stored under their own digests; and when
  it is about to remove the layers, they are still all there.
\<close>

abbreviation own_digests :: "(string \<rightharpoonup> bytes) \<Rightarrow> bool" where
  "own_digests \<equiv> map_all (\<lambda>d c. d = compute_digest c)"

fun phase_inv :: "blobs \<Rightarrow> phase \<Rightarrow> bool" where
  "phase_inv bs (Collecting repo t dg b) \<longleftrightarrow> dg = compute_digest b"
| "phase_inv bs (Removing repo t dg b ls) \<longleftrightarrow>
     dg = compute_digest b \<and> own_digests ls \<and> (\<exists>ds. ready_layers bs repo ds \<and> dom ls \<subseteq> set ds)"
| "phase_inv bs (Sending repo t dg b ls) \<longleftrightarrow> dg = compute_digest b \<and> own_digests ls"
| "phase_inv bs _ \<longleftrightarrow> True"

definition machine_inv :: "'w machine \<Rightarrow> bool" where
  "machine_inv m \<longleftrightarrow> reg_inv (fst m) \<and> \<not> manifests_locked (fst m) \<and> phase_inv (reg_blobs (fst m)) (snd m)"

lemma phase_inv_grow: "blobs_grow bs bs' \<Longrightarrow> phase_inv bs ph \<Longrightarrow> phase_inv bs' ph"
proof (cases "(bs, ph)" rule: phase_inv.cases)
  case (2 b0 repo t dg b ls)
  assume g: "blobs_grow bs bs'" and "phase_inv bs ph"
  with 2 obtain ds where ds: "dg = compute_digest b" "own_digests ls" "ready_layers bs repo ds" "dom ls \<subseteq> set ds" by auto
  obtain es where "ready_layers bs' repo (ds @ es)" by (rule ready_grow [OF g ds(3)])
  with ds 2 show ?thesis by (auto intro!: exI [of _ "ds @ es"])
qed simp_all

text \<open>The first section.\<close>

definition starts_well :: "'w registry \<Rightarrow> 'w section_result \<Rightarrow> bool" where
  "starts_well st s \<longleftrightarrow> machine_inv (fst s) \<and> blobs_locked (fst (fst s)) = blobs_locked st"

lemma begin_put_starts_well:
  assumes "reg_inv st" and "\<not> manifests_locked st"
  shows "starts_well st (begin_put cfg repo t req st)"
proof -
  let ?mf = "\<lparr>contentType = header_get req ''Content-Type'', blob = req_body req, digest = []\<rparr>"
  have m: "reg_inv (make_repo repo st)" using make_repo_step [of st repo] assms(1) by (simp add: reg_step_ok_def)
  have "reg_inv (put_manifest repo (compute_digest (req_body req)) ?mf (put_manifest repo t ?mf (make_repo repo st)))"
    using put_step [of ?mf "make_repo repo st" repo t] m by (simp add: reg_step_ok_def)
  with m assms(2) show ?thesis
    by (simp add: begin_put_def starts_well_def machine_inv_def Let_def frame_simps split: option.split)
qed

lemma begin_starts_well:
  assumes "reg_inv st" and "\<not> manifests_locked st"
  shows "starts_well st (begin_manifest cfg req st)"
proof -
  have f: "reg_inv (fst (fetch cfg repo t st))" "\<not> manifests_locked (fst (fetch cfg repo t st))"
    "blobs_locked (fst (fetch cfg repo t st)) = blobs_locked st" for repo t
    using fetch_step [of st cfg repo t] fetch_locks [of cfg repo t st] assms by (simp_all add: reg_step_ok_def)
  have e: "starts_well st (ends st' resp oc)" if "reg_inv st'" "\<not> manifests_locked st'" "blobs_locked st' = blobs_locked st" for st' resp oc
    using that by (simp add: starts_well_def machine_inv_def)
  have g: "starts_well st (begin_get cfg repo t st)" for repo t
  proof (cases "fetch cfg repo t st")
    case (Pair st1 x)
    with f [of repo t] e [of st1] show ?thesis
      by (cases x) (simp_all add: begin_get_def, simp add: starts_well_def machine_inv_def)
  qed
  have h: "starts_well st (case manifest_head cfg repo t st new_response of (st', resp, oc) \<Rightarrow> ends st' resp oc)" for repo t
    using f [of repo t] assms(2) e by (auto simp: manifest_head_def split: prod.splits sum.splits)
  show ?thesis using g h begin_put_starts_well [OF assms] e [OF assms refl] by (simp add: begin_manifest_def Let_def)
qed

text \<open>The later ones; the mutex of the blobs is lost in one of them only.\<close>

definition refused :: "string \<Rightarrow> response \<times> reg_error option outcome" where
  "refused repo =
     (new_response, reg_err StatusNotFound ''MANIFEST_BLOB_UNKNOWN'' (''layers for '' @ go_quote repo @ '' not found''))"

lemma machine_inv_idle: "reg_inv st \<Longrightarrow> \<not> manifests_locked st \<Longrightarrow> machine_inv (fst (ends st resp oc))"
  by (simp add: machine_inv_def)

lemma reg_inv_same: "reg_inv st \<Longrightarrow> reg_blobs st' = reg_blobs st \<Longrightarrow> reg_manifests st' = reg_manifests st \<Longrightarrow> reg_inv st'"
  using manifests_ok_cong [of st st'] by (simp add: reg_inv_def)

lemma collecting_inv:
  assumes "machine_inv (st, Collecting repo t dg b)" and "advance cfg (Collecting repo t dg b) st = Some (m, r)"
  shows "machine_inv m \<and> (blobs_locked (fst m) = blobs_locked st \<or>
    m = (st\<lparr>blobs_locked := True\<rparr>, Idle) \<and> r = Some (refused repo) \<and> (\<nexists>ds. ready_layers (reg_blobs st) repo ds))"
proof -
  have inv: "reg_inv st" "\<not> manifests_locked st" "phase_inv (reg_blobs st) (Collecting repo t dg b)"
    using assms(1) by (simp_all add: machine_inv_def)
  have free: "\<not> blobs_locked st" using assms(2) by (auto simp: blobs_get_def)
  show ?thesis
  proof (cases "\<exists>ds. ready_layers (reg_blobs st) repo ds")
    case True
    then obtain ds where ds: "ready_layers (reg_blobs st) repo ds" by blast
    have "own_digests (contents (reg_blobs st) |` set ds)"
      using inv(1) by (auto simp: reg_inv_def content_addressed_def intro: inv_intros)
    moreover have "m = (st, Removing repo t dg b (contents (reg_blobs st) |` set ds))"
      using assms(2) blobs_get_ready [OF free ds] by simp
    ultimately show ?thesis using inv ds by (auto simp: machine_inv_def)
  next
    case False
    with assms(2) blobs_get_unready [OF free False]
    have "m = (st\<lparr>blobs_locked := True\<rparr>, Idle)" "r = Some (refused repo)" by (auto simp: ends_def refused_def)
    with inv False reg_inv_same [of st "st\<lparr>blobs_locked := True\<rparr>"] show ?thesis by (simp add: machine_inv_def)
  qed
qed

lemma advance_inv:
  assumes "machine_inv (st, ph)" and "advance cfg ph st = Some (m, r)"
  shows "machine_inv m \<and> (blobs_locked (fst m) \<noteq> blobs_locked st \<longrightarrow>
    (\<exists>repo t dg b. ph = Collecting repo t dg b \<and> m = (st\<lparr>blobs_locked := True\<rparr>, Idle) \<and> r = Some (refused repo) \<and>
       (\<nexists>ds. ready_layers (reg_blobs st) repo ds)))"
proof -
  have inv: "reg_inv st" "\<not> manifests_locked st" "phase_inv (reg_blobs st) ph" using assms(1) by (simp_all add: machine_inv_def)
  show ?thesis
  proof (cases ph)
    case Idle
    with assms(2) show ?thesis by simp
  next
    case (Locating repo t mf)
    obtain st1 x where r: "resolveCID cfg st repo t = (st1, x)" by fastforce
    have "reg_inv st1" "\<not> manifests_locked st1" "blobs_locked st1 = blobs_locked st"
      using resolve_reg_step(1) [of st cfg repo t] resolveCID_frame [of cfg st repo t] r inv by (simp_all add: reg_step_ok_def)
    with Locating r assms(2) show ?thesis
      by (cases x; cases "blob_digests (blob mf)") (auto simp: machine_inv_def ends_def)
  next
    case (Collecting repo t dg b)
    from collecting_inv [OF assms(1) [unfolded Collecting] assms(2) [unfolded Collecting]] Collecting show ?thesis by auto
  next
    case (Removing repo t dg b ls)
    with assms(2) have free: "\<not> blobs_locked st" by (auto simp: blobs_remove_def)
    from inv(3) Removing obtain ds where ds: "ready_layers (reg_blobs st) repo ds" by auto
    let ?st = "st\<lparr>reg_blobs := drop_layers repo ds (reg_blobs st)\<rparr>"
    have "reg_inv ?st"
      using inv(1) manifests_ok_cong [of ?st st] by (auto simp: reg_inv_def content_addressed_def drop_layers_def intro: inv_intros)
    moreover have "m = (?st, Sending repo t dg b ls)" using assms(2) Removing blobs_remove_ready [OF free ds] by simp
    ultimately show ?thesis using inv Removing by (simp add: machine_inv_def)
  next
    case (Sending repo t dg b ls)
    have "reg_inv (st\<lparr>world := w\<rparr>)" for w by (rule reg_inv_same [OF inv(1)]) simp_all
    with inv Sending assms(2) show ?thesis by (auto simp: machine_inv_def ends_def split: prod.splits sum.splits)
  next
    case (Adding as resp)
    have "reg_inv (cids_add st r t c)" for r t c by (rule reg_inv_same [OF inv(1)]) (simp_all add: frame_simps)
    with inv Adding assms(2) show ?thesis
      by (cases as) (auto simp: machine_inv_def ends_def frame_simps)
  qed
qed

lemma interleaved_inv:
  assumes "interleaved cfg m m'" and "machine_inv m"
  shows "machine_inv m'"
  using assms
proof (cases rule: interleaved.cases)
  case (enter req st r)
  with assms(2) begin_starts_well [of st cfg req] show ?thesis by (simp add: machine_inv_def starts_well_def)
next
  case (continue ph st r)
  with assms(2) advance_inv show ?thesis by blast
next
  case (beside req st st' oc ph)
  note b = root_beside [OF beside(3,4)]
  from assms(2) beside b root_step [of st cfg req] phase_inv_grow [OF b(1), of ph] show ?thesis
    by (simp add: machine_inv_def reg_step_ok_def)
next
  case (environment st ph d w)
  with assms(2) reg_inv_same [of st "st\<lparr>world := w, disk := d\<rparr>"] show ?thesis by (simp add: machine_inv_def)
qed

lemma runs_inv: "runs cfg (new_registry loc fs w, Idle) m \<Longrightarrow> machine_inv m"
  unfolding runs_def
proof (induction rule: rtranclp_induct)
  case base
  show ?case using new_registry_inv [of loc fs w] by (simp add: machine_inv_def) (simp add: new_registry_def)
qed (rule interleaved_inv)

section \<open>What holds for every interleaving\<close>


text \<open>
  C12: However requests are interleaved, the mutex of the blobs is lost in one way only: a push
  finds no layers of its repository, or one of them without its contents, and is refused with 404.
\<close>
theorem mutex_lost_by_refused_push:
  assumes "runs cfg (new_registry loc fs w, Idle) (st, ph)" and "interleaved cfg (st, ph) (st', ph')"
    and "\<not> blobs_locked st" and "blobs_locked st'"
  shows "\<exists>repo t dg b. ph = Collecting repo t dg b \<and> (\<nexists>ds. ready_layers (reg_blobs st) repo ds) \<and>
    ph' = Idle \<and> advance cfg ph st = Some ((st', Idle), Some (refused repo))"
proof -
  have inv: "machine_inv (st, ph)" by (rule runs_inv [OF assms(1)])
  from assms(2) show ?thesis
  proof (cases rule: interleaved.cases)
    case (enter req r)
    with inv begin_starts_well [of st cfg req] assms(3,4) show ?thesis by (simp add: machine_inv_def starts_well_def)
  next
    case (continue r)
    with advance_inv [OF inv] assms(3,4) show ?thesis by fastforce
  next
    case (beside req oc)
    with root_beside(2) assms(3,4) show ?thesis by blast
  next
    case (environment d w)
    with assms(3,4) show ?thesis by simp
  qed
qed

subsection \<open>The holder comes to its end\<close>

text \<open>A section can be run when the mutex of the blobs is free.\<close>

lemma advance_free:
  assumes "\<not> blobs_locked st" and "ph \<noteq> Idle"
  shows "advance cfg ph st \<noteq> None"
proof (cases ph)
  case (Collecting repo t dg b)
  then show ?thesis using assms(1) by (auto simp: blobs_get_def ends_def split: option.splits)
next
  case (Removing repo t dg b ls)
  then show ?thesis using assms(1) by (auto simp: blobs_remove_def split: option.splits)
next
  case (Adding as resp)
  then show ?thesis by (cases as) auto
qed (use assms(2) in simp_all)

text \<open>What happens from the first section of a request on, with the number of its own sections.\<close>

inductive worked :: "'w reg_config \<Rightarrow> 'w machine \<Rightarrow> nat \<Rightarrow> 'w machine \<Rightarrow> bool" for cfg m where
  begun: "worked cfg m 0 m"
| own: "worked cfg m k (st, ph) \<Longrightarrow> advance cfg ph st = Some (m', r) \<Longrightarrow> worked cfg m (Suc k) m'"
| beside: "worked cfg m k (st, ph) \<Longrightarrow> \<not> takes_lock req \<Longrightarrow> root cfg req st = (st', oc) \<Longrightarrow> oc \<noteq> Blocked \<Longrightarrow> worked cfg m k (st', ph)"
| environment: "worked cfg m k (st, ph) \<Longrightarrow> worked cfg m k (st\<lparr>world := w, disk := d\<rparr>, ph)"

definition on_its_way :: "nat \<Rightarrow> nat \<Rightarrow> 'w machine \<Rightarrow> bool" where
  "on_its_way n k m \<longleftrightarrow> machine_inv m \<and> k + sections_left (snd m) \<le> n \<and> (snd m = Idle \<or> \<not> blobs_locked (fst m))"

lemma on_its_way_step:
  assumes "on_its_way n k m" and "interleaved cfg m m'"
    and "snd m' = snd m \<and> blobs_locked (fst m') = blobs_locked (fst m) \<and> k' = k \<or>
      (\<exists>r. advance cfg (snd m) (fst m) = Some (m', r)) \<and> k' = Suc k"
  shows "on_its_way n k' m'"
proof -
  have inv: "machine_inv m'" using interleaved_inv [OF assms(2)] assms(1) by (simp add: on_its_way_def)
  from assms(3) show ?thesis
  proof
    assume "snd m' = snd m \<and> blobs_locked (fst m') = blobs_locked (fst m) \<and> k' = k"
    with assms(1) inv show ?thesis by (simp add: on_its_way_def)
  next
    assume "(\<exists>r. advance cfg (snd m) (fst m) = Some (m', r)) \<and> k' = Suc k"
    then obtain r where a: "advance cfg (snd m) (fst m) = Some (m', r)" and k: "k' = Suc k" by blast
    from a have "snd m \<noteq> Idle" by auto
    moreover have "sections_left (snd m') < sections_left (snd m)"
      using advance_left [of cfg "snd m" "fst m" "fst m'" "snd m'" r] a by simp
    moreover have "snd m' = Idle \<or> blobs_locked (fst m') = blobs_locked (fst m)"
      using advance_inv [of "fst m" "snd m" cfg m' r] a assms(1) by (auto simp: on_its_way_def)
    ultimately show ?thesis using assms(1) inv k by (auto simp: on_its_way_def)
  qed
qed

lemma worked_on_its_way: "worked cfg m k m' \<Longrightarrow> on_its_way n 0 m \<Longrightarrow> on_its_way n k m'"
proof (induction rule: worked.induct)
  case (own k st ph m' r)
  then show ?case using on_its_way_step [of n k "(st, ph)" cfg m' "Suc k"] interleaved.continue [of cfg ph st m' r] by simp
next
  case (beside k st ph req st' oc)
  note b = root_beside [OF beside.hyps(2,3)] interleaved.beside [OF beside.hyps(2-4), of ph]
  from beside b show ?case using on_its_way_step [of n k "(st, ph)" cfg "(st', ph)" k] by simp
next
  case (environment k st ph d w)
  then show ?case
    using on_its_way_step [of n k "(st, ph)" cfg "(st\<lparr>world := w, disk := d\<rparr>, ph)" k] interleaved.environment [of cfg st ph d w] by simp
qed

lemma begin_put_left: "req_method req = ''PUT'' \<Longrightarrow> begin_manifest cfg req st = (m, r) \<Longrightarrow> sections_left (snd m) \<le> 7"
  by (auto simp: begin_manifest_def begin_put_def ends_def Let_def split: option.splits)

text \<open>
  C11: A manifest request that has entered comes to its end. If the mutex of the blobs is free when
  it enters, then in every interleaving with other requests and with changes of the world and the
  disk, at every moment before its end its next section can be run (nothing leaves the mutex of
  the blobs locked under it), and it ends after a bounded number of its own sections:
  \<open>sections_left\<close> of its first phase, which is at most seven for a \<open>PUT\<close> and two more than the number
  of digests in the manifest for a \<open>GET\<close>. Then the next manifest request can enter.
\<close>
theorem manifest_request_ends:
  assumes "runs cfg (new_registry loc fs w, Idle) (st, Idle)" and "\<not> blobs_locked st"
    and "begin_manifest cfg req st = (m, r)" and "worked cfg m k (st', ph')"
  shows "k \<le> sections_left (snd m) \<and> (k = sections_left (snd m) \<longrightarrow> ph' = Idle) \<and>
    (ph' \<noteq> Idle \<longrightarrow> \<not> blobs_locked st' \<and> (\<exists>m' r'. advance cfg ph' st' = Some (m', r'))) \<and>
    (req_method req = ''PUT'' \<longrightarrow> sections_left (snd m) \<le> 7)"
proof -
  have "starts_well st (begin_manifest cfg req st)"
    using runs_inv [OF assms(1)] by (intro begin_starts_well) (simp_all add: machine_inv_def)
  then have "on_its_way (sections_left (snd m)) 0 m" using assms(2,3) by (simp add: starts_well_def on_its_way_def)
  then have o: "on_its_way (sections_left (snd m)) k (st', ph')" by (rule worked_on_its_way [OF assms(4)])
  have z: "sections_left ph' = 0 \<Longrightarrow> ph' = Idle" by (cases ph') (auto split: outcome.splits)
  from o have "k + sections_left ph' \<le> sections_left (snd m)" "ph' = Idle \<or> \<not> blobs_locked st'"
    by (simp_all add: on_its_way_def)
  with z advance_free [of st' ph' cfg] begin_put_left [OF _ assms(3)] show ?thesis by auto
qed

subsection \<open>A run\<close>

text \<open>A manifest is put to a new server, which knows no layers of its repository.\<close>

definition early_put :: request where
  "early_put = manifest_req ''PUT'' ''a'' ''v1'' ''m'' ''x''"

definition early_mf :: stored_manifest where
  "early_mf = \<lparr>contentType = ''m'', blob = ''x'', digest = []\<rparr>"

definition early_state :: "unit registry" where
  "early_state = put_manifest ''a'' (compute_digest ''x'') early_mf (put_manifest ''a'' ''v1'' early_mf (make_repo ''a'' local_registry))"

abbreviation early_phase :: phase where
  "early_phase \<equiv> Collecting ''a'' ''v1'' (compute_digest ''x'') ''x''"

lemma early_begin: "begin_manifest (local_config offline) early_put local_registry = ((early_state, early_phase), None)"
proof -
  have m: "req_method early_put = ''PUT''" by (simp add: early_put_def manifest_req_def)
  have e: "manifest_elems (url_path early_put) = [''v2'', ''a'', ''manifests'', ''v1'']"
    unfolding early_put_def manifest_req_def by code_simp
  have "\<not> is_index_type ''m''" by (simp add: is_index_type_def)
  then have "check_index known early_mf = None" for known by (simp add: check_index_def early_mf_def)
  moreover have "header_get early_put ''Content-Type'' = ''m''" "req_body early_put = ''x''" by (simp_all add: early_put_def)
  ultimately have p: "begin_put (local_config offline) ''a'' ''v1'' early_put local_registry = ((early_state, early_phase), None)"
    by (simp add: begin_put_def Let_def early_state_def early_mf_def)
  have n: "from_end [''v2'', ''a'', ''manifests'', ''v1''] 1 = ''v1''"
    "join ''/'' (slice 1 (length [''v2'', ''a'', ''manifests'', ''v1''] - 2) [''v2'', ''a'', ''manifests'', ''v1'']) = ''a''"
    by code_simp+
  show ?thesis unfolding begin_manifest_def Let_def e n m using p by simp
qed

lemma early_takes_lock: "takes_lock early_put"
  unfolding takes_lock_def early_put_def by code_simp

lemma early_run: "runs (local_config offline) (new_registry ''/c'' empty_disk (), Idle) (early_state, early_phase)"
  using interleaved.enter [OF early_takes_lock early_begin]
  unfolding runs_def by (simp add: local_registry_def r_into_rtranclp)

lemma early_blobs: "\<not> blobs_locked early_state" "layers (reg_blobs early_state) ''a'' = None"
  by (simp_all add: early_state_def frame_simps)

lemma early_refused: "advance (local_config offline) early_phase early_state = Some ((early_state\<lparr>blobs_locked := True\<rparr>, Idle), Some (refused ''a''))"
  using blobs_get_unready [of early_state "''a''"] early_blobs by (simp add: ready_layers_def ends_def refused_def)

lemma early_log: "logged (local_config offline) (new_registry ''/c'' empty_disk (), Idle) [(early_put, local_registry)] (early_state, early_phase)"
  using logged.enter [OF logged.start early_takes_lock early_begin] by (simp add: local_registry_def)


theorem mutex_lost_by_refused_push_witness:
  "\<exists>repo. \<not> blobs_locked early_state \<and> advance (local_config offline) early_phase early_state =
     Some ((early_state\<lparr>blobs_locked := True\<rparr>, Idle), Some (refused repo))"
  using mutex_lost_by_refused_push [OF early_run interleaved.continue [OF early_refused] early_blobs(1)] early_blobs(1) by auto

lemma early_worked: "worked (local_config offline) (early_state, early_phase) 1 (early_state\<lparr>blobs_locked := True\<rparr>, Idle)"
  using worked.own [OF worked.begun early_refused] by simp

theorem manifest_request_ends_witness:
  "\<exists>m r k st'. begin_manifest (local_config offline) early_put local_registry = (m, r) \<and>
     worked (local_config offline) m k (st', Idle) \<and> k \<le> sections_left (snd m) \<and> sections_left (snd m) \<le> 7"
proof -
  have "runs (local_config offline) (new_registry ''/c'' empty_disk (), Idle) (local_registry, Idle)"
    by (simp add: runs_def local_registry_def)
  moreover have "\<not> blobs_locked local_registry" "req_method early_put = ''PUT''" by (simp_all add: early_put_def manifest_req_def)
  ultimately show ?thesis using manifest_request_ends [OF _ _ early_begin early_worked] early_begin early_worked by blast
qed

theorem sections_are_the_handler_witness:
  "finish (local_config offline) (begin_manifest (local_config offline) early_put local_registry) =
     completed (manifests_handle (local_config offline) early_put local_registry new_response)"
  by (rule sections_are_the_handler) simp

end
