(* ===== verification/Pushes.thy ===== *)
theory Pushes
  imports Sections
begin

text \<open>
  What a push has done when it is answered, and what the server keeps, in every interleaving of
  requests: only the holder of the mutex of the manifests writes the CID store and the table of
  manifests, and it only adds.
\<close>

section \<open>Nothing is forgotten\<close>

definition tables_grow :: "'w registry \<Rightarrow> 'w registry \<Rightarrow> bool" where
  "tables_grow st st' \<longleftrightarrow>
     (\<forall>r t. cids_held st r t \<noteq> None \<longrightarrow> cids_held st' r t \<noteq> None) \<and>
     (\<forall>repo t. repo_manifests st repo t \<noteq> None \<longrightarrow> repo_manifests st' repo t \<noteq> None)"

lemma tables_grow_same: "reg_cids st' = reg_cids st \<Longrightarrow> reg_manifests st' = reg_manifests st \<Longrightarrow> tables_grow st st'"
  by (simp add: tables_grow_def cids_held_def store_held_def repo_manifests_def)

lemma tables_grow_refl [simp]: "tables_grow st st"
  by (simp add: tables_grow_def)

lemma tables_grow_trans: "tables_grow st st1 \<Longrightarrow> tables_grow st1 st2 \<Longrightarrow> tables_grow st st2"
  by (simp add: tables_grow_def)

lemma tables_grow_ops:
  "tables_grow st (cids_add st r t c)" "tables_grow st (put_manifest r t mf st)" "tables_grow st (make_repo r st)"
  by (auto simp: tables_grow_def rci.held_add frame_simps) (simp_all add: cids_held_def store_held_def frame_simps)

lemma tables_grow_world: "tables_grow st st1 \<Longrightarrow> tables_grow st (st1\<lparr>world := w\<rparr>)"
  by (simp add: tables_grow_def cids_held_def store_held_def frame_simps)

lemma resolveCID_grow: "resolveCID cfg st r t = (st', x) \<Longrightarrow> tables_grow st st'"
  using resolveCID_frame [of cfg st r t] by (simp add: tables_grow_same)

lemma fetch_grow: "tables_grow st (fst (fetch cfg repo t st))"
proof -
  let ?s0 = "make_repo repo st"
  obtain st1 x where r: "resolveCID cfg ?s0 repo t = (st1, x)" by fastforce
  have s1: "tables_grow st st1" by (rule tables_grow_trans [OF tables_grow_ops(3) resolveCID_grow [OF r]])
  have "tables_grow st (cids_add (put_manifest repo d mf (put_manifest repo t mf (st1\<lparr>world := w\<rparr>))) repo d c)" for d mf w c
    by (rule tables_grow_trans [OF tables_grow_trans [OF tables_grow_trans [OF tables_grow_world [OF s1]]]]) (rule tables_grow_ops)+
  with r s1 tables_grow_world [OF s1] show ?thesis
    by (auto simp: fetch_def tables_grow_ops Let_def split: option.splits prod.splits sum.splits)
qed

lemma begin_grow: "tables_grow st (fst (fst (begin_manifest cfg req st)))"
proof -
  have g: "tables_grow st (fst (fst (begin_get cfg repo t st)))" for repo t
    using fetch_grow [of st cfg repo t] by (auto simp: begin_get_def split: prod.splits sum.splits)
  have h: "tables_grow st (fst (fst (case manifest_head cfg repo t st new_response of (st', resp, oc) \<Rightarrow> ends st' resp oc)))" for repo t
    using fetch_grow [of st cfg repo t] by (auto simp: manifest_head_def split: prod.splits sum.splits)
  have "tables_grow st (put_manifest repo d mf (put_manifest repo t mf (make_repo repo st)))" for repo d t mf
    by (rule tables_grow_trans [OF tables_grow_trans [OF tables_grow_ops(3)]]) (rule tables_grow_ops)+
  then have p: "tables_grow st (fst (fst (begin_put cfg repo t req st)))" for repo t
    by (simp add: begin_put_def Let_def tables_grow_ops split: option.split)
  show ?thesis using g h p by (simp add: begin_manifest_def Let_def)
qed

lemma blobs_remove_tables: "reg_cids (fst (blobs_remove repo st)) = reg_cids st" "reg_manifests (fst (blobs_remove repo st)) = reg_manifests st"
  "reg_cids (fst (blobs_get repo st)) = reg_cids st" "reg_manifests (fst (blobs_get repo st)) = reg_manifests st"
  by (simp_all add: blobs_remove_step blobs_get_step)

lemma advance_grow: "advance cfg ph st = Some (m, r) \<Longrightarrow> tables_grow st (fst m)"
proof (cases "(cfg, ph, st)" rule: advance.cases)
  case (3 cfg' repo t dg b st')
  assume "advance cfg ph st = Some (m, r)"
  with 3 have "fst m = fst (blobs_get repo st)" by (auto simp: ends_def split: prod.splits outcome.splits option.splits)
  then show ?thesis using blobs_remove_tables [of repo st] by (simp add: tables_grow_same)
next
  case (4 cfg' repo t dg b ls st')
  assume "advance cfg ph st = Some (m, r)"
  with 4 have "fst m = fst (blobs_remove repo st)" by (auto simp: ends_def split: prod.splits outcome.splits)
  then show ?thesis using blobs_remove_tables [of repo st] by (simp add: tables_grow_same)
qed (auto simp: ends_def tables_grow_ops tables_grow_same split: prod.splits sum.splits outcome.splits dest: resolveCID_grow)

lemma interleaved_grow: "interleaved cfg m m' \<Longrightarrow> tables_grow (fst m) (fst m')"
proof (induction rule: interleaved.induct)
  case (enter req st m r)
  then show ?case using begin_grow [of st cfg req] by simp
next
  case (continue ph st m r)
  then show ?case using advance_grow [of cfg ph st m r] by simp
next
  case (beside req st st' oc ph)
  then show ?case using root_beside_tables [of req cfg st st' oc] by (simp add: tables_grow_same)
qed (simp add: tables_grow_same)

text \<open>
  C7: The server forgets nothing it has learnt. However requests are interleaved, a name and
  reference that the CID store holds keeps resolving, to one CID and without asking anyone, and a
  manifest that is in memory is answered from memory at every later time.
\<close>
theorem nothing_is_forgotten:
  assumes "runs cfg (st, ph) (st', ph')"
  shows "(cids_held st r t \<noteq> None \<longrightarrow> (\<exists>c. \<forall>cfg'. resolve cfg' st' r t = (world st', Some [c]))) \<and>
    (repo_manifests st repo u \<noteq> None \<longrightarrow> (\<exists>mf. \<forall>cfg'. fetch cfg' repo u st' = (make_repo repo st', Inr mf)))"
proof -
  have "runs cfg m m' \<Longrightarrow> tables_grow (fst m) (fst m')" for m m'
    unfolding runs_def
  proof (induction rule: rtranclp_induct)
    case (step m1 m2)
    then show ?case using interleaved_grow tables_grow_trans by blast
  qed simp
  from this [OF assms] have g: "tables_grow st st'" by simp
  have "\<exists>c. \<forall>cfg'. resolve cfg' st' r t = (world st', Some [c])" if h: "cids_held st r t \<noteq> None"
  proof -
    have "cids_held st' r t \<noteq> None" using g h unfolding tables_grow_def by blast
    then obtain c where "cids_held st' r t = Some c" by blast
    then have "cids_get st' r t = Some c" by (rule rci.get_held)
    then show ?thesis using resolve_held by blast
  qed
  moreover have "\<exists>mf. \<forall>cfg'. fetch cfg' repo u st' = (make_repo repo st', Inr mf)" if h: "repo_manifests st repo u \<noteq> None"
  proof -
    have "repo_manifests st' repo u \<noteq> None" using g h unfolding tables_grow_def by blast
    then obtain mf where "repo_manifests st' repo u = Some mf" by blast
    then show ?thesis using fetch_hit by blast
  qed
  ultimately show ?thesis by blast
qed

section \<open>A push that is answered\<close>

text \<open>Steps up to the end of the request that holds the mutex of the manifests.\<close>

definition holding :: "'w reg_config \<Rightarrow> 'w machine \<Rightarrow> 'w machine \<Rightarrow> bool" where
  "holding cfg m m' \<longleftrightarrow> interleaved cfg m m' \<and> snd m' \<noteq> Idle"

definition push_adds :: "string \<Rightarrow> string \<Rightarrow> string \<Rightarrow> string \<Rightarrow> (string \<times> string \<times> string) list" where
  "push_adds repo t dg cid = [(repo, t, cid), (repo, dg, cid), (cid, ''latest'', cid)]"

text \<open>What a push that began with \<open>m0\<close> has collected: all layers that its repository then had.\<close>

definition collected :: "'w reg_config \<Rightarrow> 'w machine \<Rightarrow> string \<Rightarrow> string \<Rightarrow> string \<Rightarrow> bytes \<Rightarrow> (string \<rightharpoonup> bytes) \<Rightarrow> bool" where
  "collected cfg m0 repo t dg b ls \<longleftrightarrow>
     (\<exists>st0 ds. (holding cfg)\<^sup>*\<^sup>* m0 (st0, Collecting repo t dg b) \<and> ready_layers (reg_blobs st0) repo ds \<and>
        ls = contents (reg_blobs st0) |` set ds)"

text \<open>Where a push can be, and what it has added to the CID store by then.\<close>

definition push_added :: "'w reg_config \<Rightarrow> string \<Rightarrow> string \<Rightarrow> string \<Rightarrow> bytes \<Rightarrow> 'w machine \<Rightarrow> string \<Rightarrow> (string \<rightharpoonup> bytes) \<Rightarrow> 'w \<Rightarrow> 'w \<Rightarrow>
    (string \<times> string \<times> string) list \<Rightarrow> (string \<times> string \<times> string) list \<Rightarrow> bool" where
  "push_added cfg repo t dg b m cid ls w w' done todo \<longleftrightarrow>
     own_digests ls \<and> AddImage (sv cfg) w (ipfsClient cfg) (manifest_refs t dg b) ls = (w', Inr cid) \<and>
     done @ todo = push_adds repo t dg cid \<and> snd m = Adding todo (pushed_reply dg cid) \<and>
     (\<forall>(r, u, c) \<in> set done. cids_held (fst m) r u = Some c)"

definition push_at :: "'w reg_config \<Rightarrow> 'w machine \<Rightarrow> string \<Rightarrow> string \<Rightarrow> string \<Rightarrow> bytes \<Rightarrow> 'w machine \<Rightarrow> bool" where
  "push_at cfg m0 repo t dg b m \<longleftrightarrow>
     snd m = Collecting repo t dg b \<or>
     (\<exists>ls. collected cfg m0 repo t dg b ls \<and>
        (snd m = Removing repo t dg b ls \<or> snd m = Sending repo t dg b ls \<or>
         (\<exists>cid w w' done todo. push_added cfg repo t dg b m cid ls w w' done todo)))"

lemma push_added_step:
  assumes "push_added cfg repo t dg b (st, ph) cid ls w w' xs (x # todo)" and "advance cfg ph st = Some (m', y)"
  shows "push_added cfg repo t dg b m' cid ls w w' (xs @ [x]) todo"
proof -
  obtain r u c where x: "x = (r, u, c)" by (cases x)
  have all: "xs @ x # todo = push_adds repo t dg cid" and ph: "ph = Adding (x # todo) (pushed_reply dg cid)"
    and held: "\<And>r' u' c'. (r', u', c') \<in> set xs \<Longrightarrow> cids_held st r' u' = Some c'"
    using assms(1) unfolding push_added_def fst_conv snd_conv by blast+
  have same: "c' = cid" if "(r', u', c') \<in> set (xs @ [x])" for r' u' c'
  proof -
    have "(r', u', c') \<in> set (push_adds repo t dg cid)" unfolding all [symmetric] using that by auto
    then show ?thesis by (auto simp: push_adds_def)
  qed
  have m': "m' = (cids_add st r u c, Adding todo (pushed_reply dg cid))" using assms(2) ph x by simp
  have c: "c = cid" using same [of r u c] x by simp
  have "cids_held (fst m') r' u' = Some c'" if e: "(r', u', c') \<in> set (xs @ [x])" for r' u' c'
  proof (cases "key r' u' = key r u")
    case True
    then show ?thesis using m' c same [OF e] by (simp add: rci.held_add)
  next
    case False
    then have "(r', u', c') \<in> set xs" using e x by auto
    from held [OF this] False m' show ?thesis by (simp add: rci.held_add)
  qed
  then have "\<forall>(r, u, c) \<in> set (xs @ [x]). cids_held (fst m') r u = Some c" by blast
  moreover have "(xs @ [x]) @ todo = push_adds repo t dg cid" using all by simp
  moreover have "snd m' = Adding todo (pushed_reply dg cid)" using m' by simp
  ultimately show ?thesis using assms(1) unfolding push_added_def by blast
qed

lemma push_at_collect:
  assumes "(holding cfg)\<^sup>*\<^sup>* m0 (st, Collecting repo t dg b)"
    and "advance cfg (Collecting repo t dg b) st = Some (m', r)" and "snd m' \<noteq> Idle"
  shows "push_at cfg m0 repo t dg b m'"
proof -
  have free: "\<not> blobs_locked st" using assms(2) by (auto simp: blobs_get_def)
  have "\<exists>ds. ready_layers (reg_blobs st) repo ds"
    using assms(2,3) blobs_get_unready [OF free] by (rule_tac ccontr) (auto simp: ends_def)
  then obtain ds where ds: "ready_layers (reg_blobs st) repo ds" by blast
  have "snd m' = Removing repo t dg b (contents (reg_blobs st) |` set ds)"
    using assms(2) blobs_get_ready [OF free ds] by auto
  moreover have "collected cfg m0 repo t dg b (contents (reg_blobs st) |` set ds)"
    using assms(1) ds unfolding collected_def by blast
  ultimately show ?thesis unfolding push_at_def by blast
qed

lemma push_at_advance:
  assumes "push_at cfg m0 repo t dg b (st, ph)" and "(holding cfg)\<^sup>*\<^sup>* m0 (st, ph)" and "machine_inv (st, ph)"
    and "advance cfg ph st = Some (m', r)" and "snd m' \<noteq> Idle"
  shows "push_at cfg m0 repo t dg b m'"
proof -
  from assms(1) consider "ph = Collecting repo t dg b" | ls where "collected cfg m0 repo t dg b ls" "ph = Removing repo t dg b ls"
    | ls where "collected cfg m0 repo t dg b ls" "ph = Sending repo t dg b ls"
    | cid ls w w' xs todo where "collected cfg m0 repo t dg b ls" "push_added cfg repo t dg b (st, ph) cid ls w w' xs todo"
    unfolding push_at_def snd_conv by blast
  then show ?thesis
  proof cases
    case 1
    with push_at_collect assms(2,4,5) show ?thesis by blast
  next
    case (2 ls)
    with assms(4,5) have "snd m' = Sending repo t dg b ls" by (auto simp: ends_def split: prod.splits outcome.splits)
    with 2(1) show ?thesis unfolding push_at_def by blast
  next
    case (3 ls)
    with assms(3) have own: "own_digests ls" by (simp add: machine_inv_def)
    obtain w' x where a: "AddImage (sv cfg) (world st) (ipfsClient cfg) (manifest_refs t dg b) ls = (w', x)" by fastforce
    with 3 assms(4,5) obtain cid where x: "x = Inr cid" and m': "snd m' = Adding (push_adds repo t dg cid) (pushed_reply dg cid)"
      by (cases x) (auto simp: ends_def push_adds_def)
    have "push_added cfg repo t dg b m' cid ls (world st) w' [] (push_adds repo t dg cid)"
      using own a x m' by (simp add: push_added_def)
    with 3(1) show ?thesis unfolding push_at_def by blast
  next
    case (4 cid ls w w' xs todo)
    with assms(4,5) obtain x todo' where "todo = x # todo'" by (cases todo) (auto simp: push_added_def ends_def)
    with push_added_step [OF _ assms(4)] 4 have "push_added cfg repo t dg b m' cid ls w w' (xs @ [x]) todo'" by simp
    with 4(1) show ?thesis unfolding push_at_def by blast
  qed
qed

lemma push_added_cong:
  "push_added cfg repo t dg b m cid ls w w' done todo \<Longrightarrow> snd m' = snd m \<Longrightarrow> reg_cids (fst m') = reg_cids (fst m) \<Longrightarrow>
     push_added cfg repo t dg b m' cid ls w w' done todo"
  by (auto simp: push_added_def cids_held_def store_held_def)

lemma push_at_same:
  assumes "push_at cfg m0 repo t dg b m" and "snd m' = snd m" and "reg_cids (fst m') = reg_cids (fst m)"
  shows "push_at cfg m0 repo t dg b m'"
  using assms(1) push_added_cong [OF _ assms(2,3)] unfolding push_at_def assms(2) by blast

lemma push_at_step:
  assumes "(holding cfg)\<^sup>*\<^sup>* m0 m" and "holding cfg m m'" and "machine_inv m" and "push_at cfg m0 repo t dg b m"
  shows "push_at cfg m0 repo t dg b m'"
proof -
  have i: "interleaved cfg m m'" and ni: "snd m' \<noteq> Idle" using assms(2) by (simp_all add: holding_def)
  from i show ?thesis
  proof (cases rule: interleaved.cases)
    case (enter req st r)
    with assms(4) show ?thesis by (simp add: push_at_def push_added_def)
  next
    case (beside req st st' oc ph)
    with root_beside_tables(1) [OF beside(3,4)] show ?thesis by (intro push_at_same [OF assms(4)]) simp_all
  next
    case (environment st ph d w)
    then show ?thesis by (intro push_at_same [OF assms(4)]) simp_all
  next
    case (continue ph st r)
    with assms(1,3,4) ni push_at_advance show ?thesis by blast
  qed
qed

lemma push_at_path:
  assumes "(holding cfg)\<^sup>*\<^sup>* m0 m" and "machine_inv m0" and "push_at cfg m0 repo t dg b m0"
  shows "machine_inv m \<and> push_at cfg m0 repo t dg b m"
  using assms(1)
proof (induction rule: rtranclp_induct)
  case (step m1 m2)
  then show ?case using push_at_step [of cfg m0 m1 m2] interleaved_inv [of cfg m1 m2] by (auto simp: holding_def)
qed (use assms(2,3) in simp)

text \<open>At the end of a push that succeeds all is added.\<close>

lemma push_at_end:
  assumes "push_at cfg m0 repo t dg b (st', ph')" and "advance cfg ph' st' = Some ((st'', Idle), Some (resp, Done None))"
  obtains cid ls w1 w2 where "collected cfg m0 repo t dg b ls" "own_digests ls"
    "AddImage (sv cfg) w1 (ipfsClient cfg) (manifest_refs t dg b) ls = (w2, Inr cid)"
    "resp = pushed_reply dg cid" "st'' = st'" "cids_held st' repo t = Some cid" "cids_held st' repo dg = Some cid"
proof -
  have "ph' \<noteq> Collecting repo t dg b" "ph' \<noteq> Removing repo t dg b ls" "ph' \<noteq> Sending repo t dg b ls" for ls
    using assms(2) by (auto simp: ends_def reg_err_def split: prod.splits outcome.splits option.splits sum.splits)
  with assms(1) obtain cid ls w1 w2 xs todo where q: "collected cfg m0 repo t dg b ls" "own_digests ls"
    "AddImage (sv cfg) w1 (ipfsClient cfg) (manifest_refs t dg b) ls = (w2, Inr cid)"
    "xs @ todo = push_adds repo t dg cid" "ph' = Adding todo (pushed_reply dg cid)"
    "\<forall>(r, u, c) \<in> set xs. cids_held st' r u = Some c"
    unfolding push_at_def push_added_def fst_conv snd_conv by blast
  have "todo = []" using assms(2) q(5) by (cases todo) auto
  with assms(2) q have "resp = pushed_reply dg cid" "st'' = st'" "xs = push_adds repo t dg cid" by (simp_all add: ends_def)
  moreover from this q(6) have "cids_held st' repo t = Some cid" "cids_held st' repo dg = Some cid" by (auto simp: push_adds_def)
  ultimately show ?thesis using that q(1-3) by blast
qed

lemma AddImage_Inr:
  assumes "AddImage s w cl mfs lys = (w', Inr cid)"
  obtains rep where "api_add s w (shell_url cl) (image_tree mfs lys) = (w', rep)"
    "(\<exists>js. rep = ReplyOutput js None \<and> final_hash js None [] = Inr cid \<and> cid \<noteq> []) \<or> (\<exists>e. rep = SendFailed e) \<and> cid = []"
proof -
  have n: "e = None" if "final_hash js e f = Inr h" for js e f h
    using that by (induction js e f rule: final_hash.induct) (auto split: option.splits)
  from assms that show ?thesis
    by (auto simp: AddImage_def split: prod.splits api_reply.splits sum.splits if_splits) (frule n, auto)
qed

text \<open>
  C6: A push that is answered with success is visible, in every interleaving. From the moment a
  \<open>PUT\<close> of a manifest has entered, whatever other requests do until it ends: if it ends without an
  error, then the node was asked to add exactly one image, this manifest under its tag, its digest
  and \<open>latest\<close> with all the layers that the repository had at a moment of the push, each under its
  own digest; it either gave a CID as the hash of its last object, or, and this is the one case
  where the push succeeds without a CID, the request could not be sent and the CID is empty. The
  answer is 201 with this CID, and at that moment both the tag and the digest of the manifest
  resolve to it for everyone.
\<close>
theorem answered_push_is_visible:
  assumes "runs cfg (new_registry loc fs w, Idle) (st, Idle)" and "begin_put cfg repo t req st = (m, None)"
    and "(holding cfg)\<^sup>*\<^sup>* m (st', ph')" and "advance cfg ph' st' = Some ((st'', Idle), Some (resp, Done None))"
  shows "\<exists>cid st0 ds ls w1 w2 rep.
    (holding cfg)\<^sup>*\<^sup>* m (st0, Collecting repo t (compute_digest (req_body req)) (req_body req)) \<and>
    layers (reg_blobs st0) repo = Some ds \<and> (\<forall>d. ls d = (if d \<in> set ds then contents (reg_blobs st0) d else None)) \<and>
    (\<forall>d \<in> set ds. \<exists>c. ls d = Some c \<and> d = compute_digest c) \<and>
    api_add (sv cfg) w1 (shell_url (ipfsClient cfg))
      (image_tree (manifest_refs t (compute_digest (req_body req)) (req_body req)) ls) = (w2, rep) \<and>
    ((\<exists>js. rep = ReplyOutput js None \<and> final_hash js None [] = Inr cid \<and> cid \<noteq> []) \<or> (\<exists>e. rep = SendFailed e) \<and> cid = []) \<and>
    reply_status resp = StatusCreated \<and> reply_header resp ''X-Docker-Content-ID'' = Some cid \<and>
    (\<forall>u \<in> {t, compute_digest (req_body req)}. \<forall>cfg'. resolve cfg' st'' repo u = (world st'', Some [cid]))"
proof -
  let ?dg = "compute_digest (req_body req)" and ?b = "req_body req"
  have "reg_inv st" "\<not> manifests_locked st" using runs_inv [OF assms(1)] by (simp_all add: machine_inv_def)
  then have w: "starts_well st (begin_put cfg repo t req st)" by (rule begin_put_starts_well)
  have "machine_inv m" "push_at cfg m repo t ?dg ?b m"
    using w assms(2) by (auto simp: starts_well_def begin_put_def push_at_def ends_def Let_def split: option.splits)
  with push_at_path [OF assms(3)] have "push_at cfg m repo t ?dg ?b (st', ph')" by blast
  then obtain cid ls w1 w2 where c: "collected cfg m repo t ?dg ?b ls" and own: "own_digests ls"
    and a: "AddImage (sv cfg) w1 (ipfsClient cfg) (manifest_refs t ?dg ?b) ls = (w2, Inr cid)"
    and p: "resp = pushed_reply ?dg cid" "st'' = st'" "cids_held st' repo t = Some cid" "cids_held st' repo ?dg = Some cid"
    by (rule push_at_end [OF _ assms(4)])
  from c obtain st0 ds where h: "(holding cfg)\<^sup>*\<^sup>* m (st0, Collecting repo t ?dg ?b)" "layers (reg_blobs st0) repo = Some ds"
    "set ds \<subseteq> dom (contents (reg_blobs st0))" and ls: "ls = contents (reg_blobs st0) |` set ds"
    by (auto simp: collected_def ready_layers_def)
  have l: "\<forall>d. ls d = (if d \<in> set ds then contents (reg_blobs st0) d else None)" by (simp add: ls restrict_map_def)
  have o: "\<forall>d \<in> set ds. \<exists>c. ls d = Some c \<and> d = compute_digest c"
  proof
    fix d assume d: "d \<in> set ds"
    with h(3) obtain c where "contents (reg_blobs st0) d = Some c" by blast
    with l d have "ls d = Some c" by simp
    with own show "\<exists>c. ls d = Some c \<and> d = compute_digest c" unfolding map_all_def by blast
  qed
  have r: "\<forall>u \<in> {t, ?dg}. \<forall>cfg'. resolve cfg' st'' repo u = (world st'', Some [cid])"
    using p(2-4) by (auto intro!: resolve_held rci.get_held)
  have s: "reply_status resp = StatusCreated" "reply_header resp ''X-Docker-Content-ID'' = Some cid"
    by (simp_all add: p(1) pushed_reply_def resp_simps reply_status_def reply_header_def)
  obtain rep where "api_add (sv cfg) w1 (shell_url (ipfsClient cfg)) (image_tree (manifest_refs t ?dg ?b) ls) = (w2, rep)"
    "(\<exists>js. rep = ReplyOutput js None \<and> final_hash js None [] = Inr cid \<and> cid \<noteq> []) \<or> (\<exists>e. rep = SendFailed e) \<and> cid = []"
    by (rule AddImage_Inr [OF a])
  with h(1,2) l o r s show ?thesis by blast
qed

section \<open>A push that nothing interferes with\<close>

text \<open>Runs of sections alone are such paths.\<close>

lemma advance_end: "advance cfg ph st = Some ((st', ph'), r) \<Longrightarrow> r = None \<longleftrightarrow> ph' \<noteq> Idle"
  by (cases "(cfg, ph, st)" rule: advance.cases)
    (auto simp: ends_def split: prod.splits sum.splits outcome.splits option.splits)

lemma finish_holding:
  "finish cfg ((st, ph), None) = Some (st'', resp, oc) \<Longrightarrow>
     \<exists>st' ph'. (holding cfg)\<^sup>*\<^sup>* (st, ph) (st', ph') \<and> advance cfg ph' st' = Some ((st'', Idle), Some (resp, oc))"
proof (induction cfg "((st, ph), None :: (response \<times> reg_error option outcome) option)" arbitrary: st ph rule: finish.induct)
  case (2 cfg st ph)
  then obtain st1 ph1 r where a: "advance cfg ph st = Some ((st1, ph1), r)"
    by (auto simp: finish_step split: option.splits)
  show ?case
  proof (cases r)
    case None
    with a have "holding cfg (st, ph) (st1, ph1)" using advance_end [OF a] by (simp add: holding_def interleaved.continue)
    moreover have "finish cfg ((st1, ph1), None) = Some (st'', resp, oc)" using "2.prems" a None by (simp add: finish_step)
    with "2.hyps" [OF a [unfolded None]] obtain st' ph' where "(holding cfg)\<^sup>*\<^sup>* (st1, ph1) (st', ph')"
      "advance cfg ph' st' = Some ((st'', Idle), Some (resp, oc))" by blast
    ultimately show ?thesis by (meson converse_rtranclp_into_rtranclp)
  next
    case (Some x)
    with a "2.prems" have "x = (resp, oc)" "st1 = st''" by (cases x; simp add: finish_step)+
    with a Some advance_end [OF a] show ?thesis by blast
  qed
qed

text \<open>A layer is uploaded to a new server and then a manifest is put.\<close>

definition one_layer :: "unit registry" where
  "one_layer = local_registry\<lparr>reg_blobs := (store_blob ''a'' (compute_digest ''x'') ''x'' (reg_blobs local_registry))\<lparr>uploads := Map.empty\<rparr>\<rparr>"

abbreviation adding_config :: "unit reg_config" where
  "adding_config \<equiv> local_config adding_services"

lemma one_layer_run: "runs adding_config (new_registry ''/c'' empty_disk (), Idle) (one_layer, Idle)"
proof -
  let ?r = "put_req ''a'' ''7'' (compute_digest ''x'') ''x''"
  have "\<exists>r. blobs_handle adding_config ?r local_registry new_response = (one_layer, r, Done None)"
    using compute_digest_nonempty by (auto simp: handle_put blob_put_def upload_bytes_def one_layer_def store_blob_def Let_def)
  then obtain r where h: "root adding_config ?r local_registry = (one_layer, Done r)"
    by (auto simp: root_blob route put_req_def)
  have "\<not> takes_lock ?r" by (simp add: takes_lock_def route put_req_def)
  from interleaved.beside [OF this h, of Idle] show ?thesis
    unfolding runs_def by (simp add: local_registry_def r_into_rtranclp)
qed

lemma one_layer_ready: "ready_layers (reg_blobs one_layer) ''a'' [compute_digest ''x'']" "\<not> blobs_locked one_layer"
  "\<not> manifests_locked one_layer" "world one_layer = ()"
  by (simp_all add: one_layer_def ready_layers_def store_blob_def)

theorem answered_push_is_visible_witness:
  "\<exists>st'' resp cid. manifest_put adding_config ''a'' ''v1'' (manifest_req ''PUT'' ''a'' ''v1'' ''m'' ''{}'') one_layer new_response = (st'', resp, Done None) \<and>
     reply_header resp ''X-Docker-Content-ID'' = Some cid \<and> resolve adding_config st'' ''a'' ''v1'' = (world st'', Some [cid])"
proof -
  let ?req = "manifest_req ''PUT'' ''a'' ''v1'' ''m'' ''{}''"
  have n: "\<not> is_index_type ''m''" by (simp add: is_index_type_def)
  then have b: "snd (begin_put adding_config ''a'' ''v1'' ?req one_layer) = None"
    by (simp add: begin_put_def check_index_def Let_def)
  then obtain m where m: "begin_put adding_config ''a'' ''v1'' ?req one_layer = (m, None)" by (metis prod.collapse)
  have "\<exists>st'' resp. manifest_put adding_config ''a'' ''v1'' ?req one_layer new_response = (st'', resp, Done None)"
    using manifest_put_commit [OF one_layer_ready(3) n, of adding_config "''a''" "''v1''" "''{}''"] one_layer_ready
    by (simp add: manifest_commit_ready frame_simps add_image_def AddImage_adding)
  then obtain st'' resp where p: "manifest_put adding_config ''a'' ''v1'' ?req one_layer new_response = (st'', resp, Done None)" by blast
  then have "finish adding_config (m, None) = Some (st'', resp, Done None)"
    using finish_put [OF one_layer_ready(3), of adding_config "''a''" "''v1''" ?req] m by simp
  then obtain st' ph' where "(holding adding_config)\<^sup>*\<^sup>* m (st', ph')" "advance adding_config ph' st' = Some ((st'', Idle), Some (resp, Done None))"
    using finish_holding [of adding_config "fst m" "snd m"] by auto
  from answered_push_is_visible [OF one_layer_run m this] p show ?thesis by blast
qed

theorem nothing_is_forgotten_witness:
  "\<exists>mf. fetch adding_config ''a'' ''v1'' (early_state\<lparr>blobs_locked := True\<rparr>) = (make_repo ''a'' (early_state\<lparr>blobs_locked := True\<rparr>), Inr mf)"
proof -
  have "runs (local_config offline) (early_state, early_phase) (early_state\<lparr>blobs_locked := True\<rparr>, Idle)"
    using interleaved.continue [OF early_refused] by (simp add: runs_def r_into_rtranclp)
  moreover have "repo_manifests early_state ''a'' ''v1'' \<noteq> None" by (simp add: early_state_def frame_simps)
  ultimately show ?thesis using nothing_is_forgotten by blast
qed

end
