(* ===== verification/Pull.thy ===== *)
theory Pull
  imports PushClient
begin

text \<open>
  The server that \<open>PullImage\<close> of \<open>registry/registry.go\<close> starts when none answers: where it listens,
  which gateway it uses, and when it cannot start.
\<close>

section \<open>The gateway\<close>

text \<open>A host with a port, given with or without a scheme, as it is used.\<close>

definition plain_gateway :: "string \<Rightarrow> string \<Rightarrow> string \<Rightarrow> bool" where
  "plain_gateway sch h p \<longleftrightarrow> host_name h \<and> port_number p \<and>
     (sch \<in> {''http://'', ''https://''} \<or> sch = [] \<and> \<not> has_prefix (h @ '':'' @ p) ''http'')"

lemma normalize_twice:
  assumes "plain_gateway sch h p"
  shows "NormalizeGatewayURL (sch @ h @ '':'' @ p) = Done (''http://'' @ h @ '':'' @ p)"
    and "NormalizeGatewayURL (''http://'' @ h @ '':'' @ p) = Done (''http://'' @ h @ '':'' @ p)"
  using assms normalize_host_port [of h p sch] normalize_host_port [of h p "''http://''"] by (auto simp: plain_gateway_def)

section \<open>Pulling without a server\<close>

definition unhealthy :: "http_reply result \<Rightarrow> bool" where
  "unhealthy resp \<longleftrightarrow> (case resp of Inl e \<Rightarrow> True | Inr x \<Rightarrow> rp_code x \<noteq> 200)"

definition pull_server :: "bool \<Rightarrow> string \<Rightarrow> nat \<Rightarrow> server" where
  "pull_server dbg gw n =
     \<lparr>srv_debug = dbg, srv_listening = False, srv_host = ''0.0.0.0:'' @ nat_str n, srv_ipfsHost = [], srv_ipfsGateway = gw,
      srv_cidResolvers = [], srv_cidStorePath = [], srv_tlsCertPath = [], srv_tlsKeyPath = []\<rparr>"

lemma ExtractPort_host_port:
  assumes "CHR 0x0A \<notin> set h" and "n < 2 ^ 64"
  shows "unat (ExtractPort (h @ '':'' @ nat_str n)) = n"
proof -
  have m: "port_match (h @ '':'' @ nat_str n) = Some (nat_str n)"
    using assms nat_str_digits by (intro port_match_host) auto
  have "unat (ExtractPort (h @ '':'' @ nat_str n)) = min n (2 ^ 64 - 1)"
    by (simp only: ExtractPort_def m option.case parse_uint64_nat_str)
  with assms(2) show ?thesis by simp
qed

lemma runServer_unhealthy:
  assumes "dockerLocalRegistryHost r = rh @ '':'' @ nat_str n" and "CHR 0x0A \<notin> set rh" and "0 < n" and "n < 2 ^ 64"
    and "gatewayURL (cl_ipfs r) = sch @ h @ '':'' @ p" and "plain_gateway sch h p"
    and "http_get s w (''http://'' @ dockerLocalRegistryHost r @ ''/health'') = (w1, resp)" and "unhealthy resp"
  shows "runServer s r w = (w1, Done (Some (pull_server (cl_debug r) (''http://'' @ h @ '':'' @ p) n)))"
proof -
  have port: "unat (ExtractPort (dockerLocalRegistryHost r)) = n" using ExtractPort_host_port [OF assms(2,4)] assms(1) by simp
  have nz: "ExtractPort (dockerLocalRegistryHost r) \<noteq> 0" using port assms(3) by auto
  have "sch @ h @ '':'' @ p \<noteq> []" by simp
  then have gw: "GatewayURL s w1 (cl_ipfs r) = (w1, Done (''http://'' @ h @ '':'' @ p))"
    using normalize_twice(1) [OF assms(6)] assms(5) unfolding GatewayURL_def by (simp only: if_False)
  have "NewServer (Some (zero_server_config\<lparr>sc_Port := ExtractPort (dockerLocalRegistryHost r), sc_Debug := cl_debug r,
      sc_IPFSGateway := ''http://'' @ h @ '':'' @ p\<rparr>)) = Done (pull_server (cl_debug r) (''http://'' @ h @ '':'' @ p) n)"
    unfolding NewServer_def Let_def option.case zero_server_config_def pull_server_def
    by (simp only: server_config.simps server_config.update_convs normalize_twice(2) [OF assms(6)] outcome.case nz not_False_eq_True if_True port)
  then show ?thesis
    using assms(7,8) gw by (simp only: runServer_def prod.case outcome.case unhealthy_def) (auto split: sum.splits)
qed

text \<open>
  C18: A pull without a running server starts one where the engine will ask. If nothing healthy
  answers at the configured registry host, \<open>host:port\<close>, then the server that is started listens on
  exactly that port, of every address, and fetches from the configured gateway over plain HTTP;
  the engine is asked for the image \<open>host:port/hash\<close>, and that is the tag that is returned.
\<close>
theorem pull_starts_server:
  assumes "dockerLocalRegistryHost r = rh @ '':'' @ nat_str n" and "CHR 0x0A \<notin> set rh" and "0 < n" and "n < 2 ^ 64"
    and "gatewayURL (cl_ipfs r) = sch @ h @ '':'' @ p" and "plain_gateway sch h p"
    and "http_get s w (''http://'' @ dockerLocalRegistryHost r @ ''/health'') = (w1, resp)" and "unhealthy resp"
    and "ImagePull (cl_docker r) w1 (rh @ '':'' @ nat_str n @ ''/'' @ hash) = (w2, None)"
    and "exec_output s w3 [''ipfs'', ''config'', ''Addresses.API''] = (w4, Inr api)" and "lst (''0.0.0.0:'' @ nat_str n) = None"
  shows "\<exists>srv cfg st srv'. pull_image s r w hash = (w2, Done (Some srv, Inr (rh @ '':'' @ nat_str n @ ''/'' @ hash))) \<and>
    srv_host srv = ''0.0.0.0:'' @ nat_str n \<and> Start s lst fs w3 None srv = ((w4, Some (cfg, st), srv'), Done None) \<and>
    srv_listening srv' \<and> IPFSGateway cfg = ''http://'' @ h @ '':'' @ p \<and> st = new_registry [] fs w4"
proof -
  let ?srv = "pull_server (cl_debug r) (''http://'' @ h @ '':'' @ p) n"
  have run: "runServer s r w = (w1, Done (Some ?srv))" by (rule runServer_unhealthy [OF assms(1-8)])
  have "pull_image s r w hash = (w2, Done (Some ?srv, Inr (rh @ '':'' @ nat_str n @ ''/'' @ hash)))"
    using assms(1,9) by (simp only: pull_image_def run prod.case outcome.case Let_def Docker.PullImage_def append_assoc option.case)
  moreover have "srv_host ?srv = ''0.0.0.0:'' @ nat_str n" unfolding pull_server_def by (simp only: server.simps)
  moreover have "\<exists>cfg srv'. Start s lst fs w3 None ?srv = ((w4, Some (cfg, new_registry [] fs w4), srv'), Done None) \<and>
      srv_listening srv' \<and> IPFSGateway cfg = ''http://'' @ h @ '':'' @ p"
  proof -
    have f: "IPFSHost (reg_Config ?srv) = []" "CIDResolvers (reg_Config ?srv) = []" "CIDStorePath (reg_Config ?srv) = []"
      "cfg_gateway (reg_Config ?srv) = ''http://'' @ h @ '':'' @ p" "\<not> srv_listening ?srv"
      unfolding pull_server_def reg_Config_def by (simp_all only: server.simps config.simps simp_thms)
    have "\<exists>cfg. New s fs w3 (reg_Config ?srv) = (w4, Done (cfg, new_registry [] fs w4)) \<and> IPFSGateway cfg = ''http://'' @ h @ '':'' @ p"
      unfolding New_def NewRemoteClient_def getIpfsAPIURL_def f assms(10) by (simp del: append.simps)
    then obtain cfg where c: "New s fs w3 (reg_Config ?srv) = (w4, Done (cfg, new_registry [] fs w4))"
      "IPFSGateway cfg = ''http://'' @ h @ '':'' @ p" by blast
    have l: "lst (srv_host ?srv) = None" unfolding pull_server_def server.simps by (rule assms(11))
    show ?thesis using c f(5) l by (simp add: Start_def del: append.simps)
  qed
  ultimately show ?thesis by blast
qed

text \<open>
  C19: Pulling through a remote gateway needs a local \<open>ipfs\<close>. The server that a pull starts is given
  no IPFS host, so it asks the installed \<open>ipfs\<close> program for the daemon's address, although serving
  a pull only needs the gateway; where that program is missing or fails, \<open>log.Fatal\<close> ends the
  whole process, while the engine is still pulling.
\<close>
theorem pull_needs_local_ipfs:
  assumes "dockerLocalRegistryHost r = rh @ '':'' @ nat_str n" and "CHR 0x0A \<notin> set rh" and "0 < n" and "n < 2 ^ 64"
    and "gatewayURL (cl_ipfs r) = sch @ h @ '':'' @ p" and "plain_gateway sch h p"
    and "http_get s w (''http://'' @ dockerLocalRegistryHost r @ ''/health'') = (w1, resp)" and "unhealthy resp"
    and "exec_output s w3 [''ipfs'', ''config'', ''Addresses.API''] = (w4, Inl e)"
  shows "\<exists>srv. runServer s r w = (w1, Done (Some srv)) \<and> (\<forall>lst fs. snd (Start s lst fs w3 None srv) = Panicked)"
proof -
  let ?srv = "pull_server (cl_debug r) (''http://'' @ h @ '':'' @ p) n"
  have f: "IPFSHost (reg_Config ?srv) = []" "\<not> srv_listening ?srv"
    unfolding pull_server_def reg_Config_def by (simp_all only: server.simps config.simps simp_thms)
  have "New s fs w3 (reg_Config ?srv) = (w4, Panicked)" for fs
    unfolding New_def NewRemoteClient_def getIpfsAPIURL_def f assms(9) by simp
  then have "snd (Start s lst fs w3 None ?srv) = Panicked" for lst fs using f(2) by (simp add: Start_def)
  with runServer_unhealthy [OF assms(1-8)] show ?thesis by blast
qed

text \<open>A client with the default hosts, on a machine with and one without \<open>ipfs\<close>, and without a server.\<close>

definition default_client :: "unit client" where
  "default_client =
     \<lparr>dockerLocalRegistryHost = ''docker.local:5000'',
      cl_ipfs = \<lparr>shell_url = ''api'', isRemote = True, host = ''api'', gatewayURL = ''127.0.0.1:8080''\<rparr>, cl_docker = app_engine, cl_debug = False\<rparr>"

definition ipfs_installed :: "bytes result \<Rightarrow> unit services" where
  "ipfs_installed ans = offline\<lparr>exec_output := (\<lambda>w a. (w, ans))\<rparr>"

lemma default_client_facts:
  "dockerLocalRegistryHost default_client = ''docker.local'' @ '':'' @ nat_str 5000" "CHR 0x0A \<notin> set ''docker.local''"
  "gatewayURL (cl_ipfs default_client) = [] @ ''127.0.0.1'' @ '':'' @ ''8080''" "plain_gateway [] ''127.0.0.1'' ''8080''"
  by (simp_all add: default_client_def nat_str_5000 plain_gateway_def host_name_def port_number_def is_alnum_def is_digit_def)

lemma no_server:
  "http_get (ipfs_installed ans) () (''http://'' @ dockerLocalRegistryHost default_client @ ''/health'') =
     ((), snd (http_get (ipfs_installed ans) () (''http://'' @ dockerLocalRegistryHost default_client @ ''/health'')))"
  "unhealthy (snd (http_get (ipfs_installed ans) () (''http://'' @ dockerLocalRegistryHost default_client @ ''/health'')))"
  by (simp_all add: ipfs_installed_def offline_def unhealthy_def)

theorem pull_starts_server_witness:
  "\<exists>srv cfg st srv'. pull_image (ipfs_installed (Inr ''/ip4/127.0.0.1/tcp/5001'')) default_client () ''bafy'' =
     ((), Done (Some srv, Inr (''docker.local'' @ '':'' @ nat_str 5000 @ ''/'' @ ''bafy''))) \<and>
     Start (ipfs_installed (Inr ''/ip4/127.0.0.1/tcp/5001'')) (\<lambda>h. None) empty_disk () None srv = (((), Some (cfg, st), srv'), Done None) \<and>
     IPFSGateway cfg = ''http://'' @ ''127.0.0.1'' @ '':'' @ ''8080''"
proof -
  have "ImagePull (cl_docker default_client) () i = ((), None)" for i by (simp add: default_client_def app_engine_def)
  moreover have "exec_output (ipfs_installed (Inr a)) () x = ((), Inr a)" for a x by (simp add: ipfs_installed_def)
  ultimately show ?thesis
    using pull_starts_server [OF default_client_facts(1,2) _ _ default_client_facts(3,4) no_server] by fastforce
qed

theorem pull_needs_local_ipfs_witness:
  "\<exists>srv. runServer (ipfs_installed (Inl (GoError ''not found''))) default_client () = ((), Done (Some srv)) \<and>
     snd (Start (ipfs_installed (Inl (GoError ''not found''))) (\<lambda>h. None) empty_disk () None srv) = Panicked"
proof -
  have "exec_output (ipfs_installed (Inl e)) () x = ((), Inl e)" for e x by (simp add: ipfs_installed_def)
  from pull_needs_local_ipfs [OF default_client_facts(1,2) _ _ default_client_facts(3,4) no_server this] show ?thesis by fastforce
qed

end
