(* ===== verification/Daemon.thy ===== *)
theory Daemon
  imports Ipfs
begin

text \<open>
  Starting a local IPFS daemon, \<open>RunDaemon\<close>, \<open>spawnIpfsDaemon\<close> and \<open>NewClient\<close> of \<open>ipfs/ipfs.go\<close>:
  three goroutines that meet on the unbuffered channel \<open>ready\<close>, as a step relation. What \<open>pgrep\<close>
  and \<open>ipfs daemon\<close> do, and when the sleep of ten seconds is over, is left open: every order of
  the steps is a run.
\<close>

section \<open>The goroutines\<close>

text \<open>
  \<open>RunDaemon\<close> waits for the first value on the channel. \<open>spawnIpfsDaemon\<close> looks for the process,
  runs the daemon until it exits, and sends; a timer that it starts beside the daemon sends too.
\<close>

datatype main_state = Waiting | Returned bool

datatype spawn_state = Checking | Running | SpawnSends bool | SpawnDone

datatype timer_state = NoTimer | Sleeping | TimerSends | TimerDone

record daemon_state =
  main_pc :: main_state
  spawn_pc :: spawn_state
  timer_pc :: timer_state

definition daemon_init :: daemon_state where
  "daemon_init = \<lparr>main_pc = Waiting, spawn_pc = Checking, timer_pc = NoTimer\<rparr>"

text \<open>A send on the channel is one step with the receive of \<open>RunDaemon\<close>; nobody else receives.\<close>

inductive daemon_step :: "daemon_state \<Rightarrow> daemon_state \<Rightarrow> bool" where
  found: "spawn_pc s = Checking \<Longrightarrow> daemon_step s (s\<lparr>spawn_pc := SpawnSends True\<rparr>)"
| not_found: "spawn_pc s = Checking \<Longrightarrow> daemon_step s (s\<lparr>spawn_pc := Running, timer_pc := Sleeping\<rparr>)"
| daemon_exits: "spawn_pc s = Running \<Longrightarrow> daemon_step s (s\<lparr>spawn_pc := SpawnSends True\<rparr>)"
| daemon_fails: "spawn_pc s = Running \<Longrightarrow> daemon_step s (s\<lparr>spawn_pc := SpawnSends False\<rparr>)"
| wakes: "timer_pc s = Sleeping \<Longrightarrow> daemon_step s (s\<lparr>timer_pc := TimerSends\<rparr>)"
| spawn_sends: "spawn_pc s = SpawnSends v \<Longrightarrow> main_pc s = Waiting \<Longrightarrow>
    daemon_step s (s\<lparr>main_pc := Returned v, spawn_pc := SpawnDone\<rparr>)"
| timer_sends: "timer_pc s = TimerSends \<Longrightarrow> main_pc s = Waiting \<Longrightarrow>
    daemon_step s (s\<lparr>main_pc := Returned True, timer_pc := TimerDone\<rparr>)"

inductive_cases daemon_stepE: "daemon_step s s'"

definition daemon_runs :: "daemon_state \<Rightarrow> daemon_state \<Rightarrow> bool" where
  "daemon_runs = daemon_step\<^sup>*\<^sup>*"

text \<open>The steps of the program itself, which do not wait for the daemon to exit.\<close>

definition own_step :: "daemon_state \<Rightarrow> daemon_state \<Rightarrow> bool" where
  "own_step s s' \<longleftrightarrow> daemon_step s s' \<and> (spawn_pc s = Running \<longrightarrow> spawn_pc s' = Running)"

text \<open>What \<open>RunDaemon\<close> returns for the value received, and the client made by \<open>NewClient\<close>.\<close>

definition RunDaemon_result :: "bool \<Rightarrow> go_error option" where
  "RunDaemon_result v = (if \<not> v then Some (GoError ''failed to start IPFS daemon'') else None)"

definition NewClient :: "'w services \<Rightarrow> 'w \<Rightarrow> bool \<Rightarrow> 'w \<times> ipfs_client outcome" where
  "NewClient sv w v =
     (case RunDaemon_result v of
        Some e \<Rightarrow> (w, Panicked)
      | None \<Rightarrow>
          (case getIpfsAPIURL sv w of
             (w', Inl e) \<Rightarrow> (w', Panicked)
           | (w', Inr url) \<Rightarrow> (w', Done \<lparr>shell_url = url, isRemote = False, host = url, gatewayURL = []\<rparr>)))"

section \<open>Runs\<close>

text \<open>Every step lowers a measure, so no run has more than six steps.\<close>

fun spawn_left :: "spawn_state \<Rightarrow> nat" where
  "spawn_left Checking = 5"
| "spawn_left Running = 2"
| "spawn_left (SpawnSends v) = 1"
| "spawn_left SpawnDone = 0"

fun timer_left :: "timer_state \<Rightarrow> nat" where
  "timer_left Sleeping = 2"
| "timer_left TimerSends = 1"
| "timer_left _ = 0"

definition steps_left :: "daemon_state \<Rightarrow> nat" where
  "steps_left s = spawn_left (spawn_pc s) + timer_left (timer_pc s)"

lemma daemon_step_left: "daemon_step s s' \<Longrightarrow> timer_pc s = NoTimer \<or> spawn_pc s \<noteq> Checking \<Longrightarrow> steps_left s' < steps_left s"
  by (induction rule: daemon_step.induct) (auto simp: steps_left_def)

text \<open>
  The reachable states. Before the daemon is started there is no timer; once a value has been
  received its sender is done; and a failure is received only from a daemon that failed.
\<close>

definition daemon_inv :: "daemon_state \<Rightarrow> bool" where
  "daemon_inv s \<longleftrightarrow>
     (timer_pc s = NoTimer \<longrightarrow> spawn_pc s \<in> {Checking, SpawnSends True, SpawnDone}) \<and>
     (spawn_pc s = Checking \<longrightarrow> timer_pc s = NoTimer) \<and>
     (main_pc s = Waiting \<longleftrightarrow> spawn_pc s \<noteq> SpawnDone \<and> timer_pc s \<noteq> TimerDone) \<and>
     \<not> (spawn_pc s = SpawnDone \<and> timer_pc s = TimerDone) \<and>
     (timer_pc s = TimerDone \<longrightarrow> main_pc s = Returned True) \<and>
     (timer_pc s = NoTimer \<longrightarrow> main_pc s \<in> {Waiting, Returned True})"

lemma daemon_inv_step: "daemon_step s s' \<Longrightarrow> daemon_inv s \<Longrightarrow> daemon_inv s'"
  by (induction rule: daemon_step.induct) (auto simp: daemon_inv_def)

lemma daemon_runs_inv: "daemon_runs daemon_init s \<Longrightarrow> daemon_inv s"
  unfolding daemon_runs_def
  by (induction rule: rtranclp_induct) (simp add: daemon_inv_def daemon_init_def, rule daemon_inv_step)

lemma daemon_own_step: "daemon_inv s \<Longrightarrow> main_pc s = Waiting \<Longrightarrow> \<exists>s'. own_step s s'"
proof -
  assume inv: "daemon_inv s" and w: "main_pc s = Waiting"
  show ?thesis
  proof (cases "spawn_pc s")
    case Checking
    then have "own_step s (s\<lparr>spawn_pc := SpawnSends True\<rparr>)" by (simp add: own_step_def daemon_step.found)
    then show ?thesis by blast
  next
    case Running
    with inv w have "timer_pc s \<in> {Sleeping, TimerSends}" by (cases "timer_pc s") (auto simp: daemon_inv_def)
    with daemon_step.wakes [of s] daemon_step.timer_sends [of s] w
    have "daemon_step s (s\<lparr>timer_pc := TimerSends\<rparr>) \<or> daemon_step s (s\<lparr>main_pc := Returned True, timer_pc := TimerDone\<rparr>)"
      by auto
    with Running show ?thesis by (auto simp: own_step_def)
  next
    case (SpawnSends v)
    with w have "own_step s (s\<lparr>main_pc := Returned v, spawn_pc := SpawnDone\<rparr>)"
      by (simp add: own_step_def daemon_step.spawn_sends)
    then show ?thesis by blast
  next
    case SpawnDone
    with inv w show ?thesis by (simp add: daemon_inv_def)
  qed
qed

text \<open>
  C20: \<open>RunDaemon\<close> always returns, and starting the daemon leaks a goroutine. In every state that a
  run reaches, if \<open>RunDaemon\<close> still waits the program can go on by itself, without the daemon's
  help, and no step can be repeated for ever (\<open>steps_left\<close> goes down); it reports a failure only
  if the daemon was started and exited with an error. But when no step is left and the daemon had
  to be started, exactly one of the two senders is blocked on the channel, for ever.
\<close>
theorem run_daemon_returns:
  assumes "daemon_runs daemon_init s"
  shows "(main_pc s = Waiting \<longrightarrow> (\<exists>s'. own_step s s')) \<and>
    (\<forall>s'. daemon_step s s' \<longrightarrow> steps_left s' < steps_left s) \<and>
    (main_pc s = Returned False \<longrightarrow> timer_pc s \<noteq> NoTimer) \<and>
    ((\<nexists>s'. daemon_step s s') \<and> timer_pc s \<noteq> NoTimer \<longrightarrow>
       ((\<exists>v. spawn_pc s = SpawnSends v) \<longleftrightarrow> timer_pc s \<noteq> TimerSends))"
proof -
  have inv: "daemon_inv s" by (rule daemon_runs_inv [OF assms])
  have "(\<exists>v. spawn_pc s = SpawnSends v) \<longleftrightarrow> timer_pc s \<noteq> TimerSends"
    if no: "\<nexists>s'. daemon_step s s'" and t: "timer_pc s \<noteq> NoTimer"
  proof -
    have "main_pc s \<noteq> Waiting" using daemon_own_step [OF inv] no by (auto simp: own_step_def)
    moreover have "spawn_pc s \<noteq> Checking" "spawn_pc s \<noteq> Running" "timer_pc s \<noteq> Sleeping"
      using no daemon_step.found daemon_step.daemon_exits daemon_step.wakes by blast+
    ultimately show ?thesis using inv t by (cases "spawn_pc s"; cases "timer_pc s") (auto simp: daemon_inv_def)
  qed
  then show ?thesis
    using inv daemon_own_step [OF inv] daemon_step_left [of s] by (auto simp: daemon_inv_def)
qed

text \<open>The daemon fails at once: the failure is reported, and the timer waits for a reader for ever.\<close>

definition failed_state :: daemon_state where
  "failed_state = \<lparr>main_pc = Returned False, spawn_pc = SpawnDone, timer_pc = TimerSends\<rparr>"

lemma failed_run: "daemon_runs daemon_init failed_state"
proof -
  let ?s1 = "\<lparr>main_pc = Waiting, spawn_pc = Running, timer_pc = Sleeping\<rparr>"
  let ?s2 = "\<lparr>main_pc = Waiting, spawn_pc = SpawnSends False, timer_pc = Sleeping\<rparr>"
  let ?s3 = "\<lparr>main_pc = Returned False, spawn_pc = SpawnDone, timer_pc = Sleeping\<rparr>"
  have "daemon_step daemon_init ?s1" using daemon_step.not_found [of daemon_init] by (simp add: daemon_init_def)
  moreover have "daemon_step ?s1 ?s2" using daemon_step.daemon_fails [of ?s1] by simp
  moreover have "daemon_step ?s2 ?s3" using daemon_step.spawn_sends [of ?s2 False] by simp
  moreover have "daemon_step ?s3 failed_state" using daemon_step.wakes [of ?s3] by (simp add: failed_state_def)
  ultimately show ?thesis unfolding daemon_runs_def by (meson converse_rtranclp_into_rtranclp rtranclp.rtrancl_refl)
qed

theorem run_daemon_returns_witness:
  "(\<nexists>s'. daemon_step failed_state s') \<and> timer_pc failed_state = TimerSends \<and> \<not> (\<exists>v. spawn_pc failed_state = SpawnSends v)"
proof -
  have "\<not> daemon_step failed_state s'" for s'
    by (auto simp: failed_state_def elim: daemon_stepE)
  with run_daemon_returns [OF failed_run] show ?thesis by (simp add: failed_state_def)
qed

end
