(* ===== verification/DockerPush.thy ===== *)
theory DockerPush
  imports Delivery
begin

text \<open>
  A push by the Docker engine to a registry server and a pull from it or from another one: the engine opens
  an upload for each blob, streams the blob to the \<open>Location\<close> of the reply, closes the upload at
  the next \<open>Location\<close>, and sends the manifest last; then the same server is asked for the image
  under its name, or a server anywhere on the gateway for the CID of the reply. The requests go through \<open>root\<close>, as they arrive.
\<close>

section \<open>The location of an upload\<close>

lemma path_clean_plain:
  assumes "cs \<noteq> []" and "list_all plain_comp cs"
  shows "path_clean (join ''/'' cs) = join ''/'' cs"
proof -
  have sp: "split_on (CHR ''/'') (join ''/'' cs) = cs"
    by (rule split_on_join [OF assms(1)]) (use assms(2) in \<open>auto simp: list_all_iff plain_comp_def\<close>)
  obtain c ds where c: "cs = c # ds" using assms(1) by (cases cs) simp_all
  with assms(2) obtain x y where "c = x # y" "x \<noteq> CHR ''/''" by (cases c) (auto simp: plain_comp_def)
  then have "\<not> rooted (join ''/'' cs)" unfolding c rooted_def by (cases ds) simp_all
  with assms show ?thesis unfolding path_clean_def sp clean_comps_plain [OF assms(2)] by (simp add: Let_def)
qed

lemma upload_location_path:
  assumes "list_all plain_comp (name_comps repo)" and "plain_comp n"
  shows "upload_location (name_comps repo) n = upload_path repo n"
proof -
  have ne: "name_comps repo \<noteq> []" by (simp add: name_comps_def)
  have r: "join ''/'' (name_comps repo) = repo" by (simp add: name_comps_def join_split_on)
  have all: "filter (\<lambda>e. e \<noteq> []) (name_comps repo) = name_comps repo"
    using assms(1) by (auto simp: list_all_iff plain_comp_def intro!: filter_True)
  have "repo \<noteq> []"
    using ne assms(1) unfolding name_comps_def by (auto simp: plain_comp_def)
  have j: "path_join (name_comps repo) = repo"
    using path_clean_plain [OF ne assms(1)] ne by (simp add: path_join_def all r)
  have q: "join ''/'' (''v2'' # name_comps repo @ [''blobs'', ''uploads'', n]) = ''v2/'' @ repo @ ''/blobs/uploads/'' @ n"
    using join_snoc [of "name_comps repo @ [''blobs'', ''uploads'']" "''/''" n] join_snoc [of "name_comps repo @ [''blobs'']" "''/''" "''uploads''"]
      join_snoc [OF ne, of "''/''" "''blobs''"] by (simp add: join_Cons r)
  have "path_clean (''v2/'' @ repo @ ''/blobs/uploads/'' @ n) = ''v2/'' @ repo @ ''/blobs/uploads/'' @ n"
    unfolding q [symmetric] by (rule path_clean_plain) (use assms in \<open>simp_all add: plain_comp_def\<close>)
  then show ?thesis
    using \<open>repo \<noteq> []\<close> assms(2) unfolding upload_location_def j by (simp add: path_join_def upload_path_def plain_comp_def)
qed

lemma nat_str_plain: "plain_comp (nat_str n)"
  using nat_str_digits [of n] nat_str_nonempty [of n] by (auto simp: plain_comp_def list_all_iff is_digit_def)

section \<open>Opening an upload\<close>

lemma blob_elems_open:
  "blob_elems (upload_path repo []) = Done (''v2'' # name_comps repo @ [''blobs'', ''uploads''])"
proof -
  have "upload_path repo [] = ([] :: string) @ CHR ''/'' # ''v2'' @ CHR ''/'' # repo @ CHR ''/'' # ''blobs'' @ CHR ''/'' # ''uploads'' @ CHR ''/'' # []"
    by (simp add: upload_path_def)
  then have "tl (split_on (CHR ''/'') (upload_path repo [])) = ''v2'' # name_comps repo @ [''blobs'', ''uploads'', []]"
    by (simp only: split_on_append_sep) (simp add: split_on_id name_comps_def)
  then show ?thesis by (simp add: blob_elems_def Let_def butlast_append)
qed

lemma from_end_open:
  "from_end (''v2'' # xs @ [''blobs'', ''uploads'']) (Suc 0) = ''uploads''"
  "from_end (''v2'' # xs @ [''blobs'', ''uploads'']) 2 = ''blobs''"
  using from_end_append(1) [of "''v2'' # xs @ [''blobs'']" "''uploads''"] from_end_append(2) [of "''v2'' # xs" "''blobs''" "''uploads''"]
  by simp_all

lemma open_upload:
  assumes "list_all plain_comp (name_comps repo)"
  obtains w r n where "root cfg (upload_req ''POST'' repo [] [] [] []) st = (st\<lparr>world := w\<rparr>, Done r)"
    "reply_status r = StatusAccepted" "reply_header r ''Location'' = Some (upload_path repo n)" "plain_comp n"
proof -
  obtain w k where k: "rand_int63 (sv cfg) (world st) = (w, k)" by fastforce
  let ?elem = "''v2'' # name_comps repo @ [''blobs'', ''uploads'']"
  have len: "\<not> length ?elem < 4" "3 \<le> length ?elem"
    using split_on_nonempty [of "CHR ''/''" repo] by (cases "name_comps repo"; simp add: name_comps_def)+
  let ?r = "write_header StatusAccepted (set_header ''Range'' ''0-0'' (set_header ''Location'' (upload_path repo (nat_str k)) new_response))"
  have "blobs_handle cfg (upload_req ''POST'' repo [] [] [] []) st new_response = (st\<lparr>world := w\<rparr>, ?r, Done None)"
    using len k upload_location_path [OF assms nat_str_plain, of k]
    by (simp add: blobs_handle_def upload_req_def blob_elems_open blobs_dispatch_def from_end_open blob_post_start_def
        query_get_def first_value_def slice_def Let_def)
  moreover have "isBlob (upload_req ''POST'' repo [] [] [] []) = Done True"
    using len by (simp add: isBlob_def upload_req_def blob_elems_open from_end_open)
  ultimately have "root cfg (upload_req ''POST'' repo [] [] [] []) st = (st\<lparr>world := w\<rparr>, Done ?r)"
    by (simp add: root_blob not_isDig)
  then show ?thesis
    using that [OF _ _ _ nat_str_plain] by (simp add: resp_simps reply_status_def reply_header_def)
qed

section \<open>One blob\<close>

text \<open>The next request of an upload goes to the \<open>Location\<close> of the last reply.\<close>

definition loc_req :: "string \<Rightarrow> string \<Rightarrow> (string \<times> string) list \<Rightarrow> bytes \<Rightarrow> request" where
  "loc_req m loc q body = \<lparr>req_method = m, url_path = loc, url_query = q, req_header = [], req_body = body\<rparr>"

definition follow :: "response \<Rightarrow> string option" where
  "follow r = (if 200 \<le> reply_status r \<and> reply_status r < 400 then reply_header r ''Location'' else None)"

text \<open>The three requests for one blob; \<open>None\<close> if a reply is missing or not the expected one.\<close>

definition send_blob :: "'w reg_config \<Rightarrow> string \<Rightarrow> bytes \<Rightarrow> 'w registry \<Rightarrow> 'w registry option" where
  "send_blob cfg repo z st =
     (case root cfg (upload_req ''POST'' repo [] [] [] []) st of
        (st1, Done r1) \<Rightarrow>
          (case follow r1 of
             None \<Rightarrow> None
           | Some loc1 \<Rightarrow>
               (case root cfg (loc_req ''PATCH'' loc1 [] z) st1 of
                  (st2, Done r2) \<Rightarrow>
                    (case follow r2 of
                       None \<Rightarrow> None
                     | Some loc2 \<Rightarrow>
                         (case root cfg (loc_req ''PUT'' loc2 [(''digest'', compute_digest z)] []) st2 of
                            (st3, Done r3) \<Rightarrow> if reply_status r3 = StatusCreated then Some st3 else None
                          | _ \<Rightarrow> None))
                | _ \<Rightarrow> None))
      | _ \<Rightarrow> None)"

lemma stream_upload:
  assumes "list_all plain_comp (name_comps repo)" and "plain_comp n" and "\<not> blobs_locked st" and "uploads (reg_blobs st) n = None"
  obtains r where "root cfg (loc_req ''PATCH'' (upload_path repo n) [] z) st =
      (st\<lparr>reg_blobs := (reg_blobs st)\<lparr>uploads := (uploads (reg_blobs st))(n \<mapsto> z)\<rparr>\<rparr>, Done r)"
    "follow r = Some (upload_path repo n)"
proof -
  have n: "n \<noteq> []" "CHR ''/'' \<notin> set n" using assms(2) by (auto simp: plain_comp_def)
  have q: "loc_req ''PATCH'' (upload_path repo n) [] z = upload_req ''PATCH'' repo n [] [] z"
    by (simp add: loc_req_def upload_req_def)
  let ?r = "upload_ok (upload_elems repo n) n z new_response"
  have "blobs_handle cfg (upload_req ''PATCH'' repo n [] [] z) st new_response =
      (st\<lparr>reg_blobs := (reg_blobs st)\<lparr>uploads := (uploads (reg_blobs st))(n \<mapsto> z)\<rparr>\<rparr>, ?r, Done None)"
    unfolding handle_upload [OF n] using assms(3,4)
    by (simp add: blobs_dispatch_def upload_req_def from_end_upload header_get_def first_value_def blob_patch_stream_def Let_def)
  then have *: "root cfg (loc_req ''PATCH'' (upload_path repo n) [] z) st =
      (st\<lparr>reg_blobs := (reg_blobs st)\<lparr>uploads := (uploads (reg_blobs st))(n \<mapsto> z)\<rparr>\<rparr>, Done ?r)"
    unfolding q using n by (simp add: root_blob route)
  have "slice 1 (length (upload_elems repo n) - 3) (upload_elems repo n) = name_comps repo"
    by (simp add: slice_def name_comps_def)
  then have "reply_header ?r ''Location'' = Some (upload_path repo n)"
    using upload_location_path [OF assms(1,2)] by (simp add: upload_ok_def resp_simps reply_header_def)
  then have "follow ?r = Some (upload_path repo n)" by (simp add: follow_def resp_simps)
  with * show ?thesis by (rule that)
qed

lemma close_upload:
  assumes "plain_comp n" and "\<not> blobs_locked st" and "uploads (reg_blobs st) n = Some z"
  obtains r where "root cfg (loc_req ''PUT'' (upload_path repo n) [(''digest'', compute_digest z)] []) st =
      (st\<lparr>reg_blobs := (store_blob repo (compute_digest z) z (reg_blobs st))\<lparr>uploads := (uploads (reg_blobs st))(n := None)\<rparr>\<rparr>, Done r)"
    "reply_status r = StatusCreated"
proof -
  have n: "n \<noteq> []" "CHR ''/'' \<notin> set n" using assms(1) by (auto simp: plain_comp_def)
  have q: "loc_req ''PUT'' (upload_path repo n) [(''digest'', compute_digest z)] [] = put_req repo n (compute_digest z) []"
    by (simp add: loc_req_def put_req_def upload_req_def)
  let ?r = "write_header StatusCreated (set_header ''Docker-Content-Digest'' (compute_digest z) new_response)"
  have "root cfg (put_req repo n (compute_digest z) []) st = reply_of (blobs_handle cfg (put_req repo n (compute_digest z) []) st new_response)"
    by (rule root_blob) (use n in \<open>simp_all add: route put_req_def\<close>)
  note this [unfolded handle_put [OF n compute_digest_nonempty]]
  then have "root cfg (loc_req ''PUT'' (upload_path repo n) [(''digest'', compute_digest z)] []) st =
      (st\<lparr>reg_blobs := (store_blob repo (compute_digest z) z (reg_blobs st))\<lparr>uploads := (uploads (reg_blobs st))(n := None)\<rparr>\<rparr>, Done ?r)"
    unfolding q using assms(2,3) by (simp add: blob_put_def upload_bytes_def store_blob_def Let_def)
  then show ?thesis by (rule that) (simp add: resp_simps reply_status_def)
qed

lemma send_blob_stores:
  assumes "list_all plain_comp (name_comps repo)" and "\<not> blobs_locked st" and "uploads (reg_blobs st) = Map.empty"
  shows "\<exists>w. send_blob cfg repo z st = Some (st\<lparr>reg_blobs := store_blob repo (compute_digest z) z (reg_blobs st), world := w\<rparr>)"
proof -
  obtain w r1 n where o: "root cfg (upload_req ''POST'' repo [] [] [] []) st = (st\<lparr>world := w\<rparr>, Done r1)"
    "reply_status r1 = StatusAccepted" "reply_header r1 ''Location'' = Some (upload_path repo n)" "plain_comp n"
    using open_upload [OF assms(1)] .
  then have f1: "follow r1 = Some (upload_path repo n)" by (simp add: follow_def)
  let ?st1 = "st\<lparr>world := w\<rparr>"
  obtain r2 where p: "root cfg (loc_req ''PATCH'' (upload_path repo n) [] z) ?st1 =
      (?st1\<lparr>reg_blobs := (reg_blobs ?st1)\<lparr>uploads := (uploads (reg_blobs ?st1))(n \<mapsto> z)\<rparr>\<rparr>, Done r2)" "follow r2 = Some (upload_path repo n)"
    by (rule stream_upload [of repo n ?st1 cfg z]) (use assms o(4) in simp_all)
  let ?st2 = "?st1\<lparr>reg_blobs := (reg_blobs ?st1)\<lparr>uploads := (uploads (reg_blobs ?st1))(n \<mapsto> z)\<rparr>\<rparr>"
  obtain r3 where c: "root cfg (loc_req ''PUT'' (upload_path repo n) [(''digest'', compute_digest z)] []) ?st2 =
      (?st2\<lparr>reg_blobs := (store_blob repo (compute_digest z) z (reg_blobs ?st2))\<lparr>uploads := (uploads (reg_blobs ?st2))(n := None)\<rparr>\<rparr>, Done r3)"
    "reply_status r3 = StatusCreated"
    by (rule close_upload [of n ?st2 z cfg repo]) (use assms o(4) in simp_all)
  have "?st2\<lparr>reg_blobs := (store_blob repo (compute_digest z) z (reg_blobs ?st2))\<lparr>uploads := (uploads (reg_blobs ?st2))(n := None)\<rparr>\<rparr> =
      st\<lparr>reg_blobs := store_blob repo (compute_digest z) z (reg_blobs st), world := w\<rparr>"
    using assms(3) by (simp add: store_blob_def)
  with o(1) f1 p c show ?thesis by (intro exI [of _ w]) (simp add: send_blob_def)
qed

section \<open>All blobs\<close>

fun send_blobs :: "'w reg_config \<Rightarrow> string \<Rightarrow> bytes list \<Rightarrow> 'w registry \<Rightarrow> 'w registry option" where
  "send_blobs cfg repo [] st = Some st"
| "send_blobs cfg repo (z # zs) st =
     (case send_blob cfg repo z st of None \<Rightarrow> None | Some st1 \<Rightarrow> send_blobs cfg repo zs st1)"

definition store_all :: "string \<Rightarrow> bytes list \<Rightarrow> blobs \<Rightarrow> blobs" where
  "store_all repo zs b = foldl (\<lambda>b z. store_blob repo (compute_digest z) z b) b zs"

lemma send_blobs_stores:
  "list_all plain_comp (name_comps repo) \<Longrightarrow> \<not> blobs_locked st \<Longrightarrow> uploads (reg_blobs st) = Map.empty \<Longrightarrow>
   \<exists>w. send_blobs cfg repo zs st = Some (st\<lparr>reg_blobs := store_all repo zs (reg_blobs st), world := w\<rparr>)"
proof (induction zs arbitrary: st)
  case Nil
  have "st = st\<lparr>reg_blobs := store_all repo [] (reg_blobs st), world := world st\<rparr>" by (simp add: store_all_def)
  then show ?case by (metis send_blobs.simps(1))
next
  case (Cons z zs)
  obtain w where w: "send_blob cfg repo z st = Some (st\<lparr>reg_blobs := store_blob repo (compute_digest z) z (reg_blobs st), world := w\<rparr>)"
    using send_blob_stores [OF Cons.prems] by blast
  let ?st1 = "st\<lparr>reg_blobs := store_blob repo (compute_digest z) z (reg_blobs st), world := w\<rparr>"
  have "\<not> blobs_locked ?st1" "uploads (reg_blobs ?st1) = Map.empty" using Cons.prems by (simp_all add: store_blob_def)
  from Cons.IH [OF Cons.prems(1) this] w show ?case by (auto simp: store_all_def)
qed

lemma store_all_Cons: "store_all repo (z # zs) b = store_all repo zs (store_blob repo (compute_digest z) z b)"
  by (simp add: store_all_def)

lemma store_all_layers:
  "layers b repo = Some ds \<Longrightarrow> layers (store_all repo zs b) repo = Some (ds @ map compute_digest zs)"
proof (induction zs arbitrary: b ds)
  case (Cons z zs)
  have "layers (store_blob repo (compute_digest z) z b) repo = Some (ds @ [compute_digest z])"
    using Cons.prems by (simp add: store_blob_def)
  from Cons.IH [OF this] show ?case by (simp add: store_all_Cons)
qed (simp add: store_all_def)

lemma store_all_first:
  assumes "layers b repo = None" and "zs \<noteq> []"
  shows "layers (store_all repo zs b) repo = Some (map compute_digest zs)"
proof -
  obtain z ys where z: "zs = z # ys" using assms(2) by (cases zs) simp_all
  have "layers (store_blob repo (compute_digest z) z b) repo = Some [compute_digest z]"
    using assms(1) by (simp add: store_blob_def)
  from store_all_layers [OF this] show ?thesis by (simp add: z store_all_Cons)
qed

lemma store_all_contents:
  "contents (store_all repo zs b) = contents b ++ map_of (rev (map (\<lambda>z. (compute_digest z, z)) zs))"
proof (induction zs arbitrary: b)
  case (Cons z zs)
  have "contents b ++ map_of [(compute_digest z, z)] = contents (store_blob repo (compute_digest z) z b)"
    by (simp add: store_blob_def)
  then show ?case unfolding store_all_Cons Cons.IH by (simp only: list.map rev.simps map_of_append) (simp add: map_add_assoc [symmetric])
qed (simp add: store_all_def)

lemma store_all_content:
  assumes "inj_on compute_digest (set zs)" and "z \<in> set zs"
  shows "contents (store_all repo zs b) (compute_digest z) = Some z"
proof -
  let ?xs = "rev (map (\<lambda>z. (compute_digest z, z)) zs)"
  have "compute_digest z \<in> fst ` set ?xs" using assms(2) by force
  then obtain y where y: "map_of ?xs (compute_digest z) = Some y" by (metis map_of_eq_None_iff not_None_eq)
  then have "(compute_digest z, y) \<in> set ?xs" by (rule map_of_SomeD)
  then have "y \<in> set zs" "compute_digest y = compute_digest z" by auto
  with assms have "y = z" by (auto dest: inj_onD)
  with y show ?thesis by (simp add: store_all_contents)
qed

section \<open>The push\<close>

text \<open>The manifest is sent last; the push is answered with a CID.\<close>

definition docker_push :: "'w reg_config \<Rightarrow> string \<Rightarrow> string \<Rightarrow> string \<Rightarrow> bytes \<Rightarrow> bytes list \<Rightarrow> 'w registry \<Rightarrow>
    ('w registry \<times> string) option" where
  "docker_push cfg repo t ct b zs st =
     (case send_blobs cfg repo zs st of
        None \<Rightarrow> None
      | Some st1 \<Rightarrow>
          (case root cfg (manifest_req ''PUT'' repo t ct b) st1 of
             (st2, Done r) \<Rightarrow>
               if reply_status r = StatusCreated
               then map_option (Pair st2) (reply_header r ''X-Docker-Content-ID'') else None
           | _ \<Rightarrow> None))"

text \<open>What \<open>AddImage\<close> leaves on a node that behaves as documented.\<close>

definition below_image :: "(string \<rightharpoonup> bytes) \<Rightarrow> (string \<rightharpoonup> bytes) \<Rightarrow> ftree" where
  "below_image mfs lys = FDir [''blobs'' \<mapsto> FDir (map_option FFile \<circ> lys), ''manifests'' \<mapsto> FDir (map_option FFile \<circ> mfs)]"

lemma below_image_file:
  "mfs u = Some b \<Longrightarrow> tree_file (below_image mfs lys) [''manifests'', u] = Some b"
  "lys d = Some c \<Longrightarrow> tree_file (below_image mfs lys) [''blobs'', d] = Some c"
  by (simp_all add: below_image_def)

lemma AddImage_keeps:
  assumes "ipfs_node s cl gw ''image'' name has"
  obtains w' cid where "AddImage s w cl mfs lys = (w', Inr cid)" "cid \<noteq> []" "has w' cid (below_image mfs lys)"
proof -
  obtain w' js h where a: "api_add s w (shell_url cl) (FDir [''image'' \<mapsto> below_image mfs lys]) = (w', ReplyOutput js None)"
    "final_hash js None [] = Inr h" "h \<noteq> []" "has w' h (below_image mfs lys)"
    using assms unfolding ipfs_node_def by blast
  then have "AddImage s w cl mfs lys = (w', Inr h)"
    by (simp add: AddImage_def image_tree_def below_image_def)
  then show ?thesis using a(3,4) by (rule that)
qed

lemma docker_push_done:
  assumes "list_all plain_comp (name_comps repo)" and "url_comp t" and "\<not> is_index_type ct"
    and "\<not> manifests_locked st" and "\<not> blobs_locked st" and "uploads (reg_blobs st) = Map.empty"
    and "layers (reg_blobs st) repo = None" and "zs \<noteq> []" and "inj_on compute_digest (set zs)"
    and "ipfs_node (sv cfg) (ipfsClient cfg) gw ''image'' name has"
  obtains st' cid lys where "docker_push cfg repo t ct b zs st = Some (st', cid)" "cid \<noteq> []"
    "has (world st') cid (below_image (manifest_refs t (compute_digest b) b) lys)" "\<forall>z \<in> set zs. lys (compute_digest z) = Some z"
    "\<exists>w' st1. st' = pushed_state repo t ct b (map compute_digest zs) w' cid st1 \<and> \<not> manifests_locked st1"
proof -
  obtain w where sent: "send_blobs cfg repo zs st = Some (st\<lparr>reg_blobs := store_all repo zs (reg_blobs st), world := w\<rparr>)"
    using send_blobs_stores [OF assms(1,5,6)] by blast
  let ?st1 = "st\<lparr>reg_blobs := store_all repo zs (reg_blobs st), world := w\<rparr>"
  let ?ds = "map compute_digest zs" and ?lys = "contents (store_all repo zs (reg_blobs st)) |` set (map compute_digest zs)"
  have ready: "ready_layers (reg_blobs ?st1) repo ?ds"
    using store_all_first [OF assms(7,8)] store_all_content [OF assms(9)] by (auto simp: ready_layers_def)
  obtain w' cid where a: "AddImage (sv cfg) w (ipfsClient cfg) (manifest_refs t (compute_digest b) b) ?lys = (w', Inr cid)" "cid \<noteq> []"
    "has w' cid (below_image (manifest_refs t (compute_digest b) b) ?lys)"
    using AddImage_keeps [OF assms(10)] .
  have t: "t \<noteq> []" "CHR ''/'' \<notin> set t" using url_comp_facts(1) [OF assms(2)] by simp_all
  have "manifests_handle cfg (manifest_req ''PUT'' repo t ct b) ?st1 new_response =
      (pushed_state repo t ct b ?ds w' cid ?st1, pushed_reply (compute_digest b) cid, Done None)"
    by (rule push_done [OF t(2) _ _ assms(3) ready]) (use assms(4,5) a(1) in simp_all)
  then have "root cfg (manifest_req ''PUT'' repo t ct b) ?st1 =
      (pushed_state repo t ct b ?ds w' cid ?st1, Done (pushed_reply (compute_digest b) cid))"
    using t by (simp add: root_manifest route)
  then have "docker_push cfg repo t ct b zs st = Some (pushed_state repo t ct b ?ds w' cid ?st1, cid)"
    using sent by (simp add: docker_push_def resp_simps)
  moreover have "\<forall>z \<in> set zs. ?lys (compute_digest z) = Some z"
    using store_all_content [OF assms(9)] by (simp add: restrict_map_def)
  moreover have "\<not> manifests_locked ?st1" using assms(4) by simp
  ultimately show ?thesis using a(2,3) that by (metis pushed_state_frame(4))
qed

section \<open>Back from the same server\<close>

text \<open>
  C2: What is pushed to a registry server can be pulled from it. When the Docker engine pushes an
  image to a repository that has nothing uploaded, blob by blob and then the manifest, and the
  IPFS node behaves as documented (it keeps the directory that it is given and serves its files
  below the CID that it reports), every request is accepted; and a client that then pulls from the
  same server, under the name of the push, by its tag or by the digest of the manifest, gets the
  manifest and then every blob that the manifest lists, all with the bytes of the push. The server
  dropped its own copies of the blobs: they come back from the node.
\<close>
theorem pushed_and_pulled_back:
  assumes "list_all plain_comp (name_comps repo)" and "url_comp t" and "\<not> is_index_type ct"
    and "\<not> manifests_locked st" and "\<not> blobs_locked st" and "uploads (reg_blobs st) = Map.empty"
    and "layers (reg_blobs st) repo = None" and "zs \<noteq> []" and "inj_on compute_digest (set zs)"
    and "blob_digests b = Done (map compute_digest ys)" and "set ys \<subseteq> set zs"
    and "ipfs_node (sv cfg) (ipfsClient cfg) (IPFSGateway cfg) ''image'' name has"
    and "u \<in> {t, compute_digest b}"
  shows "\<exists>st' cid. docker_push cfg repo t ct b zs st = Some (st', cid) \<and> cid \<noteq> [] \<and>
    (\<forall>z \<in> set zs. contents (reg_blobs st') (compute_digest z) = None) \<and>
    pulls cfg repo u b (map (\<lambda>y. (compute_digest y, y)) ys) st'"
proof -
  obtain st' cid lys where p: "docker_push cfg repo t ct b zs st = Some (st', cid)" "cid \<noteq> []"
    and h: "has (world st') cid (below_image (manifest_refs t (compute_digest b) b) lys)"
    and ls: "\<forall>z \<in> set zs. lys (compute_digest z) = Some z"
    and s: "\<exists>w' st1. st' = pushed_state repo t ct b (map compute_digest zs) w' cid st1 \<and> \<not> manifests_locked st1"
    by (rule docker_push_done [where b = b, OF assms(1-9,12)])
  from s obtain w' st1 where st': "st' = pushed_state repo t ct b (map compute_digest zs) w' cid st1" "\<not> manifests_locked st1" by blast
  have e: "\<forall>z \<in> set zs. contents (reg_blobs st') (compute_digest z) = None" by (simp add: st'(1) frame_simps drop_layers_def)
  have u: "u \<noteq> []" "CHR ''/'' \<notin> set u"
  proof -
    have "url_comp u" using assms(2,13) url_comp_digest by auto
    from url_comp_facts(1) [OF this] show "u \<noteq> []" "CHR ''/'' \<notin> set u" by simp_all
  qed
  let ?bs = "map (\<lambda>y. (compute_digest y, y)) ys" and ?tn = "below_image (manifest_refs t (compute_digest b) b) lys"
  let ?st2 = "foldl (\<lambda>s d. cids_add s repo d cid) (make_repo repo st') (map compute_digest ys)"
  obtain r where m: "root cfg (manifest_req ''GET'' repo u [] []) st' = (?st2, Done r)" "reply_status r = StatusOK" "out r = b"
    using pushed_manifest_served [OF st'(2) assms(10,13) u st'(1)] .
  have "pull_blobs cfg repo ?bs ?st2"
  proof (rule blobs_served [OF assms(12)])
    show "has (world ?st2) cid ?tn" using h by (simp add: world_add_all frame_simps)
    fix d x assume "(d, x) \<in> set ?bs"
    then have x: "d = compute_digest x" "x \<in> set zs" "d \<in> set (map compute_digest ys)" using assms(11) by auto
    from x(3) have "cids_get ?st2 repo d = Some cid" by (rule rci.get_add_all)
    then show "url_comp d \<and> tree_file ?tn [''blobs'', d] = Some x \<and> cids_get ?st2 repo d = Some cid"
      unfolding x(1) using url_comp_digest below_image_file(2) [where lys = lys, OF bspec [OF ls x(2)]] by blast
  qed
  with p m e show ?thesis by (simp add: pulls_def)
qed

section \<open>From one server to the other\<close>

text \<open>
  C4: What is pushed to one registry server can be pulled from any other. When the Docker engine
  pushes an image to a repository of a server that has nothing uploaded for it, opening an upload
  for each blob, streaming the blob to its location and closing it, and sending the manifest, and
  the IPFS node behaves as documented and names by version 1 CIDs in base 32, every request is
  accepted and the push is answered with a CID. A server of another machine, on the gateway, that
  has nothing stored for this name yet, answers under that CID with the manifest, by its tag, as
  \<open>latest\<close> or by its digest, and then with every blob it lists, all with the bytes of the push.
\<close>
theorem pushed_here_pulled_there:
  assumes "list_all plain_comp (name_comps repo)" and "url_comp t" and "\<not> is_index_type ct"
    and "\<not> manifests_locked st" and "\<not> blobs_locked st" and "uploads (reg_blobs st) = Map.empty"
    and "layers (reg_blobs st) repo = None" and "zs \<noteq> []" and "inj_on compute_digest (set zs)"
    and "DecodeManifest b = Inr mf" and "blob_digests b = Done (map compute_digest ys)" and "set ys \<subseteq> set zs"
    and "ipfs_node (sv cfg) (ipfsClient cfg) (IPFSGateway cfg') ''image'' name has" and "sv cfg' = sv cfg"
    and "\<forall>w c tn. has w c tn \<longrightarrow> ToB32 (cidlib cfg) c = c"
    and "u \<in> {t, ''latest'', compute_digest b}"
  shows "\<exists>st' cid. docker_push cfg repo t ct b zs st = Some (st', cid) \<and>
    (\<forall>st2. world st2 = world st' \<longrightarrow> fresh_for st2 cid \<longrightarrow>
       pulls cfg' cid u b (map (\<lambda>y. (compute_digest y, y)) ys) st2)"
proof -
  obtain st' cid lys where p: "docker_push cfg repo t ct b zs st = Some (st', cid)" "cid \<noteq> []"
    and h: "has (world st') cid (below_image (manifest_refs t (compute_digest b) b) lys)"
    and ls: "\<forall>z \<in> set zs. lys (compute_digest z) = Some z"
    using docker_push_done [where b = b, OF assms(1-9,13)] by metis
  let ?tn = "below_image (manifest_refs t (compute_digest b) b) lys"
  have u: "url_comp u" using assms(2,16) url_comp_digest url_comp_facts(4) by blast
  have mu: "manifest_refs t (compute_digest b) b u = Some b" using assms(16) by (auto simp: manifest_refs_def)
  let ?bs = "map (\<lambda>y. (compute_digest y, y)) ys"
  have ds: "map compute_digest ys = map fst ?bs" by (simp add: comp_def)
  have bl: "url_comp d \<and> tree_file ?tn [''blobs'', d] = Some x" if "(d, x) \<in> set ?bs" for d x
  proof -
    from that have x: "d = compute_digest x" "x \<in> set zs" using assms(12) by auto
    show ?thesis unfolding x(1) using url_comp_digest below_image_file(2) [where lys = lys, OF bspec [OF ls x(2)]] by blast
  qed
  have "pulls cfg' cid u b ?bs st2" if "world st2 = world st'" "fresh_for st2 cid" for st2
    by (rule tree_pulls [OF assms(13) [folded assms(14)] _ that(2) p(2) _ u below_image_file(1) [where mfs = "manifest_refs t (compute_digest b) b", OF mu] assms(10) assms(11) [unfolded ds] bl])
      (use that(1) h assms(14,15) in auto)
  with p(1) show ?thesis by blast
qed

text \<open>A manifest with the configuration \<open>{}\<close> and one layer.\<close>

definition one_layer_manifest :: bytes where
  "one_layer_manifest = json_print (v2_json (compute_digest ''{}'') (length ''{}'') (map entry_obj (map blob_entry [''abc''])))"

lemma one_layer_manifest_blobs:
  "DecodeManifest one_layer_manifest = Inr (entry_manifest (compute_digest ''{}'') (length ''{}'') (map blob_entry [''abc'']))"
  "blob_digests one_layer_manifest = Done (map compute_digest [''{}'', ''abc''])"
  using decode_blobs [OF one_layer_manifest_def] by simp_all

lemma two_blobs_inj: "inj_on compute_digest (set [''abc'', ''{}''])"
proof -
  have "compute_digest ''abc'' \<noteq> compute_digest ''{}''"
    unfolding compute_digest_def sha256_abc sha256_empty_object by simp
  then show ?thesis by (simp add: inj_on_def)
qed

text \<open>The node above is pushed to by its own server.\<close>

lemma hello_push:
  "list_all plain_comp (name_comps ''lib/hello'')" "url_comp ''v1''" "\<not> is_index_type ''m''"
  by code_simp+

lemma node_server_simps [simp]:
  "\<not> manifests_locked (node_server w)" "\<not> blobs_locked (node_server w)" "uploads (reg_blobs (node_server w)) = Map.empty"
  "layers (reg_blobs (node_server w)) r = None"
  by (simp_all add: node_server_def new_registry_def)

theorem pushed_and_pulled_back_witness:
  "\<exists>st' cid. docker_push (local_config (one_tree_node ''image'' ''x'')) ''lib/hello'' ''v1'' ''m'' one_layer_manifest [''abc'', ''{}'']
       (node_server ([], FFile [])) = Some (st', cid) \<and>
     pulls (local_config (one_tree_node ''image'' ''x'')) ''lib/hello'' ''v1'' one_layer_manifest
       [(compute_digest ''{}'', ''{}''), (compute_digest ''abc'', ''abc'')] st'"
proof -
  let ?s = "one_tree_node ''image'' ''x''"
  let ?cfg = "local_config ?s" and ?st = "node_server ([], FFile [])"
  have cfg: "sv ?cfg = ?s" "IPFSGateway ?cfg = ''http://gw''" by (simp_all add: local_config_def)
  have node: "ipfs_node (sv ?cfg) (ipfsClient ?cfg) (IPFSGateway ?cfg) ''image'' ''x'' (\<lambda>w c t. w = (c, t))"
    unfolding cfg by (rule one_tree_node_ok)
  from pushed_and_pulled_back [where u = "''v1''", OF hello_push node_server_simps _ two_blobs_inj one_layer_manifest_blobs(2) _ node,
      of "([], FFile [])"]
  show ?thesis by auto
qed

theorem pushed_here_pulled_there_witness:
  "\<exists>st' cid. docker_push (local_config (one_tree_node ''image'' ''x'')) ''lib/hello'' ''v1'' ''m'' one_layer_manifest [''abc'', ''{}'']
       (node_server ([], FFile [])) = Some (st', cid) \<and>
     pulls (local_config (one_tree_node ''image'' ''x'')) cid ''latest'' one_layer_manifest
       [(compute_digest ''{}'', ''{}''), (compute_digest ''abc'', ''abc'')] (node_server (world st'))"
proof -
  let ?s = "one_tree_node ''image'' ''x''"
  let ?cfg = "local_config ?s" and ?st = "node_server ([], FFile [])"
  have n: "list_all plain_comp (name_comps ''lib/hello'')" "url_comp ''v1''" "\<not> is_index_type ''m''" by code_simp+
  have st: "\<not> manifests_locked ?st" "\<not> blobs_locked ?st" "uploads (reg_blobs ?st) = Map.empty" "layers (reg_blobs ?st) r = None" for r
    by (simp_all add: node_server_def new_registry_def)
  have cfg: "sv ?cfg = ?s" "IPFSGateway ?cfg = ''http://gw''" by (simp_all add: local_config_def)
  have node: "ipfs_node (sv ?cfg) (ipfsClient ?cfg) (IPFSGateway ?cfg) ''image'' ''x'' (\<lambda>w c t. w = (c, t))"
    unfolding cfg by (rule one_tree_node_ok)
  have b32: "\<forall>w c tn. w = (c, tn) \<longrightarrow> ToB32 (cidlib ?cfg) c = c" unfolding cfg by (simp add: one_tree_node_def ToB32_def)
  from pushed_here_pulled_there [where u = "''latest''", OF n st _ two_blobs_inj one_layer_manifest_blobs _ node refl b32]
  obtain st' cid where "docker_push ?cfg ''lib/hello'' ''v1'' ''m'' one_layer_manifest [''abc'', ''{}''] ?st = Some (st', cid)"
    "\<forall>st2. world st2 = world st' \<longrightarrow> fresh_for st2 cid \<longrightarrow>
       pulls ?cfg cid ''latest'' one_layer_manifest (map (\<lambda>y. (compute_digest y, y)) [''{}'', ''abc'']) st2"
    by auto
  with node_server_fresh show ?thesis by (intro exI [of _ st'] exI [of _ cid]) simp
qed

end
