(* ===== verification/ListPush.thy ===== *)
theory ListPush
  imports Registry
begin

text \<open>
  Pushing an image for several platforms: the images first, each with its blobs, and then the
  manifest list that names them. The list is a manifest of the same repository, so its \<open>PUT\<close>
  asks for the repository's uploaded layers like any other.
\<close>

section \<open>After the images\<close>

text \<open>A push that was answered 201 has taken the uploaded layers.\<close>

lemma push_accepted:
  assumes "CHR ''/'' \<notin> set t" and "t \<noteq> []" and "\<not> manifests_locked st" and "\<not> is_index_type ct"
    and "root cfg (manifest_req ''PUT'' repo t ct b) st = (st1, Done r)" and "reply_status r = StatusCreated"
  shows "\<not> manifests_locked st1" and "\<not> blobs_locked st1" and "layers (reg_blobs st1) repo = None"
proof -
  let ?mf = "\<lparr>contentType = ct, blob = b, digest = []\<rparr>"
  let ?s = "put_manifest repo (compute_digest b) ?mf (put_manifest repo t ?mf (make_repo repo st))"
  have r: "reply_of (manifest_commit cfg repo t (compute_digest b) b ?s new_response) = (st1, Done r)"
    using assms(1,2,5) manifest_put_commit [OF assms(3,4), of cfg repo t b new_response]
    by (simp add: root_manifest route handle_manifest)
  have "\<not> manifests_locked st1 \<and> \<not> blobs_locked st1 \<and> layers (reg_blobs st1) repo = None"
  proof (rule manifest_commit_cases [of ?s repo cfg t "compute_digest b" b new_response])
    fix ds
    assume free: "\<not> blobs_locked ?s"
      and c: "manifest_commit cfg repo t (compute_digest b) b ?s new_response =
        add_image cfg repo t (compute_digest b) b (contents (reg_blobs ?s) |` set ds)
          (?s\<lparr>reg_blobs := drop_layers repo ds (reg_blobs ?s)\<rparr>) new_response"
    let ?a = "add_image cfg repo t (compute_digest b) b (contents (reg_blobs ?s) |` set ds)
          (?s\<lparr>reg_blobs := drop_layers repo ds (reg_blobs ?s)\<rparr>) new_response"
    have "st1 = fst ?a" using r unfolding c by (auto simp: reply_of_def split: prod.splits outcome.splits option.splits)
    then show ?thesis using free assms(3) by (simp add: frame_simps drop_layers_def)
  qed (use r assms(6) in \<open>auto simp: reg_err_def reg_error_write_def resp_simps\<close>)
  then show "\<not> manifests_locked st1" and "\<not> blobs_locked st1" and "layers (reg_blobs st1) repo = None" by simp_all
qed

lemma check_listed_known: "\<forall>d \<in> set ds. known d \<noteq> None \<Longrightarrow> check_listed known ds = None"
  by (induction ds) simp_all

text \<open>
  C10: An image for several platforms cannot be pushed. After the push of the last of its images
  was answered 201, the \<open>PUT\<close> of a manifest list that names only manifests the server has is
  refused with 404, because the pushes of the images have taken all uploaded layers of the
  repository; and it leaves the mutex of the blobs locked, so that in every state the server can
  reach from there, looking for a blob, sending a part of an upload and closing one are never
  answered.
\<close>
theorem list_push_wedges_server:
  assumes "CHR ''/'' \<notin> set t" and "t \<noteq> []" and "\<not> manifests_locked st" and "\<not> is_index_type ct"
    and "root cfg (manifest_req ''PUT'' repo t ct b) st = (st1, Done r1)" and "reply_status r1 = StatusCreated"
    and "CHR ''/'' \<notin> set t'" and "t' \<noteq> []" and "is_index_type lt"
    and "ParseIndexManifest l = Inr im" and "\<forall>d \<in> set (listed_digests im). repo_manifests st1 repo d \<noteq> None"
    and "root cfg (manifest_req ''PUT'' repo t' lt l) st1 = (st2, r2)" and "reaches cfg st2 st3"
    and "CHR ''/'' \<notin> set u" and "u \<noteq> []" and "dg \<noteq> []"
  shows "(\<exists>resp. r2 = Done resp \<and> reply_status resp = StatusNotFound) \<and>
    root cfg (blob_req ''HEAD'' repo' u) st3 = (st3, Blocked) \<and>
    root cfg (upload_req ''PATCH'' repo' u [] [] c) st3 = (st3, Blocked) \<and> root cfg (put_req repo' u dg c) st3 = (st3, Blocked)"
proof -
  note p = push_accepted [OF assms(1-6)]
  have ck: "check_index (repo_manifests st1 repo) \<lparr>contentType = lt, blob = l, digest = []\<rparr> = None"
    using check_listed_known [OF assms(11)] assms(10) by (simp add: check_index_def)
  have nr: "\<nexists>ds. ready_layers (reg_blobs st1) repo ds" using p(3) by (simp add: ready_layers_def)
  have "root cfg (manifest_req ''PUT'' repo t' lt l) st1 =
      reply_of (manifests_handle cfg (manifest_req ''PUT'' repo t' lt l) st1 new_response)"
    using assms(7,8) by (simp add: root_manifest route)
  with assms(12) manifest_put_unready_checked [OF assms(7) p(1,2) ck nr, of cfg new_response]
  have "\<exists>resp. r2 = Done resp \<and> reply_status resp = StatusNotFound" and "blobs_locked st2"
    by (auto simp: reg_err_def reg_error_write_def resp_simps)
  with wedged_blocks [OF _ assms(13-16)] show ?thesis by blast
qed

text \<open>The image of a repository with one uploaded layer, and the list that names only it.\<close>

theorem list_push_wedges_server_witness:
  "\<exists>st1 r1 st2 r2 r3. root (local_config adding_services) (manifest_req ''PUT'' ''a'' ''v1'' ''m'' ''{}'') layer_registry = (st1, Done r1) \<and>
     reply_status r1 = StatusCreated \<and>
     root (local_config adding_services) (manifest_req ''PUT'' ''a'' ''v1'' ''application/vnd.oci.image.index.v1+json''
       (index_of [compute_digest ''{}''])) st1 = (st2, Done r2) \<and> reply_status r2 = StatusNotFound \<and>
     root (local_config adding_services) (blob_req ''HEAD'' ''b'' ''sha256:00'') st2 = (st2, r3) \<and> r3 = Blocked"
proof -
  let ?cfg = "local_config adding_services" and ?l = "index_of [compute_digest ''{}'']" and ?lt = "''application/vnd.oci.image.index.v1+json''"
  have n: "\<not> is_index_type ''m''" and lt: "is_index_type ?lt" by (simp_all add: is_index_type_def)
  let ?st1 = "pushed_state ''a'' ''v1'' ''m'' ''{}'' [''d''] () ''bafy'' layer_registry"
  have p: "root ?cfg (manifest_req ''PUT'' ''a'' ''v1'' ''m'' ''{}'') layer_registry = (?st1, Done (pushed_reply (compute_digest ''{}'') ''bafy''))"
    using push_done [OF _ layer_registry_simps(1,2) n layer_registry_ready AddImage_adding, of "''v1''" "''{}''"]
    by (simp add: root_manifest route)
  obtain im where im: "ParseIndexManifest ?l = Inr im" "listed_digests im = [compute_digest ''{}'']"
    using index_of_lists [of "[compute_digest ''{}'']"] hash_parse_digest [of "''{}''"] by auto
  have k: "\<forall>d \<in> set (listed_digests im). repo_manifests ?st1 ''a'' d \<noteq> None" by (simp add: im(2) frame_simps)
  obtain st2 r2 where l: "root ?cfg (manifest_req ''PUT'' ''a'' ''v1'' ?lt ?l) ?st1 = (st2, r2)" by fastforce
  have "reaches ?cfg st2 st2" by (simp add: reaches_def)
  from list_push_wedges_server [OF _ _ layer_registry_simps(1) n p pushed_reply_simps(1) _ _ lt im(1) k l this, of "''sha256:00''" "''x''" "''b''" "[]"]
  obtain r where "r2 = Done r" "reply_status r = StatusNotFound" "root ?cfg (blob_req ''HEAD'' ''b'' ''sha256:00'') st2 = (st2, Blocked)"
    by auto
  with p l pushed_reply_simps(1) show ?thesis by blast
qed

end
